(* ===== verification/Prelude.thy ===== *)
theory Prelude
  imports Main "HOL-Library.Word" "HOL-Library.List_Lexorder"
    "HOL-Library.Multiset" "HOL-Library.Char_ord" "HOL-Library.Code_Target_Nat"
begin

unbundle bit_operations_syntax

text \<open>
  The shared vocabulary of the development.

  Rust's machine integers are words of their width, a byte slice or \<open>Vec<u8>\<close> is a list of
  8-bit words, and a \<open>String\<close> is the list of its UTF-8 bytes (Isabelle's \<^typ>\<open>char\<close> has
  exactly 256 values). A \<open>Result<T, E>\<close> is a sum with the error on the left, and \<open>?\<close>
  is \<open>rbind\<close>. The theory also holds the parts of the Rust standard library that the sources
  rely on (big-endian integers, UTF-8 validation, checked addition), the lemmas on slices, lists and
  results that the component theories share, and three interfaces the components are proved
  against: closed string vocabularies, canonical codecs, and transition systems.
\<close>

section \<open>Types\<close>

type_synonym u8 = "8 word"
type_synonym u16 = "16 word"
type_synonym u32 = "32 word"
type_synonym u64 = "64 word"
type_synonym i64 = "64 word"
type_synonym bytes = "u8 list"

named_theorems wire_simps \<open>equations that evaluate encoders and decoders\<close>
named_theorems frame_simps \<open>which fields of a state an operation leaves alone\<close>

section \<open>Results\<close>

fun rbind :: "'e + 'a \<Rightarrow> ('a \<Rightarrow> 'e + 'b) \<Rightarrow> 'e + 'b" where
  "rbind (Inl e) f = Inl e"
| "rbind (Inr x) f = f x"

fun map_err :: "('e \<Rightarrow> 'f) \<Rightarrow> 'e + 'a \<Rightarrow> 'f + 'a" where
  "map_err f (Inl e) = Inl (f e)"
| "map_err f (Inr x) = Inr x"

fun ok_or :: "'a option \<Rightarrow> 'e \<Rightarrow> 'e + 'a" where
  "ok_or None e = Inl e"
| "ok_or (Some x) e = Inr x"

text \<open>\<open>iter().map(f).collect::<Result<Vec<_>, _>>()\<close>: the first error wins.\<close>

fun try_map :: "('a \<Rightarrow> 'e + 'b) \<Rightarrow> 'a list \<Rightarrow> 'e + 'b list" where
  "try_map f [] = Inr []"
| "try_map f (x # xs) = rbind (f x) (\<lambda>y. rbind (try_map f xs) (\<lambda>ys. Inr (y # ys)))"

text \<open>
  The build aborts on arithmetic overflow and on \<open>expect\<close>: code that can abort returns an
  option of a result, and \<open>abind\<close> is \<open>?\<close> there.
\<close>

fun abind :: "('e + 'a) option \<Rightarrow> ('a \<Rightarrow> ('e + 'b) option) \<Rightarrow> ('e + 'b) option" where
  "abind None f = None"
| "abind (Some (Inl e)) f = Some (Inl e)"
| "abind (Some (Inr x)) f = f x"

section \<open>Integers\<close>

definition checked_add :: "'a::len word \<Rightarrow> 'a word \<Rightarrow> 'a word option" where
  "checked_add a b = (if unat a + unat b < 2 ^ LENGTH('a) then Some (a + b) else None)"

definition saturating_sub :: "'a::len word \<Rightarrow> 'a word \<Rightarrow> 'a word" where
  "saturating_sub a b = (if a < b then 0 else a - b)"

text \<open>Big-endian byte strings: \<open>be_of_nat n k\<close> is the \<open>n\<close> low bytes of \<open>k\<close>.\<close>

fun be_of_nat :: "nat \<Rightarrow> nat \<Rightarrow> bytes" where
  "be_of_nat 0 k = []"
| "be_of_nat (Suc n) k = be_of_nat n (k div 256) @ [of_nat k]"

definition nat_of_be :: "bytes \<Rightarrow> nat" where
  "nat_of_be bs = foldl (\<lambda>a b. a * 256 + unat b) 0 bs"

definition to_be_bytes :: "'a::len word \<Rightarrow> bytes" where
  "to_be_bytes w = be_of_nat (LENGTH('a) div 8) (unat w)"

definition from_be_bytes :: "bytes \<Rightarrow> 'a::len word" where
  "from_be_bytes bs = of_nat (nat_of_be bs)"

section \<open>Strings\<close>

definition byte_of_char :: "char \<Rightarrow> u8" where
  "byte_of_char c = of_nat (of_char c)"

definition char_of_byte :: "u8 \<Rightarrow> char" where
  "char_of_byte b = char_of (unat b)"

definition str_bytes :: "string \<Rightarrow> bytes" where
  "str_bytes s = map byte_of_char s"

definition bytes_str :: "bytes \<Rightarrow> string" where
  "bytes_str bs = map char_of_byte bs"

definition utf8_cont :: "u8 \<Rightarrow> bool" where
  "utf8_cont b = (0x80 \<le> b \<and> b \<le> 0xBF)"

text \<open>
  \<open>core::str::from_utf8\<close>: exactly the well-formed byte sequences of Unicode table 3-7, so no
  overlong forms, no surrogates, nothing above U+10FFFF.
\<close>

fun utf8_valid :: "bytes \<Rightarrow> bool" where
  "utf8_valid [] = True"
| "utf8_valid (b # bs) =
     (if b < 0x80 then utf8_valid bs
      else if 0xC2 \<le> b \<and> b \<le> 0xDF then
        1 \<le> length bs \<and> utf8_cont (bs ! 0) \<and> utf8_valid (drop 1 bs)
      else if 0xE0 \<le> b \<and> b \<le> 0xEF then
        2 \<le> length bs \<and> utf8_cont (bs ! 0) \<and> utf8_cont (bs ! 1) \<and>
        (b = 0xE0 \<longrightarrow> 0xA0 \<le> bs ! 0) \<and> (b = 0xED \<longrightarrow> bs ! 0 \<le> 0x9F) \<and>
        utf8_valid (drop 2 bs)
      else if 0xF0 \<le> b \<and> b \<le> 0xF4 then
        3 \<le> length bs \<and> utf8_cont (bs ! 0) \<and> utf8_cont (bs ! 1) \<and> utf8_cont (bs ! 2) \<and>
        (b = 0xF0 \<longrightarrow> 0x90 \<le> bs ! 0) \<and> (b = 0xF4 \<longrightarrow> bs ! 0 \<le> 0x8F) \<and>
        utf8_valid (drop 3 bs)
      else False)"

text \<open>\<open>str::chars\<close>: each character as the bytes that spell it, by the width its first byte announces.\<close>

definition utf8_width :: "char \<Rightarrow> nat" where
  "utf8_width c =
     (if byte_of_char c < 0x80 then 1 else if byte_of_char c < 0xE0 then 2
      else if byte_of_char c < 0xF0 then 3 else 4)"

function utf8_chars :: "string \<Rightarrow> string list" where
  "utf8_chars [] = []"
| "utf8_chars (c # cs) =
     (c # take (utf8_width c - 1) cs) # utf8_chars (drop (utf8_width c - 1) cs)"
  by pat_completeness auto
termination by (relation "measure length") auto

definition string_wf :: "string \<Rightarrow> bool" where
  "string_wf s = utf8_valid (str_bytes s)"

text \<open>\<open>str::split\<close> on a one-byte separator: always at least one piece.\<close>

fun split_on :: "char \<Rightarrow> string \<Rightarrow> string list" where
  "split_on sep [] = [[]]"
| "split_on sep (c # cs) =
     (if c = sep then [] # split_on sep cs
      else case split_on sep cs of p # ps \<Rightarrow> (c # p) # ps | [] \<Rightarrow> [[c]])"

text \<open>
  \<open>FromStr\<close> of the unsigned integers: an optional plus sign, then decimal digits, and the value
  below the limit; and \<open>Display\<close>, its inverse.
\<close>

fun dec_digits :: "nat \<Rightarrow> string \<Rightarrow> nat option" where
  "dec_digits acc [] = Some acc"
| "dec_digits acc (c # cs) =
     (if CHR ''0'' \<le> c \<and> c \<le> CHR ''9'' then dec_digits (acc * 10 + (of_char c - 48)) cs else None)"

definition parse_unsigned :: "nat \<Rightarrow> string \<Rightarrow> nat option" where
  "parse_unsigned limit s =
     (let ds = (case s of c # cs \<Rightarrow> if c = CHR ''+'' then cs else s | [] \<Rightarrow> s) in
      if ds = [] then None
      else case dec_digits 0 ds of Some n \<Rightarrow> if n < limit then Some n else None | None \<Rightarrow> None)"

function display_nat :: "nat \<Rightarrow> string" where
  "display_nat n =
     (if n < 10 then [char_of (48 + n)] else display_nat (n div 10) @ [char_of (48 + n mod 10)])"
  by pat_completeness auto
termination by (relation "measure id") auto

declare display_nat.simps [simp del]

section \<open>Slices\<close>

text \<open>\<open>xs[a..b]\<close>\<close>

definition slice :: "nat \<Rightarrow> nat \<Rightarrow> 'a list \<Rightarrow> 'a list" where
  "slice a b xs = take (b - a) (drop a xs)"

text \<open>\<open>iter().position(p)\<close>\<close>

fun position :: "('a \<Rightarrow> bool) \<Rightarrow> 'a list \<Rightarrow> nat option" where
  "position p [] = None"
| "position p (x # xs) = (if p x then Some 0 else map_option Suc (position p xs))"

section \<open>Lemmas: results\<close>

lemma rbind_cong [fundef_cong]:
  "r = r' \<Longrightarrow> (\<And>x. r' = Inr x \<Longrightarrow> f x = f' x) \<Longrightarrow> rbind r f = rbind r' f'"
  by (cases r') auto

lemma try_map_cong [fundef_cong]:
  "xs = ys \<Longrightarrow> (\<And>x. x \<in> set ys \<Longrightarrow> f x = g x) \<Longrightarrow> try_map f xs = try_map g ys"
  by (induction xs arbitrary: ys) auto

lemma rbind_Inr_iff [simp]: "rbind r f = Inr y \<longleftrightarrow> (\<exists>x. r = Inr x \<and> f x = Inr y)"
  by (cases r) auto

lemma Inr_rbind_iff [simp]: "Inr y = rbind r f \<longleftrightarrow> (\<exists>x. r = Inr x \<and> f x = Inr y)"
  by (cases r) auto

lemma rbind_Inl_iff: "rbind r f = Inl e \<longleftrightarrow> r = Inl e \<or> (\<exists>x. r = Inr x \<and> f x = Inl e)"
  by (cases r) auto

lemma abind_cong [fundef_cong]:
  "r = r' \<Longrightarrow> (\<And>x. r' = Some (Inr x) \<Longrightarrow> f x = f' x) \<Longrightarrow> abind r f = abind r' f'"
  by (cases "(r', f')" rule: abind.cases) auto

lemma abind_Inr_iff [simp]:
  "abind r f = Some (Inr y) \<longleftrightarrow> (\<exists>x. r = Some (Inr x) \<and> f x = Some (Inr y))"
  by (cases "(r, f)" rule: abind.cases) auto

lemma map_err_Inr_iff [simp]: "map_err f r = Inr x \<longleftrightarrow> r = Inr x"
  by (cases r) auto

lemma Inr_map_err_iff [simp]: "Inr x = map_err f r \<longleftrightarrow> r = Inr x"
  by (cases r) auto

lemma ok_or_Inr_iff [simp]: "ok_or x e = Inr y \<longleftrightarrow> x = Some y"
  by (cases x) auto

lemma if_Inl_Inr_iff [simp]: "(if b then Inl e else r) = Inr x \<longleftrightarrow> \<not> b \<and> r = Inr x"
  by auto

lemma try_map_Inr_iff:
  "try_map f xs = Inr ys \<longleftrightarrow> list_all2 (\<lambda>x y. f x = Inr y) xs ys"
  by (induction xs arbitrary: ys) (auto simp: list_all2_Cons1)

lemma try_map_each:
  assumes "try_map f xs = Inr ys" and "x \<in> set xs"
  shows "\<exists>y. f x = Inr y"
  using assms by (induction xs arbitrary: ys) auto

lemma try_map_map_Inr: "(\<And>x. x \<in> set xs \<Longrightarrow> f (g x) = Inr x) \<Longrightarrow> try_map f (map g xs) = Inr xs"
  by (induction xs) auto

lemma try_map_length: "try_map f xs = Inr ys \<Longrightarrow> length ys = length xs"
  by (simp add: try_map_Inr_iff list_all2_lengthD)

section \<open>Lemmas: integers\<close>

lemma checked_add_Some_iff:
  "checked_add a (b :: 'a::len word) = Some c \<longleftrightarrow> unat a + unat b < 2 ^ LENGTH('a) \<and> c = a + b"
  by (auto simp: checked_add_def)

lemma unat_checked_add: "checked_add a b = Some c \<Longrightarrow> unat c = unat a + unat b"
  by (auto simp: checked_add_Some_iff unat_word_ariths)

lemma length_be_of_nat [simp]: "length (be_of_nat n k) = n"
  by (induction n arbitrary: k) auto

lemma nat_of_be_Nil [simp]: "nat_of_be [] = 0"
  by (simp add: nat_of_be_def)

lemma nat_of_be_snoc [simp]: "nat_of_be (bs @ [b]) = nat_of_be bs * 256 + unat b"
  by (simp add: nat_of_be_def)

lemma unat_byte_lt [simp]: "unat (b :: u8) < 256"
  using unsigned_less [of b, where ?'a = nat] by simp

lemma nat_of_be_lt: "nat_of_be bs < 256 ^ length bs"
proof (induction bs rule: rev_induct)
  case (snoc b bs)
  have "unat b < 256" by simp
  moreover have "Suc (nat_of_be bs) * 256 \<le> 256 ^ length bs * 256"
    using snoc by (intro mult_le_mono1) simp
  ultimately show ?case by (simp del: unat_byte_lt)
qed simp

lemma unat_of_nat_byte: "unat (of_nat k :: u8) = k mod 256"
  by (simp add: unat_of_nat)

lemma nat_of_be_be_of_nat [simp]: "nat_of_be (be_of_nat n k) = k mod 256 ^ n"
proof (induction n arbitrary: k)
  case (Suc n)
  have "nat_of_be (be_of_nat (Suc n) k) = (k div 256 mod 256 ^ n) * 256 + k mod 256"
    by (simp add: Suc unat_of_nat_byte)
  also have "\<dots> = k mod (256 * 256 ^ n)"
    by (simp add: mod_mult2_eq)
  finally show ?case by simp
qed simp

lemma be_of_nat_nat_of_be: "be_of_nat (length bs) (nat_of_be bs) = bs"
proof (induction bs rule: rev_induct)
  case (snoc b bs)
  have "unat b < 256" by simp
  then have "(nat_of_be bs * 256 + unat b) div 256 = nat_of_be bs" by simp
  moreover have "of_nat (nat_of_be bs * 256 + unat b) = b"
  proof -
    have "(of_nat (nat_of_be bs * 256) :: u8) = 0"
      by (simp only: word_of_nat_eq_0_iff) simp
    then show ?thesis by (simp only: of_nat_add of_nat_unat ucast_id add_0)
  qed
  ultimately show ?case using snoc by simp
qed simp

lemma be_of_nat_inject:
  "k < 256 ^ n \<Longrightarrow> l < 256 ^ n \<Longrightarrow> be_of_nat n k = be_of_nat n l \<longleftrightarrow> k = l"
  by (metis nat_of_be_be_of_nat mod_less)

lemma length_to_be_bytes [simp]: "length (to_be_bytes (w :: 'a::len word)) = LENGTH('a) div 8"
  by (simp add: to_be_bytes_def)

lemma from_to_be_bytes:
  assumes "8 dvd LENGTH('a::len)"
  shows "from_be_bytes (to_be_bytes (w :: 'a word)) = w"
proof -
  have "(256::nat) ^ (LENGTH('a) div 8) = (2 ^ 8) ^ (LENGTH('a) div 8)" by simp
  also have "\<dots> = 2 ^ LENGTH('a)" using assms by (simp only: power_mult [symmetric] dvd_mult_div_cancel)
  finally have "(256::nat) ^ (LENGTH('a) div 8) = 2 ^ LENGTH('a)" .
  then show ?thesis
    using unsigned_less [of w, where ?'a = nat] by (simp add: from_be_bytes_def to_be_bytes_def)
qed

lemma to_from_be_bytes:
  assumes "length bs * 8 = LENGTH('a::len)"
  shows "to_be_bytes (from_be_bytes bs :: 'a word) = bs"
proof -
  have "(256::nat) ^ length bs = (2 ^ 8) ^ length bs" by simp
  also have "\<dots> = 2 ^ LENGTH('a)" using assms by (simp only: power_mult [symmetric] mult.commute)
  finally have "nat_of_be bs < 2 ^ LENGTH('a)" using nat_of_be_lt [of bs] by simp
  then have "unat (from_be_bytes bs :: 'a word) = nat_of_be bs"
    by (simp add: from_be_bytes_def unat_of_nat)
  moreover have "LENGTH('a) div 8 = length bs" using assms by (metis div_mult_self_is_m zero_less_numeral)
  ultimately show ?thesis by (simp add: to_be_bytes_def be_of_nat_nat_of_be)
qed

lemma to_be_bytes_inject:
  assumes "8 dvd LENGTH('a::len)"
  shows "to_be_bytes (v :: 'a word) = to_be_bytes w \<longleftrightarrow> v = w"
  using assms by (metis from_to_be_bytes)

lemma unat_ucast_fits:
  "unat (w :: 'a::len word) < 2 ^ LENGTH('b::len) \<Longrightarrow> unat (ucast w :: 'b word) = unat w"
  by (simp add: unsigned_ucast_eq take_bit_nat_eq_self)

lemma unat_ucast_up [simp]:
  "LENGTH('a::len) \<le> LENGTH('b::len) \<Longrightarrow> unat (ucast (w :: 'a word) :: 'b word) = unat w"
  using unsigned_less [of w, where ?'a = nat]
  by (intro unat_ucast_fits) (meson less_le_trans one_le_numeral power_increasing)

lemma ucast_ucast_up:
  "LENGTH('a::len) \<le> LENGTH('b::len) \<Longrightarrow> ucast (ucast (w :: 'a word) :: 'b word) = w"
  using unsigned_less [of w, where ?'a = nat]
  by (intro unsigned_word_eqI [where ?'a = nat]) (simp add: unat_ucast_fits)

lemma ucast_ucast_fits:
  "unat (w :: 'a::len word) < 2 ^ LENGTH('b::len) \<Longrightarrow> ucast (ucast w :: 'b word) = w"
  using unsigned_less [of w, where ?'a = nat]
  by (intro unsigned_word_eqI [where ?'a = nat]) (simp add: unat_ucast_fits)

lemma bit_less_mask:
  assumes "(w :: 'a::len word) < 2 ^ k" and "bit w n"
  shows "n < k"
proof -
  have "w AND mask k = w" using assms(1) by (rule less_mask_eq)
  then show ?thesis using assms(2) by (metis bit_and_iff bit_mask_iff)
qed

lemma of_nat_u64_inject:
  assumes "(of_nat a :: u64) = of_nat b" and "a < 2 ^ 64" and "b < 2 ^ 64"
  shows "a = b"
  using assms by (simp add: word_of_nat_eq_iff take_bit_nat_eq_self)

section \<open>Lemmas: strings\<close>

lemma char_of_byte_of_char [simp]: "char_of_byte (byte_of_char c) = c"
proof -
  have "(of_char c :: nat) < 256" by simp
  then show ?thesis by (simp add: char_of_byte_def byte_of_char_def unat_of_nat_byte)
qed

lemma byte_of_char_of_byte [simp]: "byte_of_char (char_of_byte b) = b"
  by (simp add: char_of_byte_def byte_of_char_def)

lemma bytes_str_bytes [simp]: "bytes_str (str_bytes s) = s"
  by (simp add: bytes_str_def str_bytes_def comp_def)

lemma str_bytes_str [simp]: "str_bytes (bytes_str bs) = bs"
  by (simp add: bytes_str_def str_bytes_def comp_def)

lemma str_bytes_inject [simp]: "str_bytes s = str_bytes t \<longleftrightarrow> s = t"
  by (metis bytes_str_bytes)

lemma length_str_bytes [simp]: "length (str_bytes s) = length s"
  by (simp add: str_bytes_def)

lemma utf8_valid_ascii: "(\<And>b. b \<in> set bs \<Longrightarrow> b < 0x80) \<Longrightarrow> utf8_valid bs"
  by (induction bs) auto

lemma concat_utf8_chars: "concat (utf8_chars s) = s"
  by (induction s rule: utf8_chars.induct) auto

lemma utf8_chars_ascii: "(\<And>c. c \<in> set s \<Longrightarrow> byte_of_char c < 0x80) \<Longrightarrow> utf8_chars s = map (\<lambda>c. [c]) s"
  by (induction s) (auto simp: utf8_width_def)

lemma digit_char:
  fixes n :: nat
  assumes "n < 10"
  shows "CHR ''0'' \<le> (char_of (48 + n) :: char)" and "(char_of (48 + n) :: char) \<le> CHR ''9''"
    and "of_char (char_of (48 + n) :: char) = (48 + n :: nat)"
proof -
  have "n \<in> {0, 1, 2, 3, 4, 5, 6, 7, 8, 9}" using assms by auto
  then show "CHR ''0'' \<le> (char_of (48 + n) :: char)" and "(char_of (48 + n) :: char) \<le> CHR ''9''"
    and "of_char (char_of (48 + n) :: char) = (48 + n :: nat)"
    by (auto simp: less_eq_char_def)
qed

lemma dec_digits_append: "dec_digits a (xs @ ys) = Option.bind (dec_digits a xs) (\<lambda>b. dec_digits b ys)"
  by (induction xs arbitrary: a) auto

lemma dec_digits_display: "dec_digits 0 (display_nat n) = Some n"
proof (induction n rule: display_nat.induct)
  case (1 n)
  show ?case
  proof (cases "n < 10")
    case True
    with digit_char [OF this] show ?thesis by (simp add: display_nat.simps [of n])
  next
    case False
    moreover have "n mod 10 < 10" by simp
    ultimately show ?thesis
      using 1 digit_char [of "n mod 10"] by (simp add: display_nat.simps [of n] dec_digits_append)
  qed
qed

lemma set_display_nat: "c \<in> set (display_nat n) \<Longrightarrow> CHR ''0'' \<le> c \<and> c \<le> CHR ''9''"
proof (induction n rule: display_nat.induct)
  case (1 n)
  have "n mod 10 < 10" by simp
  with 1 digit_char [of n] digit_char [of "n mod 10"] show ?case
    by (auto simp: display_nat.simps [of n] split: if_splits)
qed

lemma display_nat_nonempty [simp]: "display_nat n \<noteq> []"
  by (simp add: display_nat.simps [of n])

lemma parse_display: "n < limit \<Longrightarrow> parse_unsigned limit (display_nat n) = Some n"
proof -
  assume n: "n < limit"
  obtain c cs where d: "display_nat n = c # cs" by (cases "display_nat n") auto
  then have "c \<noteq> CHR ''+''" using set_display_nat [of c n] by (auto simp: less_eq_char_def)
  with n d dec_digits_display [of n] show ?thesis by (simp add: parse_unsigned_def)
qed

lemma split_on_sep: "sep \<notin> set a \<Longrightarrow> split_on sep (a @ sep # b) = a # split_on sep b"
  by (induction a) auto

lemma split_on_last: "sep \<notin> set a \<Longrightarrow> split_on sep a = [a]"
  by (induction a) auto

section \<open>Lemmas: slices and positions\<close>

lemma slice_same [simp]: "slice a a xs = []"
  by (simp add: slice_def)

lemma length_slice: "a \<le> b \<Longrightarrow> b \<le> length xs \<Longrightarrow> length (slice a b xs) = b - a"
  by (simp add: slice_def)

lemma slice_append: "a \<le> b \<Longrightarrow> b \<le> c \<Longrightarrow> slice a b xs @ slice b c xs = slice a c xs"
proof -
  assume "a \<le> b" "b \<le> c"
  then have "take (c - a) (drop a xs) = take ((b - a) + (c - b)) (drop a xs)" by simp
  also have "\<dots> = take (b - a) (drop a xs) @ take (c - b) (drop (b - a) (drop a xs))"
    by (rule take_add)
  finally show ?thesis using \<open>a \<le> b\<close> by (simp add: slice_def)
qed

lemma slice_full: "slice 0 (length xs) xs = xs"
  by (simp add: slice_def)

lemma slice_drop: "slice a (a + n) xs = take n (drop a xs)"
  by (simp add: slice_def)

lemma position_Some_iff:
  "position p xs = Some i \<longleftrightarrow> i < length xs \<and> p (xs ! i) \<and> (\<forall>j < i. \<not> p (xs ! j))"
proof (induction xs arbitrary: i)
  case (Cons x xs)
  show ?case
  proof (cases i)
    case 0
    then show ?thesis by auto
  next
    case (Suc k)
    have "(\<forall>j < Suc k. \<not> p ((x # xs) ! j)) \<longleftrightarrow> \<not> p x \<and> (\<forall>j < k. \<not> p (xs ! j))"
      by (auto simp: less_Suc_eq_0_disj)
    with Suc Cons.IH [of k] show ?thesis by auto
  qed
qed simp

lemma position_None_iff: "position p xs = None \<longleftrightarrow> (\<forall>x \<in> set xs. \<not> p x)"
  by (induction xs) auto

section \<open>Lemmas: lists\<close>

lemma map_sort_key: "map h (sort_key (\<lambda>x. g (h x)) xs) = sort_key g (map h xs)"
proof -
  have "map h (insort_key (\<lambda>x. g (h x)) x ys) = insort_key g (h x) (map h ys)" for x ys
    by (induction ys) auto
  then show ?thesis by (induction xs) auto
qed

lemma foldr_max_le: "foldr max xs 0 \<le> (n :: nat) \<longleftrightarrow> (\<forall>x \<in> set xs. x \<le> n)"
  by (induction xs) auto

lemma length_concat_ge: "(\<And>b. b \<in> set bss \<Longrightarrow> b \<noteq> []) \<Longrightarrow> length bss \<le> length (concat bss)"
proof (induction bss)
  case (Cons b bss)
  then have "Suc 0 \<le> length b" and "length bss \<le> length (concat bss)" by (auto simp: Suc_le_eq)
  from add_mono [OF this] show ?case by simp
qed simp

lemma map_inject_iff:
  "(\<And>x y. g x = g y \<longleftrightarrow> x = y) \<Longrightarrow> map g xs = map g ys \<longleftrightarrow> xs = ys"
  by (metis inj_def inj_map_eq_map)

lemma sum_list_le2: "list_all2 (\<lambda>x y. f x \<le> g y) xs ys \<Longrightarrow> sum_list (map f xs) \<le> (sum_list (map g ys) :: nat)"
  by (induction rule: list_all2_induct) auto

section \<open>Interface: a closed string vocabulary\<close>

text \<open>
  Every closed enum of the program that crosses a boundary has \<open>as_str\<close> and \<open>parse\<close>.
  What the callers rely on: parsing inverts printing, and nothing else parses.
\<close>

locale vocabulary =
  fixes as_str :: "'a \<Rightarrow> string"
    and parse :: "string \<Rightarrow> 'a option"
  assumes parse_as_str: "parse (as_str x) = Some x"
    and parse_sound: "parse s = Some x \<Longrightarrow> s = as_str x"
begin

lemma parse_iff: "parse s = Some x \<longleftrightarrow> s = as_str x"
  using parse_as_str parse_sound by auto

lemma as_str_inject: "as_str x = as_str y \<longleftrightarrow> x = y"
  by (metis parse_as_str option.inject)

lemma parse_None_iff: "parse s = None \<longleftrightarrow> s \<notin> range as_str"
  using parse_as_str parse_sound by (cases "parse s") auto

end

section \<open>Interface: a canonical codec\<close>

text \<open>
  A codec whose decoder accepts nothing but what its encoder writes. \<open>norm\<close> is what a value
  becomes on a round trip (the encoder may sort), and \<open>ok\<close> the values the encoder is given.
\<close>

locale canonical_codec =
  fixes enc :: "'a \<Rightarrow> 'e + bytes"
    and dec :: "bytes \<Rightarrow> 'f + 'a"
    and norm :: "'a \<Rightarrow> 'a"
    and ok :: "'a \<Rightarrow> bool"
  assumes dec_enc: "ok x \<Longrightarrow> enc x = Inr bs \<Longrightarrow> dec bs = Inr (norm x)"
    and enc_dec: "dec bs = Inr x \<Longrightarrow> enc x = Inr bs"
begin

lemma dec_inject: "dec bs = Inr x \<Longrightarrow> dec cs = Inr x \<Longrightarrow> bs = cs"
  by (metis enc_dec Inr_inject)

lemma enc_inject: "ok x \<Longrightarrow> ok y \<Longrightarrow> enc x = Inr bs \<Longrightarrow> enc y = Inr bs \<Longrightarrow> norm x = norm y"
  by (metis dec_enc Inr_inject)

lemma enc_norm: "ok x \<Longrightarrow> enc x = Inr bs \<Longrightarrow> enc (norm x) = Inr bs"
  using dec_enc enc_dec by blast

end

section \<open>Interface: a hash chain\<close>

text \<open>
  Records that are each valid after the link of the one before, at their index. When a link determines
  its record, its index and the link before, up to a named clash, the last link determines the whole
  history.
\<close>

fun chained :: "('d \<Rightarrow> nat \<Rightarrow> 'r \<Rightarrow> bool) \<Rightarrow> ('r \<Rightarrow> 'd) \<Rightarrow> 'd \<Rightarrow> nat \<Rightarrow> 'r list \<Rightarrow> bool" where
  "chained valid link d n [] \<longleftrightarrow> True"
| "chained valid link d n (r # rs) \<longleftrightarrow> valid d n r \<and> chained valid link (link r) (Suc n) rs"

lemma chained_append:
  "chained valid link d n (rs @ ss) \<longleftrightarrow> chained valid link d n rs \<and>
     chained valid link (if rs = [] then d else link (last rs)) (n + length rs) ss"
  by (induction rs arbitrary: d n) auto

lemma chained_snoc:
  "chained valid link d n (rs @ [r]) \<longleftrightarrow> chained valid link d n rs \<and>
     valid (if rs = [] then d else link (last rs)) (n + length rs) r"
  by (induction rs arbitrary: d n) auto

locale hash_chain =
  fixes valid :: "'d \<Rightarrow> nat \<Rightarrow> 'r \<Rightarrow> bool"
    and link :: "'r \<Rightarrow> 'd"
    and same :: "'r \<Rightarrow> 'r \<Rightarrow> bool"
    and clash :: "'r \<Rightarrow> 'r \<Rightarrow> bool"
  assumes link_binds: "valid d m r \<Longrightarrow> valid e n s \<Longrightarrow> link r = link s \<Longrightarrow> same r s \<and> d = e \<and> m = n \<or> clash r s"
begin

lemma history_bound:
  assumes "chained valid link d 0 rs" and "chained valid link d 0 ss" and "rs \<noteq> []" and "ss \<noteq> []"
    and "link (last rs) = link (last ss)"
  shows "list_all2 same rs ss \<or> (\<exists>r \<in> set rs. \<exists>s \<in> set ss. clash r s)"
  using assms
proof (induction rs arbitrary: ss rule: rev_induct)
  case (snoc r rs)
  obtain s ts where ss: "ss = ts @ [s]" using snoc.prems(4) by (metis append_butlast_last_id)
  have v: "valid (if rs = [] then d else link (last rs)) (length rs) r" "chained valid link d 0 rs"
    "valid (if ts = [] then d else link (last ts)) (length ts) s" "chained valid link d 0 ts"
    using snoc.prems(1,2) ss by (simp_all add: chained_snoc)
  have "link r = link s" using snoc.prems(5) ss by simp
  from link_binds [OF v(1,3) this] show ?case
  proof
    assume same: "same r s \<and> (if rs = [] then d else link (last rs)) = (if ts = [] then d else link (last ts)) \<and>
      length rs = length ts"
    show ?thesis
    proof (cases "rs = []")
      case True
      with same ss show ?thesis by simp
    next
      case False
      with same have "ts \<noteq> []" by auto
      with False same snoc.IH [OF v(2,4)] have "list_all2 same rs ts \<or> (\<exists>r \<in> set rs. \<exists>s \<in> set ts. clash r s)"
        by (simp split: if_splits)
      with same ss show ?thesis by (auto simp: list_all2_append)
    qed
  qed (use ss in auto)
qed simp

end

section \<open>Interface: a transition system\<close>

locale transition_system =
  fixes init :: "'s \<Rightarrow> bool"
    and step :: "'s \<Rightarrow> 's \<Rightarrow> bool"
begin

inductive reach :: "'s \<Rightarrow> bool" where
  reach_init: "init s \<Longrightarrow> reach s"
| reach_step: "reach s \<Longrightarrow> step s t \<Longrightarrow> reach t"

lemma reach_invariant:
  assumes "reach s"
    and "\<And>s. init s \<Longrightarrow> I s"
    and "\<And>s t. I s \<Longrightarrow> step s t \<Longrightarrow> I t"
  shows "I s"
  using assms(1) by induction (use assms(2,3) in blast)+

lemma closed_under_rtrancl:
  assumes "step\<^sup>*\<^sup>* s t" and "P s" and "\<And>s t. P s \<Longrightarrow> step s t \<Longrightarrow> P t"
  shows "P t"
  using assms(1,2) by induction (use assms(3) in blast)+

lemma reach_iff: "reach t \<longleftrightarrow> (\<exists>s. init s \<and> step\<^sup>*\<^sup>* s t)"
proof
  assume "reach t"
  then show "\<exists>s. init s \<and> step\<^sup>*\<^sup>* s t"
    by induction (blast intro: rtranclp.rtrancl_into_rtrancl)+
next
  assume "\<exists>s. init s \<and> step\<^sup>*\<^sup>* s t"
  then obtain s where "init s" and "step\<^sup>*\<^sup>* s t" by blast
  from this(2,1) show "reach t"
    by induction (auto intro: reach.intros)
qed

end

end
