(* ===== verification/Sha256.thy ===== *)
theory Sha256
  imports Prelude
begin

unbundle bit_operations_syntax

text \<open>
  \<open>crates/arkforge-core/src/digest/sha256.rs\<close>: the vendored streaming SHA-256 and the hex
  spelling of digests. A \<open>Sha256Digest([u8; 32])\<close> is a 256-bit word, its bytes the big-endian
  ones; the derived order on the array is the order of the word. \<open>sha256_spec\<close> is FIPS 180-4:
  pad, cut into blocks, fold the compression function. The main result is that the streaming state
  computes it however the input is cut.
\<close>

section \<open>Constants\<close>

text \<open>The round constants, in the rows of eight that the source has.\<close>

definition K :: "u32 list" where
  "K = concat [
    [0x428a2f98, 0x71374491, 0xb5c0fbcf, 0xe9b5dba5, 0x3956c25b, 0x59f111f1, 0x923f82a4, 0xab1c5ed5],
    [0xd807aa98, 0x12835b01, 0x243185be, 0x550c7dc3, 0x72be5d74, 0x80deb1fe, 0x9bdc06a7, 0xc19bf174],
    [0xe49b69c1, 0xefbe4786, 0x0fc19dc6, 0x240ca1cc, 0x2de92c6f, 0x4a7484aa, 0x5cb0a9dc, 0x76f988da],
    [0x983e5152, 0xa831c66d, 0xb00327c8, 0xbf597fc7, 0xc6e00bf3, 0xd5a79147, 0x06ca6351, 0x14292967],
    [0x27b70a85, 0x2e1b2138, 0x4d2c6dfc, 0x53380d13, 0x650a7354, 0x766a0abb, 0x81c2c92e, 0x92722c85],
    [0xa2bfe8a1, 0xa81a664b, 0xc24b8b70, 0xc76c51a3, 0xd192e819, 0xd6990624, 0xf40e3585, 0x106aa070],
    [0x19a4c116, 0x1e376c08, 0x2748774c, 0x34b0bcb5, 0x391c0cb3, 0x4ed8aa4a, 0x5b9cca4f, 0x682e6ff3],
    [0x748f82ee, 0x78a5636f, 0x84c87814, 0x8cc70208, 0x90befffa, 0xa4506ceb, 0xbef9a3f7, 0xc67178f2]]"

definition IV :: "u32 list" where
  "IV = [0x6a09e667, 0xbb67ae85, 0x3c6ef372, 0xa54ff53a,
    0x510e527f, 0x9b05688c, 0x1f83d9ab, 0x5be0cd19]"

section \<open>Digests and their hex spelling\<close>

type_synonym sha256_digest = "256 word"

definition from_bytes :: "bytes \<Rightarrow> sha256_digest" where
  "from_bytes bs = from_be_bytes bs"

definition as_bytes :: "sha256_digest \<Rightarrow> bytes" where
  "as_bytes d = to_be_bytes d"

datatype digest_parse_error = DigestLength nat | DigestCharacter char

definition hex_nibble :: "u8 \<Rightarrow> char" where
  "hex_nibble v = (if v \<le> 9 then char_of_byte (0x30 + v) else char_of_byte (0x61 + v - 10))"

definition hex_value :: "u8 \<Rightarrow> digest_parse_error + u8" where
  "hex_value b =
     (if 0x30 \<le> b \<and> b \<le> 0x39 then Inr (b - 0x30)
      else if 0x61 \<le> b \<and> b \<le> 0x66 then Inr (b - 0x61 + 10)
      else Inl (DigestCharacter (char_of_byte b)))"

fun hex_bytes :: "bytes \<Rightarrow> string" where
  "hex_bytes [] = []"
| "hex_bytes (b # bs) = hex_nibble (drop_bit 4 b) # hex_nibble (b AND 0x0f) # hex_bytes bs"

definition to_hex :: "sha256_digest \<Rightarrow> string" where
  "to_hex d = hex_bytes (as_bytes d)"

fun unhex_bytes :: "bytes \<Rightarrow> digest_parse_error + bytes" where
  "unhex_bytes (h # l # cs) =
     rbind (hex_value h) (\<lambda>high. rbind (hex_value l) (\<lambda>low.
       rbind (unhex_bytes cs) (\<lambda>out. Inr ((push_bit 4 high OR low) # out))))"
| "unhex_bytes _ = Inr []"

definition parse_hex :: "string \<Rightarrow> digest_parse_error + sha256_digest" where
  "parse_hex text =
     (let bs = str_bytes text in
      if length bs \<noteq> 64 then Inl (DigestLength (length bs))
      else rbind (unhex_bytes bs) (\<lambda>out. Inr (from_bytes out)))"

section \<open>The compression function\<close>

definition rotate_right :: "nat \<Rightarrow> u32 \<Rightarrow> u32" where
  "rotate_right n x = drop_bit n x OR push_bit (32 - n) x"

definition load_words :: "bytes \<Rightarrow> u32 list" where
  "load_words block = map (\<lambda>i. from_be_bytes (slice (4 * i) (4 * i + 4) block)) [0..<16]"

definition schedule_step :: "u32 list \<Rightarrow> nat \<Rightarrow> u32 list" where
  "schedule_step w i =
     (let s0 = rotate_right 7 (w ! (i - 15)) XOR rotate_right 18 (w ! (i - 15))
               XOR drop_bit 3 (w ! (i - 15));
          s1 = rotate_right 17 (w ! (i - 2)) XOR rotate_right 19 (w ! (i - 2))
               XOR drop_bit 10 (w ! (i - 2))
      in w[i := w ! (i - 16) + s0 + w ! (i - 7) + s1])"

type_synonym working = "u32 \<times> u32 \<times> u32 \<times> u32 \<times> u32 \<times> u32 \<times> u32 \<times> u32"

fun sha_round :: "u32 list \<Rightarrow> working \<Rightarrow> nat \<Rightarrow> working" where
  "sha_round w (a, b, c, d, e, f, g, h) i =
     (let s1 = rotate_right 6 e XOR rotate_right 11 e XOR rotate_right 25 e;
          ch = (e AND f) XOR (NOT e AND g);
          temp1 = h + s1 + ch + K ! i + w ! i;
          s0 = rotate_right 2 a XOR rotate_right 13 a XOR rotate_right 22 a;
          maj = (a AND b) XOR (a AND c) XOR (b AND c);
          temp2 = s0 + maj
      in (temp1 + temp2, a, b, c, d + temp1, e, f, g))"

definition compress :: "u32 list \<Rightarrow> bytes \<Rightarrow> u32 list" where
  "compress st block =
     (let w = foldl schedule_step (load_words block @ replicate 48 0) [16..<64];
          (a, b, c, d, e, f, g, h) =
            foldl (sha_round w)
              (st ! 0, st ! 1, st ! 2, st ! 3, st ! 4, st ! 5, st ! 6, st ! 7) [0..<64]
      in [st ! 0 + a, st ! 1 + b, st ! 2 + c, st ! 3 + d,
          st ! 4 + e, st ! 5 + f, st ! 6 + g, st ! 7 + h])"

section \<open>The streaming state\<close>

record sha256_state =
  sha_words :: "u32 list"
  sha_buffer :: bytes
  sha_buffered :: nat
  sha_length_bits :: u64

definition sha256_new :: sha256_state where
  "sha256_new = \<lparr>sha_words = IV, sha_buffer = replicate 64 0, sha_buffered = 0, sha_length_bits = 0\<rparr>"

text \<open>\<open>ys[i..i + xs.len()].copy_from_slice(xs)\<close>\<close>

definition copy_into :: "nat \<Rightarrow> 'a list \<Rightarrow> 'a list \<Rightarrow> 'a list" where
  "copy_into i xs ys = take i ys @ xs @ drop (i + length xs) ys"

text \<open>A full buffer is compressed and emptied.\<close>

definition flush_full :: "sha256_state \<Rightarrow> sha256_state" where
  "flush_full s =
     (if sha_buffered s = 64
      then s\<lparr>sha_words := compress (sha_words s) (sha_buffer s), sha_buffered := 0\<rparr> else s)"

function absorb_blocks :: "sha256_state \<Rightarrow> bytes \<Rightarrow> sha256_state \<times> bytes" where
  "absorb_blocks s data =
     (if 64 \<le> length data
      then absorb_blocks (s\<lparr>sha_words := compress (sha_words s) (take 64 data)\<rparr>) (drop 64 data)
      else (s, data))"
  by pat_completeness auto
termination by (relation "measure (\<lambda>(s, data). length data)") auto

definition top_up :: "sha256_state \<Rightarrow> bytes \<Rightarrow> sha256_state \<times> bytes" where
  "top_up s data =
     (if 0 < sha_buffered s then
        let want = 64 - sha_buffered s;
            tk = min want (length data)
        in (flush_full (s\<lparr>sha_buffer := copy_into (sha_buffered s) (take tk data) (sha_buffer s),
                          sha_buffered := sha_buffered s + tk\<rparr>),
            drop tk data)
      else (s, data))"

definition sha256_update :: "sha256_state \<Rightarrow> bytes \<Rightarrow> sha256_state" where
  "sha256_update s data =
     (let s1 = s\<lparr>sha_length_bits := sha_length_bits s + of_nat (length data) * 8\<rparr>;
          (s2, data2) = top_up s1 data;
          (s3, data3) = absorb_blocks s2 data2
      in if data3 \<noteq> [] then s3\<lparr>sha_buffer := copy_into 0 data3 (sha_buffer s3),
                                sha_buffered := length data3\<rparr>
         else s3)"

text \<open>
  The padding loop of \<open>finalize\<close>. Every reachable state has \<open>buffered < 64\<close>
  (\<open>sha_repr_buffered\<close> below), so the second conjunct of the guard is always true there.
\<close>

function feed_tail :: "bytes \<Rightarrow> nat \<Rightarrow> nat \<Rightarrow> sha256_state \<Rightarrow> sha256_state" where
  "feed_tail tail total_len consumed s =
     (if consumed < total_len \<and> sha_buffered s < 64 then
        let want = 64 - sha_buffered s;
            tk = min want (total_len - consumed)
        in feed_tail tail total_len (consumed + tk)
             (flush_full (s\<lparr>sha_buffer := copy_into (sha_buffered s)
                              (slice consumed (consumed + tk) tail) (sha_buffer s),
                            sha_buffered := sha_buffered s + tk\<rparr>))
      else s)"
  by pat_completeness auto
termination by (relation "measure (\<lambda>(tail, total_len, consumed, s). total_len - consumed)") auto

definition sha256_finalize :: "sha256_state \<Rightarrow> sha256_digest" where
  "sha256_finalize s =
     (let pad_len = (if sha_buffered s < 56 then 56 - sha_buffered s else 120 - sha_buffered s);
          tail = copy_into pad_len (to_be_bytes (sha_length_bits s)) (0x80 # replicate 71 0);
          total_len = pad_len + 8;
          s' = feed_tail tail total_len 0 s
      in from_bytes (concat (map to_be_bytes (sha_words s'))))"

definition sha256 :: "bytes \<Rightarrow> sha256_digest" where
  "sha256 data = sha256_finalize (sha256_update sha256_new data)"

section \<open>FIPS 180-4\<close>

function blocks :: "bytes \<Rightarrow> bytes list" where
  "blocks bs = (if 64 \<le> length bs then take 64 bs # blocks (drop 64 bs) else [])"
  by pat_completeness auto
termination by (relation "measure length") auto

declare blocks.simps [simp del] absorb_blocks.simps [simp del] feed_tail.simps [simp del]

definition sha256_pad :: "bytes \<Rightarrow> bytes" where
  "sha256_pad msg =
     msg @ [0x80] @ replicate ((119 - length msg mod 64) mod 64) 0
       @ to_be_bytes (of_nat (8 * length msg) :: u64)"

definition absorb :: "bytes \<Rightarrow> u32 list" where
  "absorb bs = foldl compress IV (blocks bs)"

definition sha256_spec :: "bytes \<Rightarrow> sha256_digest" where
  "sha256_spec msg = from_bytes (concat (map to_be_bytes (absorb (sha256_pad msg))))"

section \<open>Lemmas: blocks and buffers\<close>

lemma blocks_short: "length bs < 64 \<Longrightarrow> blocks bs = []"
  by (simp add: blocks.simps [of bs])

lemma blocks_Cons: "length b = 64 \<Longrightarrow> blocks (b @ bs) = b # blocks bs"
  by (simp add: blocks.simps [of "b @ bs"])

lemma blocks_append: "64 dvd length xs \<Longrightarrow> blocks (xs @ ys) = blocks xs @ blocks ys"
proof (induction xs rule: blocks.induct)
  case (1 xs)
  show ?case
  proof (cases "64 \<le> length xs")
    case True
    with "1.prems" have "64 dvd length (drop 64 xs)" by simp
    with True have "blocks (drop 64 xs @ ys) = blocks (drop 64 xs) @ blocks ys" by (rule "1.IH")
    with True show ?thesis by (simp add: blocks.simps [of xs] blocks.simps [of "xs @ ys"])
  next
    case False
    with "1.prems" have "xs = []" by (auto dest: dvd_imp_le)
    then show ?thesis by (simp add: blocks_short)
  qed
qed

lemma absorb_append_block:
  "64 dvd length xs \<Longrightarrow> length b = 64 \<Longrightarrow> absorb (xs @ b) = compress (absorb xs) b"
  using blocks_Cons [of b "[]"] by (simp add: absorb_def blocks_append blocks_short)

lemma absorb_append_short: "64 dvd length xs \<Longrightarrow> length ys < 64 \<Longrightarrow> absorb (xs @ ys) = absorb xs"
  by (simp add: absorb_def blocks_append blocks_short)

lemma length_copy_into [simp]: "i + length xs \<le> length ys \<Longrightarrow> length (copy_into i xs ys) = length ys"
  by (simp add: copy_into_def)

lemma take_copy_into: "i \<le> length ys \<Longrightarrow> take (i + length xs) (copy_into i xs ys) = take i ys @ xs"
  by (simp add: copy_into_def)

text \<open>
  The representation invariant: \<open>full\<close> is what has been compressed, \<open>left\<close> what waits in
  the buffer.
\<close>

definition sha_holds :: "sha256_state \<Rightarrow> bytes \<Rightarrow> bytes \<Rightarrow> bool" where
  "sha_holds s full left \<longleftrightarrow>
     64 dvd length full \<and> sha_words s = absorb full \<and> length (sha_buffer s) = 64 \<and>
     sha_buffered s = length left \<and> length left < 64 \<and> take (length left) (sha_buffer s) = left"

definition sha_repr :: "sha256_state \<Rightarrow> bytes \<Rightarrow> bool" where
  "sha_repr s msg \<longleftrightarrow>
     (\<exists>full left. msg = full @ left \<and> sha_holds s full left) \<and>
     sha_length_bits s = of_nat (8 * length msg)"

lemma sha_repr_buffered: "sha_repr s msg \<Longrightarrow> sha_buffered s < 64"
  by (auto simp: sha_repr_def sha_holds_def)

text \<open>Filling the buffer with \<open>t\<close> and compressing it when it is full.\<close>

lemma sha_holds_fill:
  assumes "sha_holds s full left" and "length left + length t \<le> 64"
    and "s' = flush_full (s\<lparr>sha_buffer := copy_into (sha_buffered s) t (sha_buffer s),
                             sha_buffered := sha_buffered s + length t\<rparr>)"
  shows "if length left + length t = 64 then sha_holds s' (full @ left @ t) []
         else sha_holds s' full (left @ t)"
    and "sha_length_bits s' = sha_length_bits s"
proof -
  let ?buf = "copy_into (length left) t (sha_buffer s)"
  from assms(1,2) have len: "length ?buf = 64"
    and tk: "take (length left + length t) ?buf = left @ t"
    by (auto simp: sha_holds_def take_copy_into)
  show "if length left + length t = 64 then sha_holds s' (full @ left @ t) []
        else sha_holds s' full (left @ t)"
  proof (cases "length left + length t = 64")
    case True
    with tk len have "?buf = left @ t" by simp
    with True assms(1) len show ?thesis
      by (simp add: assms(3) sha_holds_def flush_full_def absorb_append_block)
  next
    case False
    with assms(1,2) len tk show ?thesis
      by (simp add: assms(3) sha_holds_def flush_full_def)
  qed
  show "sha_length_bits s' = sha_length_bits s"
    by (simp add: assms(3) flush_full_def)
qed

lemma sha_holds_top_up:
  assumes "sha_holds s full left" and "top_up s data = (s', data')"
  shows "\<exists>t. data = t @ data' \<and> sha_length_bits s' = sha_length_bits s \<and>
    (sha_holds s' (full @ left @ t) [] \<or> sha_holds s' full (left @ t) \<and> data' = [])"
proof (cases "0 < sha_buffered s")
  case False
  with assms show ?thesis by (auto simp: top_up_def sha_holds_def)
next
  case True
  define tk where "tk = min (64 - sha_buffered s) (length data)"
  let ?t = "take tk data"
  from assms(1) have b: "sha_buffered s = length left" "length left < 64"
    by (auto simp: sha_holds_def)
  then have tl: "length ?t = tk" "length left + length ?t \<le> 64" by (auto simp: tk_def)
  have eq: "data' = drop tk data" "s' = flush_full
      (s\<lparr>sha_buffer := copy_into (sha_buffered s) ?t (sha_buffer s),
         sha_buffered := sha_buffered s + length ?t\<rparr>)"
    using assms(2) True tl by (auto simp: top_up_def Let_def tk_def)
  note fill = sha_holds_fill [OF assms(1) tl(2) eq(2)]
  show ?thesis
  proof (intro exI [of _ ?t] conjI)
    show "data = ?t @ data'" by (simp add: eq(1))
    show "sha_length_bits s' = sha_length_bits s" by (rule fill(2))
    show "sha_holds s' (full @ left @ ?t) [] \<or> sha_holds s' full (left @ ?t) \<and> data' = []"
    proof (cases "length left + length ?t = 64")
      case True
      with fill(1) show ?thesis by simp
    next
      case False
      with b tl have "data' = []" by (auto simp: eq(1) tk_def)
      with False fill(1) show ?thesis by simp
    qed
  qed
qed

lemma sha_holds_absorb_blocks:
  "sha_holds s full [] \<Longrightarrow> absorb_blocks s data = (s', data') \<Longrightarrow>
    \<exists>mid. data = mid @ data' \<and> length data' < 64 \<and> sha_holds s' (full @ mid) [] \<and>
      sha_length_bits s' = sha_length_bits s"
proof (induction s data arbitrary: full rule: absorb_blocks.induct)
  case (1 s data)
  show ?case
  proof (cases "64 \<le> length data")
    case False
    with "1.prems" show ?thesis by (auto simp: absorb_blocks.simps [of s data])
  next
    case True
    let ?s = "s\<lparr>sha_words := compress (sha_words s) (take 64 data)\<rparr>"
    have "sha_holds ?s (full @ take 64 data) []"
      using "1.prems"(1) True by (simp add: sha_holds_def absorb_append_block)
    moreover have "absorb_blocks ?s (drop 64 data) = (s', data')"
      using "1.prems"(2) True by (simp add: absorb_blocks.simps [of s data])
    ultimately obtain mid where mid: "drop 64 data = mid @ data'" "length data' < 64"
      "sha_holds s' ((full @ take 64 data) @ mid) []" "sha_length_bits s' = sha_length_bits ?s"
      using "1.IH" [OF True] by blast
    have "data = (take 64 data @ mid) @ data'"
      using append_take_drop_id [of 64 data] by (simp only: mid(1) append_assoc)
    with mid(2-4) show ?thesis
      by (intro exI [of _ "take 64 data @ mid"]) simp
  qed
qed

lemma sha_repr_new: "sha_repr sha256_new []"
  by (auto simp: sha_repr_def sha_holds_def sha256_new_def absorb_def blocks_short)

lemma sha_reprI:
  "sha_holds s full left \<Longrightarrow> msg = full @ left \<Longrightarrow>
   sha_length_bits s = of_nat (8 * length msg) \<Longrightarrow> sha_repr s msg"
  unfolding sha_repr_def by blast

lemma sha_repr_update:
  assumes "sha_repr s msg"
  shows "sha_repr (sha256_update s data) (msg @ data)"
proof -
  let ?s1 = "s\<lparr>sha_length_bits := sha_length_bits s + of_nat (length data) * 8\<rparr>"
  from assms obtain full left where msg: "msg = full @ left" and h: "sha_holds s full left"
    and bits: "sha_length_bits s = of_nat (8 * length msg)"
    by (auto simp: sha_repr_def)
  obtain s2 d2 where top: "top_up ?s1 data = (s2, d2)" by (cases "top_up ?s1 data")
  obtain s3 d3 where abs: "absorb_blocks s2 d2 = (s3, d3)" by (cases "absorb_blocks s2 d2")
  from h have "sha_holds ?s1 full left" by (simp add: sha_holds_def)
  from sha_holds_top_up [OF this top] obtain t where t: "data = t @ d2"
    "sha_length_bits s2 = sha_length_bits ?s1"
    "sha_holds s2 (full @ left @ t) [] \<or> sha_holds s2 full (left @ t) \<and> d2 = []" by blast
  have len: "of_nat (8 * length (msg @ data)) = sha_length_bits ?s1"
    by (simp add: bits algebra_simps)
  show ?thesis
  proof (cases "sha_holds s2 (full @ left @ t) []")
    case True
    from sha_holds_absorb_blocks [OF True abs] obtain mid where mid: "d2 = mid @ d3"
      "length d3 < 64" "sha_holds s3 ((full @ left @ t) @ mid) []"
      "sha_length_bits s3 = sha_length_bits s2" by blast
    define s4 where "s4 = (if d3 \<noteq> [] then s3\<lparr>sha_buffer := copy_into 0 d3 (sha_buffer s3),
                                  sha_buffered := length d3\<rparr> else s3)"
    have "sha256_update s data = s4"
      using top abs by (simp add: sha256_update_def s4_def Let_def)
    moreover have "sha_holds s4 (full @ left @ t @ mid) d3"
      using mid(2,3) by (auto simp: s4_def sha_holds_def copy_into_def)
    moreover have "msg @ data = (full @ left @ t @ mid) @ d3" by (simp add: msg t(1) mid(1))
    moreover have "sha_length_bits s4 = of_nat (8 * length (msg @ data))"
      by (simp only: len) (simp add: s4_def mid(4) t(2))
    ultimately show ?thesis by (metis sha_reprI)
  next
    case False
    with t(3) have h2: "sha_holds s2 full (left @ t)" and d2: "d2 = []" by auto
    from abs d2 have "s3 = s2" "d3 = []" by (auto simp: absorb_blocks.simps [of s2])
    then have "sha256_update s data = s2"
      using top abs by (simp add: sha256_update_def Let_def)
    moreover have "msg @ data = full @ (left @ t)" by (simp add: msg t(1) d2)
    moreover have "sha_length_bits s2 = of_nat (8 * length (msg @ data))"
      by (simp only: len) (simp add: t(2))
    ultimately show ?thesis using h2 by (metis sha_reprI)
  qed
qed

lemma sha_repr_updates: "sha_repr s msg \<Longrightarrow> sha_repr (foldl sha256_update s cs) (msg @ concat cs)"
  by (induction cs arbitrary: s msg) (auto simp flip: append_assoc dest: sha_repr_update)

lemma feed_tail_words:
  "sha_holds s full left \<Longrightarrow> total_len \<le> length tl_bs \<Longrightarrow> consumed \<le> total_len \<Longrightarrow>
   64 dvd length left + (total_len - consumed) \<Longrightarrow>
   sha_words (feed_tail tl_bs total_len consumed s) = absorb (full @ left @ slice consumed total_len tl_bs)"
proof (induction tl_bs total_len consumed s arbitrary: full left rule: feed_tail.induct)
  case (1 tl_bs n c s)
  have b: "sha_buffered s = length left" "length left < 64" and full: "64 dvd length full"
    using "1.prems"(1) by (auto simp: sha_holds_def)
  show ?case
  proof (cases "c < n")
    case False
    with "1.prems" b have "left = []" and "c = n" by (auto dest: dvd_imp_le)
    with "1.prems"(1) show ?thesis by (simp add: feed_tail.simps [of tl_bs n n s] sha_holds_def)
  next
    case True
    define tk where "tk = min (64 - sha_buffered s) (n - c)"
    let ?t = "slice c (c + tk) tl_bs"
    let ?s = "flush_full (s\<lparr>sha_buffer := copy_into (sha_buffered s) ?t (sha_buffer s),
                             sha_buffered := sha_buffered s + length ?t\<rparr>)"
    have tlen: "length ?t = tk" "c + tk \<le> n" "length left + length ?t \<le> 64"
      using True "1.prems"(2) b by (auto simp: tk_def length_slice)
    have step: "feed_tail tl_bs n c s = feed_tail tl_bs n (c + tk) ?s"
      using True b tlen(1) by (simp add: feed_tail.simps [of tl_bs n c s] Let_def tk_def)
    have IH: "sha_words (feed_tail tl_bs n (c + tk) ?s) = absorb (f @ l @ slice (c + tk) n tl_bs)"
      if "sha_holds ?s f l" "64 dvd length l + (n - (c + tk))" for f l
      using "1.IH" [of "64 - sha_buffered s" tk] True b that tlen "1.prems"(2) by (simp add: tk_def)
    have sl: "slice c n tl_bs = ?t @ slice (c + tk) n tl_bs"
      using tlen(2) by (simp add: slice_append)
    note fill = sha_holds_fill(1) [OF "1.prems"(1) tlen(3) refl]
    show ?thesis
    proof (cases "length left + length ?t = 64")
      case full64: True
      have "length left + (n - c) = 64 + (n - (c + tk))" using full64 tlen by simp
      with "1.prems"(4) have "64 dvd length ([] :: bytes) + (n - (c + tk))"
        by (metis dvd_add_right_iff dvd_refl list.size(3) add_0)
      moreover have "sha_holds ?s (full @ left @ ?t) []" using fill full64 by simp
      ultimately show ?thesis using IH step sl by fastforce
    next
      case False
      then have "length (left @ ?t) + (n - (c + tk)) = length left + (n - c)"
        using tlen by simp
      moreover have "sha_holds ?s full (left @ ?t)" using fill False by simp
      ultimately show ?thesis
        using IH [of full "left @ ?t"] "1.prems"(4) by (simp only: step sl append_assoc)
    qed
  qed
qed

lemma sha256_finalize_repr:
  assumes "sha_repr s msg"
  shows "sha256_finalize s = sha256_spec msg"
proof -
  from assms obtain full left where msg: "msg = full @ left" and h: "sha_holds s full left"
    and bits: "sha_length_bits s = of_nat (8 * length msg)"
    by (auto simp: sha_repr_def)
  have b: "sha_buffered s = length left" "length left < 64" and "64 dvd length full"
    using h by (auto simp: sha_holds_def)
  then have mod: "length msg mod 64 = length left" by (auto simp: msg)
  define pl where "pl = (if length left < 56 then 56 - length left else 120 - length left)"
  define tl_bs where "tl_bs = copy_into pl (to_be_bytes (sha_length_bits s)) (0x80 # replicate 71 0)"
  have pl: "0 < pl" "pl \<le> 64" "64 dvd length left + (pl + 8)" using b(2) by (auto simp: pl_def)
  have ltl: "length tl_bs = 72" using pl(2) by (simp add: tl_bs_def)
  have zeros: "pl - 1 = (119 - length left) mod 64" using b(2) by (auto simp: pl_def mod_if)
  have "slice 0 (pl + 8) tl_bs = take pl (0x80 # replicate 71 0) @ to_be_bytes (sha_length_bits s)"
    using pl(2) by (simp add: slice_def tl_bs_def copy_into_def)
  also have "take pl (0x80 # replicate 71 (0::u8)) = 0x80 # replicate (pl - 1) 0"
    using pl(1,2) by (cases pl) auto
  finally have sl: "full @ left @ slice 0 (pl + 8) tl_bs = sha256_pad msg"
    by (simp only: sha256_pad_def mod zeros [symmetric] bits) (simp add: msg)
  have "sha_words (feed_tail tl_bs (pl + 8) 0 s) = absorb (full @ left @ slice 0 (pl + 8) tl_bs)"
    using h pl ltl by (intro feed_tail_words) auto
  then show ?thesis
    unfolding sha256_finalize_def sha256_spec_def b(1) Let_def
      pl_def [symmetric] tl_bs_def [symmetric] sl by simp
qed

section \<open>Lemmas: hex\<close>

lemma mask4: "(15 :: u8) = mask 4"
  by (simp add: mask_eq_exp_minus_1)

lemma nibble_and: "(h :: u8) < 16 \<Longrightarrow> h AND mask 4 = h"
  by (rule less_mask_eq) simp

lemma nibble_bit: "(h :: u8) < 16 \<Longrightarrow> bit h n \<Longrightarrow> n < 4"
  by (subst (asm) nibble_and [symmetric]) (auto simp: bit_simps)

lemma nibble_ltI: "(h :: u8) AND mask 4 = h \<Longrightarrow> h < 16"
  using and_mask_less' [of 4 h] by simp

lemma nibble_low_lt: "(b :: u8) AND 15 < 16"
  unfolding mask4 using and_mask_less' [of 4 b] by simp

lemma nibble_high_lt: "drop_bit 4 (b :: u8) < 16"
  by (rule nibble_ltI, rule bit_eqI) (auto simp: bit_simps dest: bit_imp_le_length)

lemma nibbles_join: "push_bit 4 (drop_bit 4 b) OR (b AND 15) = (b :: u8)"
  unfolding mask4 by (rule bit_eqI) (auto simp: bit_simps not_less)

lemma nibbles_split:
  assumes "h < 16" and "l < (16 :: u8)"
  shows "drop_bit 4 (push_bit 4 h OR l) = h" and "(push_bit 4 h OR l) AND 15 = l"
  unfolding mask4
  by (rule bit_eqI; use assms in \<open>auto simp: bit_simps dest: nibble_bit\<close>)+

lemma hex_value_nibble: "v < 16 \<Longrightarrow> hex_value (byte_of_char (hex_nibble v)) = Inr v"
  by (auto simp: hex_value_def hex_nibble_def word_le_nat_alt word_less_nat_alt unat_word_ariths)

lemma hex_nibble_value: "hex_value c = Inr v \<Longrightarrow> v < 16 \<and> byte_of_char (hex_nibble v) = c"
  by (simp add: hex_value_def hex_nibble_def split: if_splits) unat_arith+

lemma unhex_hex_bytes: "unhex_bytes (str_bytes (hex_bytes bs)) = Inr bs"
  by (induction bs)
    (simp_all add: str_bytes_def hex_value_nibble nibble_high_lt nibble_low_lt nibbles_join)

lemma hex_unhex_bytes:
  "unhex_bytes cs = Inr out \<Longrightarrow> even (length cs) \<Longrightarrow> str_bytes (hex_bytes out) = cs"
proof (induction cs arbitrary: out rule: unhex_bytes.induct)
  case (1 h l cs)
  then obtain x y zs where v: "hex_value h = Inr x" "hex_value l = Inr y"
    and rest: "unhex_bytes cs = Inr zs" and out: "out = (push_bit 4 x OR y) # zs" by auto
  from v have "x < 16" "y < 16" "byte_of_char (hex_nibble x) = h" "byte_of_char (hex_nibble y) = l"
    by (auto dest: hex_nibble_value)
  moreover have "str_bytes (hex_bytes zs) = cs" using 1 v rest by simp
  ultimately show ?case by (simp only: out hex_bytes.simps nibbles_split str_bytes_def list.map)
qed (auto simp: str_bytes_def)

lemma length_hex_bytes [simp]: "length (hex_bytes bs) = 2 * length bs"
  by (induction bs) auto

lemma length_unhex_bytes: "unhex_bytes cs = Inr out \<Longrightarrow> length out = length cs div 2"
  by (induction cs arbitrary: out rule: unhex_bytes.induct) auto

lemma length_as_bytes [simp]: "length (as_bytes d) = 32"
  by (simp add: as_bytes_def)

lemma from_as_bytes [simp]: "from_bytes (as_bytes d) = d"
  by (simp add: from_bytes_def as_bytes_def from_to_be_bytes)

lemma as_from_bytes: "length bs = 32 \<Longrightarrow> as_bytes (from_bytes bs) = bs"
  by (simp add: from_bytes_def as_bytes_def to_from_be_bytes)

lemma as_bytes_inject [simp]: "as_bytes d = as_bytes e \<longleftrightarrow> d = e"
  by (metis from_as_bytes)

lemma parse_to_hex: "parse_hex (to_hex d) = Inr d"
  by (simp add: parse_hex_def to_hex_def unhex_hex_bytes)

lemma to_parse_hex: "parse_hex t = Inr d \<Longrightarrow> t = to_hex d"
proof -
  assume "parse_hex t = Inr d"
  then obtain out where out: "unhex_bytes (str_bytes t) = Inr out" "d = from_bytes out"
    and len: "length t = 64"
    by (auto simp: parse_hex_def Let_def split: if_splits)
  from out len have "length out = 32" by (auto dest: length_unhex_bytes)
  with out have "str_bytes (to_hex d) = str_bytes (hex_bytes out)"
    by (simp add: to_hex_def as_from_bytes)
  also have "\<dots> = str_bytes t" using out len by (simp add: hex_unhex_bytes)
  finally show ?thesis by simp
qed

section \<open>Interface: an incremental digest\<close>

text \<open>
  What the callers of the hasher rely on: feeding the pieces one after the other hashes their
  concatenation.
\<close>

locale incremental_digest =
  fixes start :: 's
    and feed :: "'s \<Rightarrow> bytes \<Rightarrow> 's"
    and finish :: "'s \<Rightarrow> 'd"
    and hash :: "bytes \<Rightarrow> 'd"
  assumes finish_feeds: "finish (foldl feed start cs) = hash (concat cs)"
begin

lemma finish_one: "finish (feed start a) = hash a"
  using finish_feeds [of "[a]"] by simp

lemma finish_two: "finish (feed (feed start a) b) = hash (a @ b)"
  using finish_feeds [of "[a, b]"] by simp

lemma finish_many: "finish (foldl feed (feed start a) cs) = hash (a @ concat cs)"
  using finish_feeds [of "a # cs"] by simp

lemma chunking_irrelevant:
  "concat cs = concat ds \<Longrightarrow> finish (foldl feed start cs) = finish (foldl feed start ds)"
  by (simp add: finish_feeds)

end

interpretation sha: incremental_digest sha256_new sha256_update sha256_finalize sha256_spec
proof
  fix cs
  have "sha_repr (foldl sha256_update sha256_new cs) ([] @ concat cs)"
    by (rule sha_repr_updates [OF sha_repr_new])
  then show "sha256_finalize (foldl sha256_update sha256_new cs) = sha256_spec (concat cs)"
    using sha256_finalize_repr by simp
qed

lemma sha256_eq_spec: "sha256 data = sha256_spec data"
  by (simp add: sha256_def sha.finish_one)

section \<open>Properties\<close>


text \<open>
  A digest has exactly one spelling: \<open>parse_hex\<close> accepts a string for a digest if and only
  if it is the lowercase hex that \<open>to_hex\<close> prints.
\<close>

theorem parse_hex_unique_spelling: "parse_hex t = Inr d \<longleftrightarrow> t = to_hex d"
  using parse_to_hex to_parse_hex by auto

end
