(* ===== verification/Cbor.thy ===== *)
theory Cbor
  imports Prelude
begin

unbundle bit_operations_syntax

text \<open>
  \<open>crates/arkforge-core/src/digest/cbor.rs\<close>: the deterministic CBOR that every security digest
  is computed over. \<open>encode\<close> is \<open>to_canonical_bytes\<close>; the decoder keeps the source's
  cursor (input and position), its depth argument and its loops. The results: the decoder accepts
  exactly the encoder's output, so a value has one byte string and a byte string one value, and a
  round trip only sorts map entries.
\<close>

section \<open>Values and errors\<close>

datatype cbor =
    CUnsigned u64
  | CNegative i64
  | CBytes bytes
  | CText string
  | CArray "cbor list"
  | CMap "(cbor \<times> cbor) list"
  | CBool bool
  | CNull

datatype cbor_error =
    ModelViolation string
  | NegativeNotNegative i64
  | DuplicateMapKey bytes
  | Truncated
  | NonCanonicalHead
  | UnsupportedMajorType u8
  | UnsupportedSimpleValue u8
  | IndefiniteLength
  | UnsortedMapKeys
  | InvalidUtf8
  | TrailingBytes nat
  | DepthLimit

definition cbor_integer :: "i64 \<Rightarrow> cbor" where
  "cbor_integer v = (if sint v < 0 then CNegative v else CUnsigned v)"

definition cbor_map :: "(string \<times> cbor) list \<Rightarrow> cbor" where
  "cbor_map es = CMap (map (\<lambda>(k, v). (CText k, v)) es)"

section \<open>The encoder\<close>

definition encode_head :: "u8 \<Rightarrow> u64 \<Rightarrow> bytes" where
  "encode_head major argument =
     (let m = push_bit 5 major in
      if argument < 24 then [m OR ucast argument]
      else if argument \<le> 0xff then [m OR 24, ucast argument]
      else if argument \<le> 0xffff then (m OR 25) # to_be_bytes (ucast argument :: u16)
      else if argument \<le> 0xffffffff then (m OR 26) # to_be_bytes (ucast argument :: u32)
      else (m OR 27) # to_be_bytes argument)"

fun first_duplicate :: "bytes list \<Rightarrow> bytes list \<Rightarrow> bytes option" where
  "first_duplicate seen [] = None"
| "first_duplicate seen (k # ks) =
     (if k \<in> set seen then Some k else first_duplicate (k # seen) ks)"

definition encode_entries :: "(bytes \<times> bytes) list \<Rightarrow> cbor_error + bytes" where
  "encode_entries encoded =
     (let srt = sort_key fst encoded in
      case first_duplicate [] (map fst srt) of
        Some k \<Rightarrow> Inl (DuplicateMapKey k)
      | None \<Rightarrow> Inr (encode_head 5 (of_nat (length srt)) @ concat (map (\<lambda>(k, v). k @ v) srt)))"

function encode :: "cbor \<Rightarrow> cbor_error + bytes" where
  "encode (CUnsigned v) = Inr (encode_head 0 v)"
| "encode (CNegative v) =
     (if 0 \<le> sint v then Inl (NegativeNotNegative v)
      else Inr (encode_head 1 (word_of_int (- sint v - 1))))"
| "encode (CBytes bs) = Inr (encode_head 2 (of_nat (length bs)) @ bs)"
| "encode (CText s) = Inr (encode_head 3 (of_nat (length (str_bytes s))) @ str_bytes s)"
| "encode (CArray vs) =
     rbind (try_map encode vs) (\<lambda>bs. Inr (encode_head 4 (of_nat (length vs)) @ concat bs))"
| "encode (CMap es) =
     rbind (try_map (\<lambda>e. rbind (encode (fst e)) (\<lambda>kb. rbind (encode (snd e)) (\<lambda>vb. Inr (kb, vb)))) es)
       encode_entries"
| "encode (CBool b) = Inr [0xe0 OR (if b then 21 else 20)]"
| "encode CNull = Inr [0xf6]"
  by pat_completeness auto

lemma cbor_size_entry:
  assumes "e \<in> set es"
  shows "size (fst e) < size (CMap es)" and "size (snd e) < size (CMap es)"
  using assms by (induction es) (auto simp: less_Suc_eq)

lemma cbor_size_item: "v \<in> set vs \<Longrightarrow> size v < size (CArray vs)"
  by (induction vs) auto

termination encode
  by (relation "measure size") (auto dest: cbor_size_entry cbor_size_item simp del: cbor.size)

section \<open>The decoder\<close>

definition MAX_DEPTH :: nat where
  "MAX_DEPTH = 64"

record cursor =
  cur_input :: bytes
  cur_position :: nat

definition cursor_take :: "cursor \<Rightarrow> nat \<Rightarrow> cbor_error + bytes \<times> cursor" where
  "cursor_take c n_items =
     (if 2 ^ 64 \<le> cur_position c + n_items then Inl Truncated
      else if length (cur_input c) < cur_position c + n_items then Inl Truncated
      else Inr (slice (cur_position c) (cur_position c + n_items) (cur_input c),
                c\<lparr>cur_position := cur_position c + n_items\<rparr>))"

definition read_head :: "cursor \<Rightarrow> cbor_error + (u8 \<times> u64) \<times> cursor" where
  "read_head c =
     rbind (cursor_take c 1) (\<lambda>(raw, c).
       let byte = raw ! 0; major = drop_bit 5 byte; additional = byte AND 0x1f in
       if additional \<le> 23 then Inr ((major, ucast additional), c)
       else if additional = 24 then
         rbind (cursor_take c 1) (\<lambda>(raw, c).
           let value = ucast (raw ! 0) in
           if value < 24 then Inl NonCanonicalHead else Inr ((major, value), c))
       else if additional = 25 then
         rbind (cursor_take c 2) (\<lambda>(raw, c).
           let value = ucast (from_be_bytes raw :: u16) in
           if value \<le> 0xff then Inl NonCanonicalHead else Inr ((major, value), c))
       else if additional = 26 then
         rbind (cursor_take c 4) (\<lambda>(raw, c).
           let value = ucast (from_be_bytes raw :: u32) in
           if value \<le> 0xffff then Inl NonCanonicalHead else Inr ((major, value), c))
       else if additional = 27 then
         rbind (cursor_take c 8) (\<lambda>(raw, c).
           let value = (from_be_bytes raw :: u64) in
           if value \<le> 0xffffffff then Inl NonCanonicalHead else Inr ((major, value), c))
       else if additional = 31 then Inl IndefiniteLength
       else Inl NonCanonicalHead)"

text \<open>
  \<open>read_value\<close> with its two loops: \<open>read_items\<close> runs the array loop \<open>n\<close> more times,
  \<open>read_entries\<close> the map loop with the previous key's bytes.
\<close>

function read_value :: "nat \<Rightarrow> cursor \<Rightarrow> cbor_error + cbor \<times> cursor"
  and read_items :: "nat \<Rightarrow> nat \<Rightarrow> cursor \<Rightarrow> cbor_error + cbor list \<times> cursor"
  and read_entries :: "nat \<Rightarrow> nat \<Rightarrow> bytes option \<Rightarrow> cursor \<Rightarrow> cbor_error + (cbor \<times> cbor) list \<times> cursor"
where
  "read_value depth c =
     (if MAX_DEPTH < depth then Inl DepthLimit
      else rbind (read_head c) (\<lambda>((major, argument), c).
        if major = 0 then Inr (CUnsigned argument, c)
        else if major = 1 then
          (let value = - uint argument - 1 in
           if value < - (2 ^ 63) then Inl (UnsupportedMajorType 1)
           else Inr (CNegative (word_of_int value), c))
        else if major = 2 then
          rbind (cursor_take c (unat argument)) (\<lambda>(raw, c). Inr (CBytes raw, c))
        else if major = 3 then
          rbind (cursor_take c (unat argument)) (\<lambda>(raw, c).
            if utf8_valid raw then Inr (CText (bytes_str raw), c) else Inl InvalidUtf8)
        else if major = 4 then
          rbind (read_items (depth + 1) (unat argument) c) (\<lambda>(vs, c). Inr (CArray vs, c))
        else if major = 5 then
          rbind (read_entries (depth + 1) (unat argument) None c) (\<lambda>(es, c). Inr (CMap es, c))
        else if major = 7 then
          (if argument = 20 then Inr (CBool False, c)
           else if argument = 21 then Inr (CBool True, c)
           else if argument = 22 then Inr (CNull, c)
           else Inl (UnsupportedSimpleValue (ucast argument)))
        else Inl (UnsupportedMajorType major)))"
| "read_items depth 0 c = Inr ([], c)"
| "read_items depth (Suc n) c =
     rbind (read_value depth c) (\<lambda>(v, c).
       rbind (read_items depth n c) (\<lambda>(vs, c). Inr (v # vs, c)))"
| "read_entries depth 0 previous c = Inr ([], c)"
| "read_entries depth (Suc n) previous c =
     rbind (read_value depth c) (\<lambda>(k, c1).
       let key_bytes = slice (cur_position c) (cur_position c1) (cur_input c) in
       if (case previous of None \<Rightarrow> False | Some p \<Rightarrow> key_bytes \<le> p) then Inl UnsortedMapKeys
       else rbind (read_value depth c1) (\<lambda>(v, c2).
         rbind (read_entries depth n (Some key_bytes) c2) (\<lambda>(es, c3). Inr ((k, v) # es, c3))))"
  by pat_completeness auto
termination
  by (relation "measures [\<lambda>x. case x of Inl (d, c) \<Rightarrow> 2 * (Suc MAX_DEPTH - d)
        | Inr (Inl (d, n, c)) \<Rightarrow> 2 * (Suc MAX_DEPTH - d) + 1
        | Inr (Inr (d, n, p, c)) \<Rightarrow> 2 * (Suc MAX_DEPTH - d) + 1,
      \<lambda>x. case x of Inl _ \<Rightarrow> 0 | Inr (Inl (d, n, c)) \<Rightarrow> n | Inr (Inr (d, n, p, c)) \<Rightarrow> n]") auto

declare read_value.simps [simp del]

definition decode_canonical :: "bytes \<Rightarrow> cbor_error + cbor" where
  "decode_canonical input =
     rbind (read_value 0 \<lparr>cur_input = input, cur_position = 0\<rparr>) (\<lambda>(value, c).
       if cur_position c \<noteq> length input then Inl (TrailingBytes (length input - cur_position c))
       else Inr value)"

section \<open>What the codec is measured against\<close>

text \<open>
  \<open>consumes c bs c'\<close>: the cursor moves over exactly \<open>bs\<close>. \<open>canon\<close> puts the
  entries of every map in the order of their encoded keys. \<open>cbor_ok\<close>: text is UTF-8 (the
  invariant of \<open>String\<close>), the nesting fits the decoder's limit, the encoding fits the address
  space.
\<close>

definition consumes :: "cursor \<Rightarrow> bytes \<Rightarrow> cursor \<Rightarrow> bool" where
  "consumes c bs c' \<longleftrightarrow>
     c' = c\<lparr>cur_position := cur_position c + length bs\<rparr> \<and>
     (\<exists>rest. drop (cur_position c) (cur_input c) = bs @ rest)"

definition cursor_wf :: "cursor \<Rightarrow> bool" where
  "cursor_wf c \<longleftrightarrow> cur_position c \<le> length (cur_input c) \<and> length (cur_input c) < 2 ^ 64"

definition encode_pair :: "cbor \<times> cbor \<Rightarrow> cbor_error + bytes \<times> bytes" where
  "encode_pair e = rbind (encode (fst e)) (\<lambda>kb. rbind (encode (snd e)) (\<lambda>vb. Inr (kb, vb)))"

abbreviation flat_pairs :: "(bytes \<times> bytes) list \<Rightarrow> bytes" where
  "flat_pairs ps \<equiv> concat (map (\<lambda>(k, v). k @ v) ps)"

function cbor_depth :: "cbor \<Rightarrow> nat" where
  "cbor_depth (CArray vs) = foldr max (map (\<lambda>v. Suc (cbor_depth v)) vs) 0"
| "cbor_depth (CMap es) =
     foldr max (map (\<lambda>e. Suc (max (cbor_depth (fst e)) (cbor_depth (snd e)))) es) 0"
| "cbor_depth (CUnsigned n) = 0"
| "cbor_depth (CNegative i) = 0"
| "cbor_depth (CBytes bs) = 0"
| "cbor_depth (CText s) = 0"
| "cbor_depth (CBool b) = 0"
| "cbor_depth CNull = 0"
  by pat_completeness auto
termination cbor_depth
  by (relation "measure size") (auto dest: cbor_size_entry cbor_size_item simp del: cbor.size)

function cbor_texts_wf :: "cbor \<Rightarrow> bool" where
  "cbor_texts_wf (CText s) \<longleftrightarrow> string_wf s"
| "cbor_texts_wf (CArray vs) \<longleftrightarrow> list_all cbor_texts_wf vs"
| "cbor_texts_wf (CMap es) \<longleftrightarrow> list_all (\<lambda>e. cbor_texts_wf (fst e) \<and> cbor_texts_wf (snd e)) es"
| "cbor_texts_wf (CUnsigned n) \<longleftrightarrow> True"
| "cbor_texts_wf (CNegative i) \<longleftrightarrow> True"
| "cbor_texts_wf (CBytes bs) \<longleftrightarrow> True"
| "cbor_texts_wf (CBool b) \<longleftrightarrow> True"
| "cbor_texts_wf CNull \<longleftrightarrow> True"
  by pat_completeness auto
termination cbor_texts_wf
  by (relation "measure size") (auto dest: cbor_size_entry cbor_size_item simp del: cbor.size)

function canon :: "cbor \<Rightarrow> cbor" where
  "canon (CArray vs) = CArray (map canon vs)"
| "canon (CMap es) =
     CMap (map (\<lambda>e. (canon (fst e), canon (snd e))) (sort_key (\<lambda>e. projr (encode (fst e))) es))"
| "canon (CUnsigned n) = CUnsigned n"
| "canon (CNegative i) = CNegative i"
| "canon (CBytes bs) = CBytes bs"
| "canon (CText s) = CText s"
| "canon (CBool b) = CBool b"
| "canon CNull = CNull"
  by pat_completeness auto
termination canon
  by (relation "measure size") (auto dest: cbor_size_entry cbor_size_item simp del: cbor.size)

function cbor_bound :: "cbor \<Rightarrow> nat" where
  "cbor_bound (CArray vs) = 9 + sum_list (map cbor_bound vs)"
| "cbor_bound (CMap es) = 9 + sum_list (map (\<lambda>e. cbor_bound (fst e) + cbor_bound (snd e)) es)"
| "cbor_bound (CUnsigned n) = 9"
| "cbor_bound (CNegative i) = 9"
| "cbor_bound (CBytes bs) = 9 + length bs"
| "cbor_bound (CText s) = 9 + length s"
| "cbor_bound (CBool b) = 9"
| "cbor_bound CNull = 9"
  by pat_completeness auto
termination cbor_bound
  by (relation "measure size") (auto dest: cbor_size_entry cbor_size_item simp del: cbor.size)

definition reads_as :: "nat \<Rightarrow> bytes \<Rightarrow> cbor \<Rightarrow> bool" where
  "reads_as d bs v \<longleftrightarrow> (\<forall>c c'. cursor_wf c \<longrightarrow> consumes c bs c' \<longrightarrow> read_value d c = Inr (v, c'))"

definition cbor_ok :: "cbor \<Rightarrow> bool" where
  "cbor_ok v \<longleftrightarrow> cbor_texts_wf v \<and> cbor_depth v \<le> MAX_DEPTH \<and>
     (case encode v of Inl _ \<Rightarrow> True | Inr bs \<Rightarrow> length bs < 2 ^ 64)"

definition encodes_uniquely :: "cbor \<Rightarrow> bool" where
  "encodes_uniquely v \<longleftrightarrow> (\<forall>w a b r s. encode v = Inr a \<longrightarrow> encode w = Inr b \<longrightarrow> a @ r = b @ s \<longrightarrow>
     length (a @ r) < 2 ^ 64 \<longrightarrow> a = b \<and> canon v = canon w)"

text \<open>Every encoding starts with a head that names the constructor and its size.\<close>

fun cbor_major :: "cbor \<Rightarrow> u8" where
  "cbor_major (CUnsigned n) = 0"
| "cbor_major (CNegative i) = 1"
| "cbor_major (CBytes bs) = 2"
| "cbor_major (CText s) = 3"
| "cbor_major (CArray vs) = 4"
| "cbor_major (CMap es) = 5"
| "cbor_major (CBool b) = 7"
| "cbor_major CNull = 7"

fun cbor_argument :: "cbor \<Rightarrow> u64" where
  "cbor_argument (CUnsigned n) = n"
| "cbor_argument (CNegative i) = word_of_int (- sint i - 1)"
| "cbor_argument (CBytes bs) = of_nat (length bs)"
| "cbor_argument (CText s) = of_nat (length s)"
| "cbor_argument (CArray vs) = of_nat (length vs)"
| "cbor_argument (CMap es) = of_nat (length es)"
| "cbor_argument (CBool b) = (if b then 21 else 20)"
| "cbor_argument CNull = 22"

section \<open>Heads\<close>

lemma head_byte:
  assumes "m < 8" and "x < 32"
  shows "drop_bit 5 (push_bit 5 m OR x) = (m :: u8)" and "(push_bit 5 m OR x) AND 31 = (x :: u8)"
proof -
  have m: "bit m n \<Longrightarrow> n < 3" for n
    using bit_less_mask [of m 3] assms(1) by simp
  have x: "bit x n \<Longrightarrow> n < 5" for n
    using bit_less_mask [of x 5] assms(2) by simp
  show "drop_bit 5 (push_bit 5 m OR x) = m"
    by (rule bit_eqI) (auto simp: bit_simps dest: m x)
  have "(push_bit 5 m OR x) AND mask 5 = x"
    by (rule bit_eqI) (auto simp: bit_simps dest: m x)
  then show "(push_bit 5 m OR x) AND 31 = x" by (simp add: mask_eq_decr_exp)
qed

lemma head_byte_split: "push_bit 5 (drop_bit 5 b) OR (b AND 31) = (b :: u8)"
proof -
  have "push_bit 5 (drop_bit 5 b) OR (b AND mask 5) = b"
    by (rule bit_eqI) (auto simp: bit_simps)
  then show ?thesis by (simp add: mask_eq_decr_exp)
qed

lemma drop_bit_5_lt: "drop_bit 5 (b :: u8) < 8"
proof -
  have "unat b div 32 < 8" using unat_byte_lt [of b] by (simp del: unat_byte_lt)
  then show ?thesis by (simp add: word_less_nat_alt unat_drop_bit_eq drop_bit_eq_div unat_div_distrib)
qed

section \<open>The cursor\<close>

lemma consumes_Nil [simp]: "consumes c [] c' \<longleftrightarrow> c' = c"
  by (auto simp: consumes_def)

lemma consumes_trans:
  assumes "consumes c as c'" and "consumes c' bs c''"
  shows "consumes c (as @ bs) c''"
proof -
  from assms obtain r where r: "drop (cur_position c) (cur_input c) = as @ r"
    by (auto simp: consumes_def)
  have "drop (cur_position c + length as) (cur_input c) = drop (length as) (as @ r)"
    by (metis r drop_drop add.commute)
  with assms r show ?thesis by (auto simp: consumes_def add.assoc)
qed

lemma consumes_slice: "consumes c bs c' \<Longrightarrow> slice (cur_position c) (cur_position c') (cur_input c) = bs"
  by (auto simp: consumes_def slice_def)

lemma consumes_fun: "consumes c bs c' \<Longrightarrow> consumes c bs c'' \<Longrightarrow> c' = c''"
  by (simp add: consumes_def)

lemma consumes_input: "consumes c bs c' \<Longrightarrow> cur_input c' = cur_input c"
  by (auto simp: consumes_def)

lemma consumes_position: "consumes c bs c' \<Longrightarrow> cur_position c' = cur_position c + length bs"
  by (auto simp: consumes_def)

lemma cursor_take_sound: "cursor_take c n = Inr (raw, c') \<Longrightarrow> consumes c raw c' \<and> length raw = n"
  by (auto simp: cursor_take_def consumes_def slice_def split: if_splits)
    (metis append_take_drop_id)

lemma consumes_le: "consumes c bs c' \<Longrightarrow> cur_position c \<le> length (cur_input c) \<Longrightarrow> cur_position c' \<le> length (cur_input c)"
proof -
  assume "consumes c bs c'" "cur_position c \<le> length (cur_input c)"
  then obtain r where "drop (cur_position c) (cur_input c) = bs @ r" "cur_position c' = cur_position c + length bs"
    by (auto simp: consumes_def)
  from arg_cong [OF this(1), of length] this(2) \<open>cur_position c \<le> length (cur_input c)\<close>
  show ?thesis by simp
qed

lemma cursor_wf_consumes: "consumes c bs c' \<Longrightarrow> cursor_wf c \<Longrightarrow> cursor_wf c'"
  using consumes_le [of c bs c'] consumes_input [of c bs c'] by (simp add: cursor_wf_def)

lemma cursor_take_complete:
  assumes "consumes c raw c'" and "cursor_wf c"
  shows "cursor_take c (length raw) = Inr (raw, c')"
proof -
  have "cur_position c + length raw \<le> length (cur_input c)"
    using consumes_le [OF assms(1)] consumes_position [OF assms(1)] assms(2) by (simp add: cursor_wf_def)
  moreover have "slice (cur_position c) (cur_position c + length raw) (cur_input c) = raw"
    using consumes_slice [OF assms(1)] consumes_position [OF assms(1)] by simp
  ultimately show ?thesis
    using assms by (auto simp: cursor_take_def cursor_wf_def consumes_def)
qed

lemma be_wide:
  assumes "a = ucast (from_be_bytes raw :: 'a::len word)"
  shows "length raw * 8 = LENGTH('a) \<Longrightarrow> LENGTH('a) \<le> 64 \<Longrightarrow> to_be_bytes (ucast (a :: u64) :: 'a word) = raw"
    and "LENGTH('a) \<le> 64 \<Longrightarrow> unat a < 2 ^ LENGTH('a)"
proof -
  show "to_be_bytes (ucast a :: 'a word) = raw" if "length raw * 8 = LENGTH('a)" "LENGTH('a) \<le> 64"
  proof -
    have "(ucast a :: 'a word) = from_be_bytes raw"
      using that(2) by (simp add: assms ucast_ucast_up)
    with that(1) show ?thesis by (simp add: to_from_be_bytes)
  qed
  show "unat a < 2 ^ LENGTH('a)" if "LENGTH('a) \<le> 64"
    using that unsigned_less [of "from_be_bytes raw :: 'a word", where ?'a = nat] by (simp add: assms)
qed

lemma read_head_sound:
  assumes "read_head c = Inr ((m, a), c')"
  shows "consumes c (encode_head m a) c'"
proof -
  from assms obtain raw c1 where t: "cursor_take c 1 = Inr (raw, c1)"
    by (auto simp: read_head_def)
  from cursor_take_sound [OF t] obtain b where c1: "consumes c [b] c1" and raw: "raw = [b]"
    by (auto simp: length_Suc_conv)
  define x where "x = b AND 31"
  have b: "push_bit 5 (drop_bit 5 b) OR x = b" by (simp add: x_def head_byte_split)
  note r = assms [unfolded read_head_def t raw, simplified, folded x_def]
  consider "x \<le> 23" | "x = 24" | "x = 25" | "x = 26" | "x = 27"
    using r by (auto simp: Let_def split: if_splits)
  then show ?thesis
  proof cases
    case 1
    then have "unat x \<le> 23" by (simp add: word_le_nat_alt)
    moreover have "(ucast x :: u64) < 24" using \<open>unat x \<le> 23\<close>
      by (simp add: word_less_nat_alt)
    ultimately show ?thesis using r 1 c1 b by (auto simp: Let_def encode_head_def ucast_ucast_up)
  next
    case 2
    with r obtain raw2 where t2: "cursor_take c1 1 = Inr (raw2, c')" and m: "m = drop_bit 5 b"
      and a: "a = ucast (raw2 ! 0)" "\<not> a < 24" by (auto simp: Let_def split: if_splits)
    from cursor_take_sound [OF t2] obtain y where y: "raw2 = [y]" "consumes c1 [y] c'"
      by (auto simp: length_Suc_conv)
    have "a \<le> 255" using y(1) a unat_byte_lt [of y] by (simp add: word_le_nat_alt del: unat_byte_lt)
    with consumes_trans [OF c1 y(2)] a y(1) m 2 b show ?thesis
      by (simp add: encode_head_def ucast_ucast_up)
  next
    case 3
    with r obtain raw2 where t2: "cursor_take c1 2 = Inr (raw2, c')" and m: "m = drop_bit 5 b"
      and a: "a = ucast (from_be_bytes raw2 :: u16)" "\<not> a \<le> 255" by (auto simp: Let_def split: if_splits)
    from cursor_take_sound [OF t2] have y: "length raw2 = 2" "consumes c1 raw2 c'" by auto
    note w = be_wide [OF a(1)]
    from w y have "a \<le> 0xffff" "to_be_bytes (ucast a :: u16) = raw2" by (simp_all add: word_le_nat_alt)
    with consumes_trans [OF c1 y(2)] a(2) m 3 b show ?thesis
      by (auto simp: encode_head_def Let_def word_le_nat_alt word_less_nat_alt)
  next
    case 4
    with r obtain raw2 where t2: "cursor_take c1 4 = Inr (raw2, c')" and m: "m = drop_bit 5 b"
      and a: "a = ucast (from_be_bytes raw2 :: u32)" "\<not> a \<le> 0xffff" by (auto simp: Let_def split: if_splits)
    from cursor_take_sound [OF t2] have y: "length raw2 = 4" "consumes c1 raw2 c'" by auto
    note w = be_wide [OF a(1)]
    from w y have "a \<le> 0xffffffff" "to_be_bytes (ucast a :: u32) = raw2" by (simp_all add: word_le_nat_alt)
    with consumes_trans [OF c1 y(2)] a(2) m 4 b show ?thesis
      by (auto simp: encode_head_def Let_def word_le_nat_alt word_less_nat_alt)
  next
    case 5
    with r obtain raw2 where t2: "cursor_take c1 8 = Inr (raw2, c')" and m: "m = drop_bit 5 b"
      and a: "a = from_be_bytes raw2" "\<not> a \<le> 0xffffffff" by (auto simp: Let_def split: if_splits)
    from cursor_take_sound [OF t2] have y: "length raw2 = 8" "consumes c1 raw2 c'" by auto
    from a y have "to_be_bytes a = raw2" by (simp add: to_from_be_bytes)
    with consumes_trans [OF c1 y(2)] a(2) m 5 b show ?thesis
      by (auto simp: encode_head_def Let_def word_le_nat_alt word_less_nat_alt)
  qed
qed

lemma consumes_Cons:
  assumes "consumes c (b # bs) c'"
  obtains c1 where "consumes c [b] c1" and "consumes c1 bs c'"
proof (rule that)
  from assms obtain r where r: "drop (cur_position c) (cur_input c) = b # bs @ r"
    by (auto simp: consumes_def)
  show "consumes c [b] (c\<lparr>cur_position := cur_position c + 1\<rparr>)"
    using r by (simp add: consumes_def)
  have "drop (cur_position c + 1) (cur_input c) = bs @ r"
    using r by (metis Suc_eq_plus1 drop_Suc list.sel(3) tl_drop)
  with assms show "consumes (c\<lparr>cur_position := cur_position c + 1\<rparr>) bs c'"
    by (simp add: consumes_def)
qed

lemma consumes_append:
  assumes "consumes c (as @ bs) c'"
  obtains c1 where "consumes c as c1" and "consumes c1 bs c'"
  using assms
proof (induction as arbitrary: c thesis)
  case (Cons a as)
  from Cons.prems(2) obtain c1 where c1: "consumes c [a] c1" "consumes c1 (as @ bs) c'"
    by (auto elim: consumes_Cons)
  from Cons.IH [OF _ c1(2)] obtain c2 where "consumes c1 as c2" "consumes c2 bs c'" by blast
  with c1(1) Cons.prems(1) consumes_trans [of c "[a]" c1 as c2] show ?case by simp
qed simp

lemma read_head_complete:
  assumes "consumes c (encode_head m a) c'" and wf: "cursor_wf c" and m: "m < 8"
  shows "read_head c = Inr ((m, a), c')"
proof -
  obtain x bs where e: "encode_head m a = (push_bit 5 m OR x) # bs" and x: "x < 32"
    and cs: "x = ucast a \<and> x \<le> 23 \<and> bs = [] \<and> a < 24 \<or>
      x = 24 \<and> bs = [ucast a] \<and> 24 \<le> a \<and> a \<le> 0xff \<or>
      x = 25 \<and> bs = to_be_bytes (ucast a :: u16) \<and> 0xff < a \<and> a \<le> 0xffff \<or>
      x = 26 \<and> bs = to_be_bytes (ucast a :: u32) \<and> 0xffff < a \<and> a \<le> 0xffffffff \<or>
      x = 27 \<and> bs = to_be_bytes a \<and> 0xffffffff < a"
  proof (cases "a < 24")
    case True
    then have "unat (ucast a :: u8) < 24" by (simp add: word_less_nat_alt unat_ucast_fits)
    with True that [of "ucast a" "[]"] show ?thesis
      by (simp add: encode_head_def word_less_nat_alt word_le_nat_alt)
  next
    case False
    show ?thesis
      by (rule that [of "if a \<le> 0xff then 24 else if a \<le> 0xffff then 25 else if a \<le> 0xffffffff then 26 else 27"
            "tl (encode_head m a)"]) (use False in \<open>auto simp: encode_head_def Let_def\<close>)
  qed
  from assms(1) [unfolded e] obtain c1 where c1: "consumes c [push_bit 5 m OR x] c1" and c2: "consumes c1 bs c'"
    by (rule consumes_Cons)
  note t1 = cursor_take_complete [OF c1 wf, simplified]
  note t2 = cursor_take_complete [OF c2 cursor_wf_consumes [OF c1 wf]]
  have a: "a \<le> 0xff \<Longrightarrow> unat a < 2 ^ 8" "a \<le> 0xffff \<Longrightarrow> unat a < 2 ^ 16" "a \<le> 0xffffffff \<Longrightarrow> unat a < 2 ^ 32"
    "a < 24 \<Longrightarrow> unat a < 2 ^ 8"
    by (simp_all add: word_le_nat_alt word_less_nat_alt)
  note hd = head_byte [OF m x]
  from cs show ?thesis
    by (elim disjE conjE; use t1 t2 c2 hd a in \<open>simp add: read_head_def Let_def from_to_be_bytes ucast_ucast_fits\<close>)
qed

section \<open>The decoder accepts only canonical bytes\<close>

lemma encode_map_eq: "encode (CMap es) = rbind (try_map encode_pair es) encode_entries"
  by (simp add: encode_pair_def [abs_def])

lemma encode_pair_Inr: "encode_pair e = Inr p \<longleftrightarrow> encode (fst e) = Inr (fst p) \<and> encode (snd e) = Inr (snd p)"
  by (cases p) (auto simp: encode_pair_def)

lemma first_duplicate_None: "first_duplicate seen ks = None \<longleftrightarrow> distinct ks \<and> set seen \<inter> set ks = {}"
  by (induction ks arbitrary: seen) auto

lemma encode_entries_sorted:
  assumes "sorted_wrt (<) (map fst ps)"
  shows "encode_entries ps = Inr (encode_head 5 (of_nat (length ps)) @ flat_pairs ps)"
proof -
  from assms have "sorted (map fst ps)" and "distinct (map fst ps)"
    by (simp_all add: strict_sorted_iff)
  moreover from this(2) have "first_duplicate [] (map fst ps) = None"
    by (simp add: first_duplicate_None)
  ultimately show ?thesis by (simp add: encode_entries_def sort_key_id_if_sorted)
qed

lemma read_value_deep: "MAX_DEPTH < d \<Longrightarrow> read_value d c = Inl DepthLimit"
  by (subst read_value.simps) simp

lemma read_value_no_head: "read_head c = Inl e \<Longrightarrow> \<exists>e. read_value d c = Inl e"
  by (subst read_value.simps) simp

lemma read_value_at:
  "\<not> MAX_DEPTH < d \<Longrightarrow> read_head c = Inr ((m, a), c1) \<Longrightarrow> read_value d c =
     (if m = 0 then Inr (CUnsigned a, c1)
      else if m = 1 then
        (if - uint a - 1 < - (2 ^ 63) then Inl (UnsupportedMajorType 1)
         else Inr (CNegative (word_of_int (- uint a - 1)), c1))
      else if m = 2 then rbind (cursor_take c1 (unat a)) (\<lambda>(raw, c). Inr (CBytes raw, c))
      else if m = 3 then
        rbind (cursor_take c1 (unat a)) (\<lambda>(raw, c).
          if utf8_valid raw then Inr (CText (bytes_str raw), c) else Inl InvalidUtf8)
      else if m = 4 then rbind (read_items (d + 1) (unat a) c1) (\<lambda>(vs, c). Inr (CArray vs, c))
      else if m = 5 then rbind (read_entries (d + 1) (unat a) None c1) (\<lambda>(es, c). Inr (CMap es, c))
      else if m = 7 then
        (if a = 20 then Inr (CBool False, c1) else if a = 21 then Inr (CBool True, c1)
         else if a = 22 then Inr (CNull, c1) else Inl (UnsupportedSimpleValue (ucast a)))
      else Inl (UnsupportedMajorType m))"
  by (subst read_value.simps) (simp only: Let_def if_False rbind.simps prod.case)

lemma encode_head_simple: "encode_head 7 20 = [0xf4]" "encode_head 7 21 = [0xf5]" "encode_head 7 22 = [0xf6]"
  by (simp_all add: encode_head_def)

lemma read_scalar_sound:
  assumes d: "\<not> MAX_DEPTH < d" and h: "read_head c = Inr ((m, a), c1)" and m: "m \<noteq> 4" "m \<noteq> 5"
    and r: "read_value d c = Inr (v, c')"
  shows "\<exists>bs. encode v = Inr bs \<and> consumes c bs c'"
proof -
  note r = r [unfolded read_value_at [OF d h]] and hs = read_head_sound [OF h]
  consider "m = 0" | "m = 1" | "m = 2" | "m = 3" | "m = 7"
    using r m by (auto split: if_splits)
  then show ?thesis
  proof cases
    case 2
    then have v: "- uint a - 1 \<ge> - (2 ^ 63)" "v = CNegative (word_of_int (- uint a - 1))" "c' = c1"
      using r by (auto split: if_splits)
    have "- uint a < 1" using unsigned_greater_eq [of a, where ?'a = int] by linarith
    then have "sint (word_of_int (- uint a - 1) :: i64) = - uint a - 1"
      using v(1) by (subst sint_sbintrunc', subst signed_take_bit_int_eq_self) simp_all
    with v hs 2 show ?thesis by simp
  next
    case 3
    with r obtain raw where t: "cursor_take c1 (unat a) = Inr (raw, c')" and v: "v = CBytes raw" by auto
    from cursor_take_sound [OF t] consumes_trans [OF hs] v 3 show ?thesis by auto
  next
    case 4
    with r obtain raw where t: "cursor_take c1 (unat a) = Inr (raw, c')" and v: "v = CText (bytes_str raw)"
      by (auto split: if_splits)
    from cursor_take_sound [OF t] consumes_trans [OF hs] v 4 show ?thesis by auto
  qed (use r hs in \<open>auto simp: encode_head_simple split: if_splits\<close>)
qed

lemma consumes_entry:
  assumes "encode k = Inr k1" "consumes c k1 c1" and "encode v = Inr v1" "consumes c1 v1 c2"
    and "try_map encode_pair es = Inr ps" "consumes c2 (flat_pairs ps) c'"
    and "sorted_wrt (<) (k1 # map fst ps)" and "case prev of None \<Rightarrow> True | Some p \<Rightarrow> p < k1"
  shows "\<exists>qs. try_map encode_pair ((k, v) # es) = Inr qs \<and> consumes c (flat_pairs qs) c' \<and>
    sorted_wrt (<) (case prev of None \<Rightarrow> map fst qs | Some p \<Rightarrow> p # map fst qs)"
proof -
  have "consumes c (flat_pairs ((k1, v1) # ps)) c'"
    using consumes_trans [OF assms(2) consumes_trans [OF assms(4,6)]] by simp
  moreover have "try_map encode_pair ((k, v) # es) = Inr ((k1, v1) # ps)"
    using assms(1,3,5) by (simp add: encode_pair_Inr)
  moreover have "sorted_wrt (<) (case prev of None \<Rightarrow> map fst ((k1, v1) # ps) | Some p \<Rightarrow> p # map fst ((k1, v1) # ps))"
    using assms(7,8) by (cases prev) (auto intro: order.strict_trans)
  ultimately show ?thesis by blast
qed

lemma read_sound:
  "read_value d c = Inr (v, c') \<Longrightarrow> \<exists>bs. encode v = Inr bs \<and> consumes c bs c'"
  "read_items d n c = Inr (vs, c') \<Longrightarrow>
     length vs = n \<and> (\<exists>bss. try_map encode vs = Inr bss \<and> consumes c (concat bss) c')"
  "read_entries d n prev c = Inr (es, c') \<Longrightarrow>
     length es = n \<and> (\<exists>ps. try_map encode_pair es = Inr ps \<and> consumes c (flat_pairs ps) c' \<and>
       sorted_wrt (<) (case prev of None \<Rightarrow> map fst ps | Some p \<Rightarrow> p # map fst ps))"
proof (induction d c and d n c and d n prev c arbitrary: v c' and vs c' and es c'
    rule: read_value_read_items_read_entries.induct)
  case (1 d c)
  from "1.prems" have d: "\<not> MAX_DEPTH < d" using read_value_deep by (metis Inl_Inr_False)
  obtain m a c1 where h: "read_head c = Inr ((m, a), c1)"
    using "1.prems" read_value_no_head [of c _ d] by (cases "read_head c") force+
  note r = "1.prems" [unfolded read_value_at [OF d h]] and hs = read_head_sound [OF h]
  consider "m = 4" | "m = 5" | "m \<noteq> 4" "m \<noteq> 5" by blast
  then show ?case
  proof cases
    case 1
    with r obtain vs where t: "read_items (d + 1) (unat a) c1 = Inr (vs, c')" and v: "v = CArray vs"
      by auto
    from "1.IH"(1) [OF d h refl refl _ _ _ _ _ t] 1 consumes_trans [OF hs] v show ?thesis by auto
  next
    case 2
    with r obtain es where t: "read_entries (d + 1) (unat a) None c1 = Inr (es, c')" and v: "v = CMap es"
      by auto
    from "1.IH"(2) [OF d h refl refl _ _ _ _ _ _ t] 2 obtain ps
      where "length es = unat a" "try_map encode_pair es = Inr ps" "consumes c1 (flat_pairs ps) c'"
        "sorted_wrt (<) (map fst ps)" by auto
    with 2 consumes_trans [OF hs] v show ?thesis
      by (auto simp: encode_map_eq encode_entries_sorted try_map_length simp del: encode.simps)
  next
    case 3
    from read_scalar_sound [OF d h 3 "1.prems"] show ?thesis .
  qed
next
  case (2 d c)
  then show ?case by simp
next
  case (3 d n c)
  from "3.prems" obtain v c1 vs' where s: "read_value d c = Inr (v, c1)" "read_items d n c1 = Inr (vs', c')"
    "vs = v # vs'" by auto
  from "3.IH"(1) [OF s(1)] "3.IH"(2) [OF s(1) refl s(2)] s(3) show ?case
    by (auto dest: consumes_trans)
next
  case (4 d p c)
  then show ?case by (auto split: option.splits)
next
  case (5 d n prev c)
  from "5.prems" obtain k c1 v c2 es' where s: "read_value d c = Inr (k, c1)"
    "\<not> (case prev of None \<Rightarrow> False | Some p \<Rightarrow> slice (cur_position c) (cur_position c1) (cur_input c) \<le> p)"
    "read_value d c1 = Inr (v, c2)"
    "read_entries d n (Some (slice (cur_position c) (cur_position c1) (cur_input c))) c2 = Inr (es', c')"
    "es = (k, v) # es'"
    by (auto simp: Let_def split: if_splits)
  from "5.IH"(1) [OF s(1)] obtain k1 where k1: "encode k = Inr k1" "consumes c k1 c1" by blast
  note kb = consumes_slice [OF k1(2)]
  from "5.IH"(2) [OF s(1) refl refl s(2,3)] obtain v1 where v1: "encode v = Inr v1" "consumes c1 v1 c2" by blast
  from "5.IH"(3) [OF s(1) refl refl s(2,3) refl s(4)] obtain ps where ps: "length es' = n"
    "try_map encode_pair es' = Inr ps" "consumes c2 (flat_pairs ps) c'" "sorted_wrt (<) (k1 # map fst ps)"
    by (auto simp: kb)
  have "case prev of None \<Rightarrow> True | Some p \<Rightarrow> p < k1" using s(2) kb by (auto split: option.splits)
  from consumes_entry [OF k1 v1 ps(2-4) this] ps(1) s(5) show ?case by simp
qed

section \<open>The decoder accepts every canonical encoding\<close>

lemma depth_item:
  assumes "d + cbor_depth (CArray vs) \<le> n" and "v \<in> set vs"
  shows "Suc d + cbor_depth v \<le> n"
proof -
  have "Suc (cbor_depth v) \<le> cbor_depth (CArray vs)"
    using foldr_max_le [of "map (\<lambda>v. Suc (cbor_depth v)) vs" "cbor_depth (CArray vs)"] assms(2) by simp
  with assms(1) show ?thesis by simp
qed

lemma depth_entry:
  assumes "d + cbor_depth (CMap es) \<le> n" and "e \<in> set es"
  shows "Suc d + cbor_depth (fst e) \<le> n" and "Suc d + cbor_depth (snd e) \<le> n"
proof -
  have "Suc (max (cbor_depth (fst e)) (cbor_depth (snd e))) \<le> cbor_depth (CMap es)"
    using foldr_max_le [of "map (\<lambda>e. Suc (max (cbor_depth (fst e)) (cbor_depth (snd e)))) es"
        "cbor_depth (CMap es)"] assms(2) by simp
  with assms(1) show "Suc d + cbor_depth (fst e) \<le> n" and "Suc d + cbor_depth (snd e) \<le> n" by simp_all
qed

lemma encode_head_nonempty [simp]: "encode_head m a \<noteq> []"
  by (simp add: encode_head_def Let_def)

lemma encode_nonempty: "encode v = Inr bs \<Longrightarrow> bs \<noteq> []"
  by (cases v) (auto simp: encode_entries_def Let_def split: if_splits option.splits)

lemma consumes_short: "consumes c bs c' \<Longrightarrow> cursor_wf c \<Longrightarrow> length bs < 2 ^ 64"
  by (frule consumes_position, frule (1) cursor_wf_consumes, drule consumes_input) (simp add: cursor_wf_def)

lemma read_items_complete:
  assumes "list_all2 (reads_as d) bss vs" and "cursor_wf c" and "consumes c (concat bss) c'"
  shows "read_items d (length vs) c = Inr (vs, c')"
  using assms
proof (induction bss vs arbitrary: c rule: list_all2_induct)
  case (Cons b bss v vs)
  from Cons.prems(2) obtain c1 where c1: "consumes c b c1" "consumes c1 (concat bss) c'"
    by (auto elim: consumes_append)
  from Cons.IH [OF cursor_wf_consumes [OF c1(1) Cons.prems(1)] c1(2)] Cons.hyps(1) Cons.prems(1) c1(1)
  show ?case by (auto simp: reads_as_def)
qed simp

lemma read_entries_complete:
  assumes "list_all2 (\<lambda>p e. reads_as d (fst p) (fst e) \<and> reads_as d (snd p) (snd e)) ps es"
    and "cursor_wf c" and "consumes c (flat_pairs ps) c'"
    and "sorted_wrt (<) (case prev of None \<Rightarrow> map fst ps | Some p \<Rightarrow> p # map fst ps)"
  shows "read_entries d (length es) prev c = Inr (es, c')"
  using assms
proof (induction ps es arbitrary: c prev rule: list_all2_induct)
  case (Cons p ps e es)
  from Cons.prems(2) obtain c1 c2 where c1: "consumes c (fst p) c1" "consumes c1 (snd p) c2"
    "consumes c2 (flat_pairs ps) c'" by (auto elim!: consumes_append simp: case_prod_unfold)
  note wf1 = cursor_wf_consumes [OF c1(1) Cons.prems(1)]
  note wf2 = cursor_wf_consumes [OF c1(2) wf1]
  have "sorted_wrt (<) (case Some (fst p) of None \<Rightarrow> map fst ps | Some p \<Rightarrow> p # map fst ps)"
    using Cons.prems(3) by (cases prev) auto
  from Cons.IH [OF wf2 c1(3) this] Cons.hyps(1) Cons.prems(1,3) c1 wf1 consumes_slice [OF c1(1)]
  show ?case by (cases e) (auto simp: reads_as_def Let_def not_le split: option.splits)
qed simp

lemma reads_asI:
  assumes "m < 8" and "d \<le> MAX_DEPTH"
    and "\<And>c c1 c'. \<not> MAX_DEPTH < d \<Longrightarrow> read_head c = Inr ((m, a), c1) \<Longrightarrow> cursor_wf c1 \<Longrightarrow>
      consumes c1 bs c' \<Longrightarrow> length bs < 2 ^ 64 \<Longrightarrow> read_value d c = Inr (v, c')"
  shows "reads_as d (encode_head m a @ bs) v"
  unfolding reads_as_def
proof (intro allI impI)
  fix c c'
  assume wf: "cursor_wf c" and "consumes c (encode_head m a @ bs) c'"
  from this(2) obtain c1 where "consumes c (encode_head m a) c1" and c1: "consumes c1 bs c'"
    by (rule consumes_append)
  with wf assms(1) have "read_head c = Inr ((m, a), c1)" and wf1: "cursor_wf c1"
    using read_head_complete cursor_wf_consumes by blast+
  with c1 consumes_short [OF c1 wf1] assms(2,3) show "read_value d c = Inr (v, c')" by simp
qed

lemmas reads_as_headI = reads_asI [where bs = "[]", simplified]

lemma encode_entries_Inr:
  assumes "encode_entries ps = Inr bs"
  shows "sorted_wrt (<) (map fst (sort_key fst ps))"
    and "bs = encode_head 5 (of_nat (length ps)) @ flat_pairs (sort_key fst ps)"
  using assms
  by (auto simp: encode_entries_def Let_def strict_sorted_iff first_duplicate_None split: option.splits)

lemma encode_map_sorted:
  assumes "encode (CMap es) = Inr bs"
  obtains es' ps where "list_all2 (\<lambda>e p. encode_pair e = Inr p) es' ps"
    and "set es' = set es" and "length es' = length es" and "sorted_wrt (<) (map fst ps)"
    and "bs = encode_head 5 (of_nat (length es)) @ flat_pairs ps"
    and "canon (CMap es) = CMap (map (map_prod canon canon) es')"
proof -
  define h where "h e = (projr (encode (fst e)), projr (encode (snd e)))" for e
  define es' where "es' = sort_key (\<lambda>e. fst (h e)) es"
  from assms obtain ps where ps: "try_map encode_pair es = Inr ps" and en: "encode_entries ps = Inr bs"
    by (auto simp: encode_map_eq simp del: encode.simps)
  have each: "encode_pair e = Inr (h e)" if "e \<in> set es" for e
    using try_map_each [OF ps that] by (auto simp: encode_pair_Inr h_def)
  then have "try_map encode_pair es = Inr (map h es)"
    by (auto simp: try_map_Inr_iff list_all2_conv_all_nth)
  with ps have "ps = map h es" by simp
  then have srt: "sort_key fst ps = map h es'" by (simp add: es'_def map_sort_key)
  have st: "set es' = set es" "length es' = length es" by (simp_all add: es'_def)
  show thesis
  proof (rule that [OF _ st])
    show "list_all2 (\<lambda>e p. encode_pair e = Inr p) es' (map h es')"
      unfolding list_all2_map2 by (rule list_all2_same [THEN iffD2]) (use each st(1) in blast)
    show "sorted_wrt (<) (map fst (map h es'))" "bs = encode_head 5 (of_nat (length es)) @ flat_pairs (map h es')"
      using encode_entries_Inr [OF en] srt \<open>ps = map h es\<close> by auto
    show "canon (CMap es) = CMap (map (map_prod canon canon) es')"
      by (simp add: es'_def h_def map_prod_def case_prod_unfold)
  qed
qed

lemma items_length_le:
  "list_all2 (\<lambda>v b. encode v = Inr b) vs bss \<Longrightarrow> length vs \<le> length (concat bss)"
proof (induction rule: list_all2_induct)
  case (Cons v vs b bss)
  from encode_nonempty [OF Cons.hyps(1)] have "Suc 0 \<le> length b" by (simp add: Suc_le_eq)
  from add_mono [OF this Cons.IH] show ?case by simp
qed simp

lemma pairs_length_le:
  "list_all2 (\<lambda>e p. encode_pair e = Inr p) es ps \<Longrightarrow> length es \<le> length (flat_pairs ps)"
proof (induction rule: list_all2_induct)
  case (Cons e es p ps)
  have "fst p \<noteq> []" using Cons.hyps(1) encode_nonempty by (auto simp: encode_pair_Inr)
  then have "Suc 0 \<le> length (fst p)" by (simp add: Suc_le_eq)
  from add_mono [OF this Cons.IH] show ?case by (simp add: case_prod_unfold)
qed simp

lemma reads_as_array:
  assumes "encode (CArray vs) = Inr bs" and "d \<le> MAX_DEPTH"
    and "\<And>v b. v \<in> set vs \<Longrightarrow> encode v = Inr b \<Longrightarrow> reads_as (Suc d) b (canon v)"
  shows "reads_as d bs (canon (CArray vs))"
proof -
  from assms(1) obtain bss where l: "list_all2 (\<lambda>v b. encode v = Inr b) vs bss"
    and bs: "bs = encode_head 4 (of_nat (length vs)) @ concat bss" by (auto simp: try_map_Inr_iff)
  from l assms(3) have l2: "list_all2 (reads_as (Suc d)) bss (map canon vs)"
    by (auto simp: list_all2_conv_all_nth)
  show ?thesis unfolding bs
    by (rule reads_asI) (use assms(2) items_length_le [OF l] in
        \<open>auto simp: read_value_at unat_of_nat dest!: read_items_complete [OF l2]\<close>)
qed

lemma reads_as_map:
  assumes "encode (CMap es) = Inr bs" and "d \<le> MAX_DEPTH"
    and "\<And>e b. e \<in> set es \<Longrightarrow> encode (fst e) = Inr b \<Longrightarrow> reads_as (Suc d) b (canon (fst e))"
    and "\<And>e b. e \<in> set es \<Longrightarrow> encode (snd e) = Inr b \<Longrightarrow> reads_as (Suc d) b (canon (snd e))"
  shows "reads_as d bs (canon (CMap es))"
proof -
  from assms(1) obtain es' ps where e: "list_all2 (\<lambda>e p. encode_pair e = Inr p) es' ps" "set es' = set es"
    "length es' = length es" "sorted_wrt (<) (map fst ps)"
    "bs = encode_head 5 (of_nat (length es)) @ flat_pairs ps"
    "canon (CMap es) = CMap (map (map_prod canon canon) es')" by (rule encode_map_sorted)
  have "reads_as (Suc d) (fst p) (canon (fst e)) \<and> reads_as (Suc d) (snd p) (canon (snd e))"
    if "e \<in> set es'" "encode_pair e = Inr p" for e p
    using that assms(3,4) e(2) by (simp add: encode_pair_Inr)
  then have l2: "list_all2 (\<lambda>p e. reads_as (Suc d) (fst p) (fst e) \<and> reads_as (Suc d) (snd p) (snd e))
      ps (map (map_prod canon canon) es')"
    using e(1) by (simp add: list_all2_conv_all_nth)
  show ?thesis unfolding e(5,6)
    by (rule reads_asI) (use assms(2) pairs_length_le [OF e(1)] e(3,4) in
        \<open>auto simp: read_value_at unat_of_nat dest!: read_entries_complete [OF l2, where prev = None]\<close>)
qed

lemma read_complete:
  "encode v = Inr bs \<Longrightarrow> cbor_texts_wf v \<Longrightarrow> d + cbor_depth v \<le> MAX_DEPTH \<Longrightarrow> reads_as d bs (canon v)"
proof (induction v arbitrary: bs d rule: encode.induct)
  case (1 n)
  then show ?case by (auto intro!: reads_as_headI simp: read_value_at)
next
  case (2 i)
  then have i: "sint i < 0" "bs = encode_head 1 (word_of_int (- sint i - 1))"
    by (auto split: if_splits)
  have ge: "- (2 ^ 63) \<le> sint i" using sint_ge [of i] by simp
  with i(1) have "uint (word_of_int (- sint i - 1) :: u64) = - sint i - 1"
    by (subst uint_word_of_int_eq, subst take_bit_int_eq_self) auto
  with i 2 ge show ?case by (auto intro!: reads_as_headI simp: read_value_at)
next
  case (3 b)
  have "reads_as d (encode_head 2 (of_nat (length b)) @ b) (CBytes b)"
    by (rule reads_asI) (use 3 in \<open>auto simp: read_value_at unat_of_nat dest!: cursor_take_complete\<close>)
  with 3 show ?case by simp
next
  case (4 s)
  have "reads_as d (encode_head 3 (of_nat (length (str_bytes s))) @ str_bytes s) (CText s)"
    by (rule reads_asI)
      (use 4 in \<open>auto simp: read_value_at unat_of_nat string_wf_def dest!: cursor_take_complete\<close>)
  with 4 show ?case by simp
next
  case (5 vs)
  from "5.prems"(1) show ?case
    by (rule reads_as_array) (use 5 depth_item [OF "5.prems"(3)] in \<open>auto simp: list_all_iff\<close>)
next
  case (6 es)
  from "6.prems"(1) obtain ps where ps: "try_map encode_pair es = Inr ps"
    by (auto simp: encode_map_eq simp del: encode.simps)
  have k: "\<exists>kb. encode (fst e) = Inr kb" if "e \<in> set es" for e
    using try_map_each [OF ps that] by (auto simp: encode_pair_Inr)
  from "6.prems"(1) show ?case
    by (rule reads_as_map)
      (use 6 k depth_entry [OF "6.prems"(3)] in \<open>fastforce simp: list_all_iff simp del: encode.simps\<close>)+
next
  case (7 b)
  have "bs = encode_head 7 (if b then 21 else 20)"
    using 7 by (auto simp: encode_head_def)
  with 7 show ?case by (auto intro!: reads_as_headI simp: read_value_at)
next
  case 8
  have "bs = encode_head 7 22" using 8 by (auto simp: encode_head_def)
  with 8 show ?case by (auto intro!: reads_as_headI simp: read_value_at)
qed

lemma decode_sound:
  assumes "decode_canonical bs = Inr v"
  shows "encode v = Inr bs"
proof -
  from assms obtain c' where r: "read_value 0 \<lparr>cur_input = bs, cur_position = 0\<rparr> = Inr (v, c')"
    and p: "cur_position c' = length bs"
    by (auto simp: decode_canonical_def split: if_splits)
  from read_sound(1) [OF r] obtain b where b: "encode v = Inr b"
    "consumes \<lparr>cur_input = bs, cur_position = 0\<rparr> b c'" by blast
  then show ?thesis using p by (auto simp: consumes_def)
qed

lemma decode_complete:
  assumes "cbor_ok v" and "encode v = Inr bs"
  shows "decode_canonical bs = Inr (canon v)"
proof -
  have "reads_as 0 bs (canon v)"
    using read_complete [OF assms(2), of 0] assms(1) by (simp add: cbor_ok_def)
  moreover have "consumes \<lparr>cur_input = bs, cur_position = 0\<rparr> bs \<lparr>cur_input = bs, cur_position = length bs\<rparr>"
    by (simp add: consumes_def)
  ultimately have "read_value 0 \<lparr>cur_input = bs, cur_position = 0\<rparr> =
      Inr (canon v, \<lparr>cur_input = bs, cur_position = length bs\<rparr>)"
    using assms unfolding reads_as_def cbor_ok_def by (simp add: cursor_wf_def)
  then show ?thesis by (simp add: decode_canonical_def)
qed

interpretation cbor_codec: canonical_codec encode decode_canonical canon cbor_ok
  by unfold_locales (auto intro: decode_sound decode_complete)

section \<open>Encodings are uniquely decodable\<close>

lemma encode_head_unique:
  assumes "encode_head m x @ r = encode_head n y @ s" and "m < 8" and "n < 8"
    and "length (encode_head m x @ r) < 2 ^ 64"
  shows "m = n \<and> x = y \<and> r = s"
proof -
  let ?c = "\<lparr>cur_input = encode_head m x @ r, cur_position = 0\<rparr>"
  have wf: "cursor_wf ?c" using assms(4) by (simp add: cursor_wf_def)
  have "consumes ?c (encode_head m x) (?c\<lparr>cur_position := length (encode_head m x)\<rparr>)"
    by (simp add: consumes_def)
  from read_head_complete [OF this wf assms(2)]
  have 1: "read_head ?c = Inr ((m, x), ?c\<lparr>cur_position := length (encode_head m x)\<rparr>)" .
  have "consumes ?c (encode_head n y) (?c\<lparr>cur_position := length (encode_head n y)\<rparr>)"
    using assms(1) by (simp add: consumes_def)
  from read_head_complete [OF this wf assms(3)] 1 have "m = n \<and> x = y" by simp
  with assms(1) show ?thesis by simp
qed

lemma encodes_uniquelyD:
  "encodes_uniquely v \<Longrightarrow> encode v = Inr a \<Longrightarrow> encode w = Inr b \<Longrightarrow> a @ r = b @ s \<Longrightarrow>
     length (a @ r) < 2 ^ 64 \<Longrightarrow> a = b \<and> canon v = canon w \<and> r = s"
  unfolding encodes_uniquely_def by (metis append_same_eq same_append_eq)

lemma cbor_major_lt: "cbor_major v < 8"
  by (cases v) auto

lemma encode_head_of:
  assumes "encode v = Inr a"
  obtains body where "a = encode_head (cbor_major v) (cbor_argument v) @ body"
proof (cases v)
  case (CMap es)
  with assms obtain ps where "try_map encode_pair es = Inr ps" "encode_entries ps = Inr a"
    by (auto simp: encode_map_eq simp del: encode.simps)
  with encode_entries_Inr(2) try_map_length that CMap show ?thesis by fastforce
qed (use assms that in \<open>auto simp: encode_head_def split: if_splits\<close>)

lemma items_unique:
  assumes "list_all2 (\<lambda>v b. encode v = Inr b) vs bss" and "list_all2 (\<lambda>v b. encode v = Inr b) ws css"
    and "length vs = length ws" and "\<And>v. v \<in> set vs \<Longrightarrow> encodes_uniquely v"
    and "concat bss @ r = concat css @ s" and "length (concat bss @ r) < 2 ^ 64"
  shows "bss = css \<and> map canon vs = map canon ws"
  using assms
proof (induction vs bss arbitrary: ws css rule: list_all2_induct)
  case (Cons v vs b bss)
  then obtain w ws' c css' where w: "ws = w # ws'" "css = c # css'" "encode w = Inr c"
    "list_all2 (\<lambda>v b. encode v = Inr b) ws' css'"
    by (cases ws; cases css) auto
  have u: "b = c \<and> canon v = canon w \<and> concat bss @ r = concat css' @ s"
    using Cons.prems w by (intro encodes_uniquelyD [OF _ Cons.hyps(1) w(3)]) auto
  with Cons.IH [OF w(4)] Cons.prems w show ?case by auto
qed auto

lemma pairs_unique:
  assumes "list_all2 (\<lambda>e p. encode_pair e = Inr p) es ps" and "list_all2 (\<lambda>e p. encode_pair e = Inr p) fs qs"
    and "length es = length fs" and "\<And>e. e \<in> set es \<Longrightarrow> encodes_uniquely (fst e) \<and> encodes_uniquely (snd e)"
    and "flat_pairs ps @ r = flat_pairs qs @ s" and "length (flat_pairs ps @ r) < 2 ^ 64"
  shows "ps = qs \<and> map (map_prod canon canon) es = map (map_prod canon canon) fs"
  using assms
proof (induction es ps arbitrary: fs qs rule: list_all2_induct)
  case (Cons e es p ps)
  then obtain f fs' q qs' where f: "fs = f # fs'" "qs = q # qs'" "encode_pair f = Inr q"
    "list_all2 (\<lambda>e p. encode_pair e = Inr p) fs' qs'"
    by (cases fs; cases qs) auto
  have e: "encode (fst e) = Inr (fst p)" "encode (snd e) = Inr (snd p)"
    "encode (fst f) = Inr (fst q)" "encode (snd f) = Inr (snd q)"
    using Cons.hyps(1) f(3) by (simp_all add: encode_pair_Inr)
  have eq: "fst p @ (snd p @ flat_pairs ps @ r) = fst q @ (snd q @ flat_pairs qs' @ s)"
    using Cons.prems(4) f(2) by (simp add: case_prod_unfold)
  have k: "fst p = fst q \<and> canon (fst e) = canon (fst f) \<and>
      snd p @ flat_pairs ps @ r = snd q @ flat_pairs qs' @ s"
    using Cons.prems(3,5) by (intro encodes_uniquelyD [OF _ e(1,3) eq]) (auto simp: case_prod_unfold)
  then have v: "snd p = snd q \<and> canon (snd e) = canon (snd f) \<and> flat_pairs ps @ r = flat_pairs qs' @ s"
    using Cons.prems(3,5) by (intro encodes_uniquelyD [OF _ e(2,4)]) (auto simp: case_prod_unfold)
  have "ps = qs' \<and> map (map_prod canon canon) es = map (map_prod canon canon) fs'"
    using Cons.prems f v by (intro Cons.IH [OF f(4)]) auto
  with k v f show ?case by (cases e; cases f) (auto intro: prod_eqI)
qed auto

lemma encodes_uniquelyI:
  assumes "\<And>w x y r s. encode v = Inr (encode_head (cbor_major v) (cbor_argument v) @ x) \<Longrightarrow>
    encode w = Inr (encode_head (cbor_major v) (cbor_argument v) @ y) \<Longrightarrow>
    cbor_major w = cbor_major v \<Longrightarrow> cbor_argument w = cbor_argument v \<Longrightarrow> x @ r = y @ s \<Longrightarrow>
    length (x @ r) < 2 ^ 64 \<Longrightarrow> x = y \<and> canon v = canon w"
  shows "encodes_uniquely v"
  unfolding encodes_uniquely_def
proof (intro allI impI)
  fix w a b r s
  assume h: "encode v = Inr a" "encode w = Inr b" "a @ r = b @ s" "length (a @ r) < 2 ^ 64"
  from h(1) obtain x where x: "a = encode_head (cbor_major v) (cbor_argument v) @ x" by (rule encode_head_of)
  from h(2) obtain y where y: "b = encode_head (cbor_major w) (cbor_argument w) @ y" by (rule encode_head_of)
  have eq: "cbor_major v = cbor_major w \<and> cbor_argument v = cbor_argument w \<and> x @ r = y @ s"
    using h(3,4) x y by (intro encode_head_unique) (auto simp: cbor_major_lt)
  have "x = y \<and> canon v = canon w"
  proof (rule assms)
    show "encode v = Inr (encode_head (cbor_major v) (cbor_argument v) @ x)" using h(1) x by simp
    show "encode w = Inr (encode_head (cbor_major v) (cbor_argument v) @ y)" using h(2) y eq by simp
    show "length (x @ r) < 2 ^ 64" using h(4) x by simp
  qed (use eq in auto)
  with x y eq show "a = b \<and> canon v = canon w" by simp
qed

lemma array_unique:
  assumes "\<And>v. v \<in> set vs \<Longrightarrow> encodes_uniquely v"
  shows "encodes_uniquely (CArray vs)"
proof (rule encodes_uniquelyI)
  fix w x y r s
  assume h: "encode (CArray vs) = Inr (encode_head (cbor_major (CArray vs)) (cbor_argument (CArray vs)) @ x)"
    "encode w = Inr (encode_head (cbor_major (CArray vs)) (cbor_argument (CArray vs)) @ y)"
    "cbor_major w = cbor_major (CArray vs)" "cbor_argument w = cbor_argument (CArray vs)"
    "x @ r = y @ s" "length (x @ r) < 2 ^ 64"
  then obtain ws where w: "w = CArray ws" by (cases w) auto
  from h(1) obtain bss where b: "try_map encode vs = Inr bss" "x = concat bss" by auto
  from h(2,4) w obtain css where c: "try_map encode ws = Inr css" "y = concat css" by auto
  have l: "length x < 2 ^ 64" "length y < 2 ^ 64"
    using h(6) arg_cong [OF h(5), of length] by simp_all
  have "length vs \<le> length x" "length ws \<le> length y"
    using b c items_length_le by (simp_all add: try_map_Inr_iff)
  then have "length vs = length ws"
    using h(4) w l by (intro of_nat_u64_inject) auto
  then show "x = y \<and> canon (CArray vs) = canon w"
    using items_unique [of vs bss ws css r s] assms b c h(5,6) w by (simp add: try_map_Inr_iff)
qed

lemma map_unique:
  assumes "\<And>e. e \<in> set es \<Longrightarrow> encodes_uniquely (fst e) \<and> encodes_uniquely (snd e)"
  shows "encodes_uniquely (CMap es)"
proof (rule encodes_uniquelyI)
  fix w x y r s
  assume h: "encode (CMap es) = Inr (encode_head (cbor_major (CMap es)) (cbor_argument (CMap es)) @ x)"
    "encode w = Inr (encode_head (cbor_major (CMap es)) (cbor_argument (CMap es)) @ y)"
    "cbor_major w = cbor_major (CMap es)" "cbor_argument w = cbor_argument (CMap es)"
    "x @ r = y @ s" "length (x @ r) < 2 ^ 64"
  then obtain fs where w: "w = CMap fs" by (cases w) auto
  from h(1) obtain es' ps where e: "list_all2 (\<lambda>e p. encode_pair e = Inr p) es' ps" "set es' = set es"
    "length es' = length es" "x = flat_pairs ps" "canon (CMap es) = CMap (map (map_prod canon canon) es')"
    by (auto elim!: encode_map_sorted simp del: encode.simps canon.simps)
  from h(2,4) w obtain fs' qs where f: "list_all2 (\<lambda>e p. encode_pair e = Inr p) fs' qs"
    "length fs' = length fs" "y = flat_pairs qs" "canon (CMap fs) = CMap (map (map_prod canon canon) fs')"
    by (auto elim!: encode_map_sorted simp del: encode.simps canon.simps)
  have l: "length x < 2 ^ 64" "length y < 2 ^ 64"
    using h(6) arg_cong [OF h(5), of length] by simp_all
  have "length es \<le> length x" "length fs \<le> length y"
    using pairs_length_le [OF e(1)] pairs_length_le [OF f(1)] e f by simp_all
  then have "length es = length fs"
    using h(4) w l by (intro of_nat_u64_inject) auto
  then show "x = y \<and> canon (CMap es) = canon w"
    using pairs_unique [of es' ps fs' qs r s] assms e f h(5,6) w by simp
qed

lemma bytes_unique: "encodes_uniquely (CBytes b)"
proof (rule encodes_uniquelyI)
  fix w x y r s
  assume h: "encode (CBytes b) = Inr (encode_head (cbor_major (CBytes b)) (cbor_argument (CBytes b)) @ x)"
    "encode w = Inr (encode_head (cbor_major (CBytes b)) (cbor_argument (CBytes b)) @ y)"
    "cbor_major w = cbor_major (CBytes b)" "cbor_argument w = cbor_argument (CBytes b)"
    "x @ r = y @ s" "length (x @ r) < 2 ^ 64"
  then obtain d where w: "w = CBytes d" by (cases w) auto
  with h have xy: "x = b" "y = d" by simp_all
  have "length b = length d"
    using h(4,6) w xy arg_cong [OF h(5), of length] by (intro of_nat_u64_inject) simp_all
  with h(5) xy w show "x = y \<and> canon (CBytes b) = canon w" by simp
qed

lemma text_unique: "encodes_uniquely (CText t)"
proof (rule encodes_uniquelyI)
  fix w x y r s
  assume h: "encode (CText t) = Inr (encode_head (cbor_major (CText t)) (cbor_argument (CText t)) @ x)"
    "encode w = Inr (encode_head (cbor_major (CText t)) (cbor_argument (CText t)) @ y)"
    "cbor_major w = cbor_major (CText t)" "cbor_argument w = cbor_argument (CText t)"
    "x @ r = y @ s" "length (x @ r) < 2 ^ 64"
  then obtain u where w: "w = CText u" by (cases w) auto
  with h have xy: "x = str_bytes t" "y = str_bytes u" by simp_all
  have "length t = length u"
    using h(4,6) w xy arg_cong [OF h(5), of length] by (intro of_nat_u64_inject) simp_all
  with h(5) xy w show "x = y \<and> canon (CText t) = canon w" by simp
qed

lemma encode_unique: "encodes_uniquely v"
proof (induction v rule: measure_induct_rule [of size])
  case (less v)
  show ?case
  proof (cases v)
    case (CUnsigned n)
    show ?thesis unfolding CUnsigned by (rule encodes_uniquelyI, case_tac w) auto
  next
    case (CNegative i)
    show ?thesis unfolding CNegative by (rule encodes_uniquelyI, case_tac w) (auto split: if_splits)
  next
    case (CArray vs)
    then show ?thesis using array_unique less cbor_size_item by simp
  next
    case (CMap es)
    then show ?thesis using map_unique less cbor_size_entry by simp
  next
    case (CBool b)
    show ?thesis unfolding CBool
      by (rule encodes_uniquelyI, case_tac w; cases b) (auto simp: encode_head_simple split: if_splits)
  next
    case CNull
    show ?thesis unfolding CNull
      by (rule encodes_uniquelyI, case_tac w) (auto simp: encode_head_simple split: if_splits)
  qed (auto intro: bytes_unique text_unique)
qed

lemma encode_inject:
  assumes "encode v = Inr bs" and "encode w = Inr bs" and "length bs < 2 ^ 64"
  shows "canon v = canon w"
  using encodes_uniquelyD [OF encode_unique assms(1,2), of "[]" "[]"] assms(3) by simp

section \<open>Maps with text keys\<close>

lemma canon_cbor_map:
  "canon (cbor_map es) = CMap (map (\<lambda>(k, v). (CText k, v))
     (sort_key (\<lambda>(k, v). projr (encode (CText k))) (map (\<lambda>(k, v). (k, canon v)) es)))"
proof -
  have "sort_key (\<lambda>e. projr (encode (fst e))) (map (\<lambda>(k, v). (CText k, v)) es) =
      map (\<lambda>(k, v). (CText k, v)) (sort_key (\<lambda>(k, v). projr (encode (CText k))) es)"
    by (subst map_sort_key [symmetric]) (simp add: case_prod_unfold)
  moreover have "map (\<lambda>(k, v). (k, canon v)) (sort_key (\<lambda>(k, v). projr (encode (CText k))) es) =
      sort_key (\<lambda>(k, v). projr (encode (CText k))) (map (\<lambda>(k, v). (k, canon v)) es)"
    by (subst map_sort_key [symmetric]) (simp add: case_prod_unfold)
  moreover have "map (\<lambda>e. (canon (fst e), canon (snd e))) (map (\<lambda>(k, v). (CText k, v)) fs) =
      map (\<lambda>(k, v). (CText k, v)) (map (\<lambda>(k, v). (k, canon v)) fs)" for fs
    by (simp add: case_prod_unfold)
  ultimately show ?thesis by (simp only: cbor_map_def canon.simps)
qed

text \<open>
  Two such maps have the same bytes only if their fields agree. \<open>cbor_inject\<close> collects, for
  each type of the program with a canonical form, that the form determines the value.
\<close>

named_theorems cbor_inject \<open>canonical forms determine their values\<close>

lemma canon_field:
  assumes "canon (cbor_map es) = canon (cbor_map fs)" and "distinct (map fst es)" and "distinct (map fst fs)"
  shows "map_option canon (map_of es k) = map_option canon (map_of fs k)"
proof -
  let ?f = "\<lambda>(k :: string, v). (k, canon v)"
  have inj: "inj (\<lambda>(k, v :: cbor). (CText k, v))" by (auto simp: inj_on_def)
  from assms(1) have "sort_key (\<lambda>(k, v). projr (encode (CText k))) (map ?f es) =
      sort_key (\<lambda>(k, v). projr (encode (CText k))) (map ?f fs)"
    unfolding canon_cbor_map cbor.inject by (simp only: inj_map_eq_map [OF inj])
  then have st: "set (map ?f es) = set (map ?f fs)" by (metis set_sort)
  have d: "distinct (map fst (map ?f es))" "distinct (map fst (map ?f fs))"
    using assms(2,3) by (simp_all add: comp_def case_prod_unfold)
  have "map_of (map ?f es) k = map_of (map ?f fs) k"
    using map_of_eqI [of "map ?f es" "map ?f fs"] map_of_inject_set [OF d] st by metis
  then show ?thesis by (simp add: map_of_map)
qed

lemma canon_record:
  assumes "canon (cbor_map es) = canon (cbor_map fs)" and "map fst es = map fst fs" and "distinct (map fst es)"
  shows "map (\<lambda>(k, v). canon v) es = map (\<lambda>(k, v). canon v) fs"
proof (rule nth_equalityI)
  show len: "length (map (\<lambda>(k, v). canon v) es) = length (map (\<lambda>(k, v). canon v) fs)"
    using assms(2) by (metis length_map)
  fix i
  assume "i < length (map (\<lambda>(k, v). canon v) es)"
  then have i: "i < length es" "i < length fs" using len by simp_all
  have ki: "fst (fs ! i) = fst (es ! i)" using i assms(2) by (metis nth_map)
  have d: "distinct (map fst fs)" using assms(2,3) by simp
  have e: "map_of es (fst (es ! i)) = Some (snd (es ! i))" 
    using i assms(3) by (simp add: map_of_eq_Some_iff)
  have f: "map_of fs (fst (fs ! i)) = Some (snd (fs ! i))"
    using i d by (simp add: map_of_eq_Some_iff)
  show "map (\<lambda>(k, v). canon v) es ! i = map (\<lambda>(k, v). canon v) fs ! i"
    using canon_field [OF assms(1,3) d, of "fst (es ! i)"] e f [unfolded ki] i by (simp add: case_prod_unfold)
qed

lemma canon_record_iff:
  assumes "map fst es = map fst fs" and "distinct (map fst es)"
  shows "canon (cbor_map es) = canon (cbor_map fs) \<longleftrightarrow> map (\<lambda>(k, v). canon v) es = map (\<lambda>(k, v). canon v) fs"
proof
  assume "map (\<lambda>(k, v). canon v) es = map (\<lambda>(k, v). canon v) fs"
  then have "map (\<lambda>(k, v). (k, canon v)) es = map (\<lambda>(k, v). (k, canon v)) fs"
    using assms(1) by (induction es fs rule: list_induct2') (auto simp: case_prod_unfold)
  then show "canon (cbor_map es) = canon (cbor_map fs)" by (simp only: canon_cbor_map)
qed (rule canon_record [OF _ assms])

lemma canon_differ:
  assumes "map_option canon (map_of es k) \<noteq> map_option canon (map_of fs k)"
    and "distinct (map fst es)" and "distinct (map fst fs)"
  shows "canon (cbor_map es) \<noteq> canon (cbor_map fs)"
  using canon_field [OF _ assms(2,3)] assms(1) by blast

lemma canon_array_inject:
  assumes "\<And>x y. canon (f x) = canon (f y) \<longleftrightarrow> x = y"
  shows "canon (CArray (map f xs)) = canon (CArray (map f ys)) \<longleftrightarrow> xs = ys"
  using map_inject_iff [of "\<lambda>x. canon (f x)" xs ys] assms by (simp add: comp_def)
lemma canon_map_mset:
  "canon (CMap es) = canon (CMap fs) \<Longrightarrow>
     mset (map (map_prod canon canon) es) = mset (map (map_prod canon canon) fs)"
proof -
  assume eq: "canon (CMap es) = canon (CMap fs)"
  have "mset (map (map_prod canon canon) gs) =
      mset (case canon (CMap gs) of CMap ps \<Rightarrow> ps | _ \<Rightarrow> [])" for gs
    by (simp add: map_prod_def case_prod_unfold)
  then show ?thesis using eq by metis
qed

lemma canon_pairs_mset:
  assumes "canon (CMap (map (\<lambda>(k, v). (f k, g v)) a)) = canon (CMap (map (\<lambda>(k, v). (f k, g v)) b))"
    and "\<And>k l. canon (f k) = canon (f l) \<longleftrightarrow> k = l" and "\<And>v w. canon (g v) = canon (g w) \<longleftrightarrow> v = w"
  shows "mset a = mset b"
proof -
  let ?h = "\<lambda>(k, v). (canon (f k), canon (g v))"
  have inj: "inj ?h" using assms(2,3) by (auto simp: inj_on_def)
  have "image_mset ?h (mset a) = image_mset ?h (mset b)"
    using canon_map_mset [OF assms(1)] by (simp add: map_prod_def comp_def case_prod_unfold)
  then show ?thesis using multiset.inj_map [OF inj] by (simp add: injD)
qed

text \<open>The bytes of a map depend on the bytes of its entries and not on their order.\<close>

lemma encode_map_cong:
  assumes "list_all2 (\<lambda>e f. encode_pair e = encode_pair f) es fs"
  shows "encode (CMap es) = encode (CMap fs)"
proof -
  have "try_map encode_pair es = try_map encode_pair fs"
    using assms by (induction rule: list_all2_induct) simp_all
  then show ?thesis by (simp only: encode_map_eq)
qed

lemma encode_entries_perm:
  assumes "mset ps = mset qs" and "encode_entries ps = Inr bs"
  shows "encode_entries qs = Inr bs"
proof -
  have "distinct (map fst (sort_key fst ps))"
    using encode_entries_Inr(1) [OF assms(2)] by (simp add: strict_sorted_iff)
  then have "inj_on fst (set ps)" by (simp add: distinct_map)
  then have "sort_key fst ps = sort_key fst qs" using assms(1) by (intro sort_key_eq_sort_key) auto
  moreover have "length ps = length qs" using assms(1) mset_eq_length by blast
  ultimately show ?thesis using assms(2) by (simp add: encode_entries_def)
qed

lemma encode_map_perm:
  assumes "mset es = mset fs" and "encode (CMap es) = Inr bs"
  shows "encode (CMap fs) = Inr bs"
proof -
  from assms(2) obtain ps where ps: "try_map encode_pair es = Inr ps" "encode_entries ps = Inr bs"
    by (auto simp: encode_map_eq simp del: encode.simps)
  let ?p = "\<lambda>e. projr (encode_pair e)"
  have each: "\<exists>p. encode_pair e = Inr p" if "e \<in> set es" for e using try_map_each [OF ps(1) that] .
  have qs: "try_map encode_pair gs = Inr (map ?p gs)" if "set gs = set es" for gs
    using that each by (fastforce simp: try_map_Inr_iff list_all2_map2 list_all2_same)
  have "set fs = set es" using mset_eq_setD [OF assms(1)] by simp
  from qs [OF this] have f: "try_map encode_pair fs = Inr (map ?p fs)" .
  from qs [OF refl] ps(1) have "ps = map ?p es" by simp
  then have "mset ps = mset (map ?p fs)" using assms(1) by simp
  from encode_entries_perm [OF this ps(2)] f show ?thesis by (simp add: encode_map_eq del: encode.simps)
qed

lemma encode_record_cong:
  assumes "map fst es = map fst fs" and "map (\<lambda>(k, v). encode v) es = map (\<lambda>(k, v). encode v) fs"
  shows "encode (cbor_map es) = encode (cbor_map fs)"
  unfolding cbor_map_def
proof (rule encode_map_cong)
  show "list_all2 (\<lambda>e f. encode_pair e = encode_pair f) (map (\<lambda>(k, v). (CText k, v)) es) (map (\<lambda>(k, v). (CText k, v)) fs)"
    using assms by (induction es fs rule: list_induct2') (auto simp: encode_pair_def)
qed

section \<open>Values that encode\<close>

definition encodes :: "cbor \<Rightarrow> bool" where
  "encodes v \<longleftrightarrow> (\<exists>bs. encode v = Inr bs)"

named_theorems cbor_encodes \<open>canonical forms that encode\<close>

lemma encodes_simps [cbor_encodes]:
  "encodes (CUnsigned n)" "encodes (CBytes b)" "encodes (CText s)" "encodes (CBool c)" "encodes CNull"
  "encodes (cbor_integer i)"
  by (simp_all add: encodes_def cbor_integer_def)

lemma encodes_array [cbor_encodes]: "(\<And>v. v \<in> set vs \<Longrightarrow> encodes v) \<Longrightarrow> encodes (CArray vs)"
proof -
  assume "\<And>v. v \<in> set vs \<Longrightarrow> encodes v"
  then have "\<exists>bss. try_map encode vs = Inr bss" by (induction vs) (auto simp: encodes_def)
  then show ?thesis by (auto simp: encodes_def)
qed

lemma encodes_map:
  assumes "\<And>e. e \<in> set es \<Longrightarrow> encodes (fst e) \<and> encodes (snd e)"
    and "distinct (map (\<lambda>e. projr (encode (fst e))) es)"
  shows "encodes (CMap es)"
proof -
  from assms(1) have "\<exists>ps. try_map encode_pair es = Inr ps"
    by (induction es) (fastforce simp: encodes_def encode_pair_def)+
  then obtain ps where ps: "try_map encode_pair es = Inr ps" by blast
  have "map fst ps = map (\<lambda>e. projr (encode (fst e))) es"
    using ps by (auto simp: try_map_Inr_iff list_all2_conv_all_nth encode_pair_Inr intro!: nth_equalityI)
  with assms(2) have "distinct (map fst (sort_key fst ps))" by (metis distinct_map distinct_sort set_sort)
  then show ?thesis
    using ps by (auto simp: encodes_def encode_map_eq encode_entries_def Let_def first_duplicate_None
        simp del: encode.simps split: option.splits)
qed

lemma encode_text_inject:
  assumes "encode (CText a) = encode (CText b)" and "length a < 2 ^ 63" and "length b < 2 ^ 63"
  shows "a = b"
proof -
  have "length (encode_head 3 x) \<le> 9" for x
    by (simp add: encode_head_def Let_def)
  then have "length (encode_head 3 (of_nat (length a)) @ str_bytes a) \<le> 9 + length a" by simp
  moreover have "(9 :: nat) + length a < 2 ^ 64" using assms(2) by simp
  ultimately have len: "length (encode_head 3 (of_nat (length a)) @ str_bytes a) < 2 ^ 64" by linarith
  have "encode (CText a) = Inr (encode_head 3 (of_nat (length a)) @ str_bytes a)" by simp
  from encode_inject [OF this _ len, of "CText b"] this assms(1) have "canon (CText a) = canon (CText b)" by simp
  then show ?thesis by simp
qed

lemma encodes_record [cbor_encodes]:
  assumes "\<And>k v. (k, v) \<in> set es \<Longrightarrow> encodes v" and "distinct (map fst es)"
    and "list_all (\<lambda>k. length k < 100) (map fst es)"
  shows "encodes (cbor_map es)"
  unfolding cbor_map_def
proof (rule encodes_map)
  show "encodes (fst e) \<and> encodes (snd e)" if "e \<in> set (map (\<lambda>(k, v). (CText k, v)) es)" for e
    using that assms(1) by (auto simp: encodes_def)
  have "inj_on (\<lambda>k. projr (encode (CText k))) (set (map fst es))"
    using assms(3) by (auto simp: inj_on_def list_all_iff intro!: encode_text_inject)
  with assms(2) have "distinct (map (\<lambda>k. projr (encode (CText k))) (map fst es))"
    by (subst distinct_map) blast
  then show "distinct (map (\<lambda>e. projr (encode (fst e))) (map (\<lambda>(k, v). (CText k, v)) es))"
    by (simp add: comp_def case_prod_unfold)
qed
lemma length_encode_head: "length (encode_head m a) \<le> 9"
  by (simp add: encode_head_def Let_def)

lemma encode_length_bound: "encode v = Inr bs \<Longrightarrow> length bs \<le> cbor_bound v"
proof (induction v arbitrary: bs rule: measure_induct_rule [of size])
  case (less v)
  show ?case
  proof (cases v)
    case (CArray vs)
    with less.prems obtain bss where b: "list_all2 (\<lambda>v b. encode v = Inr b) vs bss"
      "bs = encode_head 4 (of_nat (length vs)) @ concat bss" by (auto simp: try_map_Inr_iff)
    have "list_all2 (\<lambda>b v. length b \<le> cbor_bound v) bss vs"
      using b(1) less.IH CArray cbor_size_item [of _ vs] by (auto simp: list_all2_conv_all_nth)
    from sum_list_le2 [OF this] b(2) CArray length_encode_head [of 4 "of_nat (length vs)"]
    show ?thesis by (simp add: length_concat)
  next
    case (CMap es)
    with less.prems obtain ps where ps: "try_map encode_pair es = Inr ps" "encode_entries ps = Inr bs"
      by (auto simp: encode_map_eq simp del: encode.simps)
    have each: "length (fst p) + length (snd p) \<le> cbor_bound (fst e) + cbor_bound (snd e)"
      if "e \<in> set es" "encode_pair e = Inr p" for e p
      using that less.IH [unfolded CMap, OF cbor_size_entry(1) [OF that(1)], of "fst p"]
        less.IH [unfolded CMap, OF cbor_size_entry(2) [OF that(1)], of "snd p"]
      by (simp add: encode_pair_Inr)
    have l: "list_all2 (\<lambda>p e. length (fst p) + length (snd p) \<le> cbor_bound (fst e) + cbor_bound (snd e)) ps es"
      using ps(1) each by (simp add: try_map_Inr_iff list_all2_conv_all_nth)
    have "length (flat_pairs (sort_key fst ps)) = sum_list (map (\<lambda>p. length (fst p) + length (snd p)) (sort_key fst ps))"
      by (simp add: length_concat comp_def case_prod_unfold)
    also have "\<dots> = sum_list (map (\<lambda>p. length (fst p) + length (snd p)) ps)"
      by (simp flip: sum_mset_sum_list)
    finally show ?thesis
      using sum_list_le2 [OF l] encode_entries_Inr(2) [OF ps(2)] CMap length_encode_head [of 5 "of_nat (length ps)"]
      by simp
  qed (use less.prems length_encode_head in \<open>auto simp: length_encode_head split: if_splits\<close>)
qed

lemma encodes_bound: "encodes v \<Longrightarrow> cbor_bound v < 2 ^ 64 \<Longrightarrow> \<exists>bs. encode v = Inr bs \<and> length bs < 2 ^ 64"
  using encode_length_bound by (fastforce simp: encodes_def)

lemma cbor_bound_record: "cbor_bound (cbor_map es) = 9 + sum_list (map (\<lambda>(k, v). 9 + length k + cbor_bound v) es)"
  by (simp add: cbor_map_def comp_def case_prod_unfold)

lemma encodes_empty_map: "encodes (CMap [])" by (simp add: encodes_def encode_entries_def)

text \<open>The component theories declare their canonical forms here, so that examples can be evaluated.\<close>

named_theorems to_cbor_defs \<open>definitions of canonical forms\<close>

section \<open>Properties\<close>

text \<open>
  C20. The decoder is strict: a byte string it accepts is the one the encoder writes for the value it
  returns, so no second byte string decodes to the same value and a digest never has two preimages
  that mean the same thing.
\<close>

theorem cbor_canonicity:
  assumes "decode_canonical bs = Inr v"
  shows "encode v = Inr bs \<and> (\<forall>cs. decode_canonical cs = Inr v \<longrightarrow> cs = bs)"
  using assms cbor_codec.enc_dec cbor_codec.dec_inject by blast

theorem cbor_canonicity_witness:
  "decode_canonical [0x82, 0x18, 0x2a, 0xa1, 0x61, 0x61, 0xf5] =
     Inr (CArray [CUnsigned 42, CMap [(CText ''a'', CBool True)]]) \<and>
   encode (CArray [CUnsigned 42, CMap [(CText ''a'', CBool True)]]) =
     Inr [0x82, 0x18, 0x2a, 0xa1, 0x61, 0x61, 0xf5]"
proof -
  have d: "decode_canonical [0x82, 0x18, 0x2a, 0xa1, 0x61, 0x61, 0xf5] =
     Inr (CArray [CUnsigned 42, CMap [(CText ''a'', CBool True)]])" by code_simp
  with cbor_canonicity [OF d] show ?thesis by blast
qed

text \<open>
  C21. Round trip: what the encoder writes, the decoder reads back, with map entries in canonical
  order and nothing else changed; two values with the same bytes differ only in that order.
\<close>

theorem cbor_round_trip:
  assumes "cbor_ok v" and "encode v = Inr bs"
  shows "decode_canonical bs = Inr (canon v) \<and> encode (canon v) = Inr bs \<and>
    (\<forall>w. cbor_ok w \<longrightarrow> encode w = Inr bs \<longrightarrow> canon w = canon v)"
  using assms decode_complete cbor_codec.enc_norm cbor_codec.enc_inject by blast

theorem cbor_round_trip_witness:
  "decode_canonical [0xa2, 0x61, 0x61, 0x22, 0x62, 0x62, 0x62, 0xf6] =
     Inr (CMap [(CText ''a'', CNegative (-3)), (CText ''bb'', CNull)])"
proof -
  have ok: "cbor_ok (CMap [(CText ''bb'', CNull), (CText ''a'', CNegative (-3))])" by code_simp
  have e: "encode (CMap [(CText ''bb'', CNull), (CText ''a'', CNegative (-3))]) =
    Inr [0xa2, 0x61, 0x61, 0x22, 0x62, 0x62, 0x62, 0xf6]" by code_simp
  have "canon (CMap [(CText ''bb'', CNull), (CText ''a'', CNegative (-3))]) =
    CMap [(CText ''a'', CNegative (-3)), (CText ''bb'', CNull)]" by code_simp
  with cbor_round_trip [OF ok e] show ?thesis by simp
qed

text \<open>
  Encodings are uniquely decodable: when one encoding is read off the front of a byte string, no
  other encoding can be, whatever follows. In particular no encoding is a prefix of another, and two
  values with the same encoding are the same up to the order of map entries.
\<close>

theorem cbor_uniquely_decodable:
  assumes "encode v = Inr a" and "encode w = Inr b" and "a @ r = b @ s" and "length (a @ r) < 2 ^ 64"
  shows "a = b \<and> r = s \<and> canon v = canon w"
  using encodes_uniquelyD [OF encode_unique assms] by blast

theorem cbor_uniquely_decodable_witness:
  "(let m = CMap [(CUnsigned 1, CNull), (CUnsigned 0, CBool True)];
        n = CMap [(CUnsigned 0, CBool True), (CUnsigned 1, CNull)]
    in encode m = Inr [0xa2, 0x00, 0xf5, 0x01, 0xf6] \<and> encode n = Inr [0xa2, 0x00, 0xf5, 0x01, 0xf6] \<and>
       m \<noteq> n \<and> canon m = canon n)"
proof -
  have 1: "encode (CMap [(CUnsigned 1, CNull), (CUnsigned 0, CBool True)]) = Inr [0xa2, 0x00, 0xf5, 0x01, 0xf6]"
    by code_simp
  have 2: "encode (CMap [(CUnsigned 0, CBool True), (CUnsigned 1, CNull)]) = Inr [0xa2, 0x00, 0xf5, 0x01, 0xf6]"
    by code_simp
  from cbor_uniquely_decodable [OF 1 2, of "[]" "[]"] 1 2 show ?thesis by (simp add: Let_def)
qed

end
