(* ===== verification/Digest.thy ===== *)
theory Digest
  imports Sha256 Cbor
begin

unbundle bit_operations_syntax

text \<open>
  \<open>crates/arkforge-core/src/digest/mod.rs\<close>: the domain separation table, the digests of a
  payload, of a canonical value and of a list of digests, HMAC-SHA-256 and the constant-time
  comparison. The hash is the streaming model of \<open>Sha256\<close>; what is shown of it here never
  depends on which function it is, so statements that rest on collision resistance name the two
  colliding inputs instead of assuming there are none.
\<close>

section \<open>Domains\<close>

datatype domain =
    DomPrivateAction
  | DomProviderExecutionPlan
  | DomPublicProjection
  | DomPublicStep
  | DomEffectSet
  | DomPlan
  | DomDeviceObservation
  | DomAdmissionDeviceFacts
  | DomUsbTopology
  | DomUsbDescriptor
  | DomDeviceSerial
  | DomRescueDeviceFacts
  | DomTransportSession
  | DomProviderFacts
  | DomToolchainFacts
  | DomArtifactFacts
  | DomArtifactManifest
  | DomDeviceProfile
  | DomAdmissionSnapshot
  | DomActionReceipt
  | DomPossibleEffectSet
  | DomJournalRecord
  | DomTranscript
  | DomRecoveryCoverage
  | DomRescuePlan
  | DomRescueReceipt
  | DomAuthoritySupportKey

fun domain_name :: "domain \<Rightarrow> string" where
  "domain_name DomPrivateAction = ''arkforge/v1/private-action''"
| "domain_name DomProviderExecutionPlan = ''arkforge/v1/provider-execution-plan''"
| "domain_name DomPublicProjection = ''arkforge/v1/public-projection''"
| "domain_name DomPublicStep = ''arkforge/v1/public-step''"
| "domain_name DomEffectSet = ''arkforge/v1/effect-set''"
| "domain_name DomPlan = ''arkforge/v1/plan''"
| "domain_name DomDeviceObservation = ''arkforge/v1/device-observation''"
| "domain_name DomAdmissionDeviceFacts = ''arkforge/v1/admission-device-facts''"
| "domain_name DomUsbTopology = ''arkforge/v1/usb-topology''"
| "domain_name DomUsbDescriptor = ''arkforge/v1/usb-descriptor''"
| "domain_name DomDeviceSerial = ''arkforge/v1/device-serial''"
| "domain_name DomRescueDeviceFacts = ''arkforge/v1/rescue-device-facts''"
| "domain_name DomTransportSession = ''arkforge/v1/transport-session''"
| "domain_name DomProviderFacts = ''arkforge/v1/provider-facts''"
| "domain_name DomToolchainFacts = ''arkforge/v1/toolchain-facts''"
| "domain_name DomArtifactFacts = ''arkforge/v1/artifact-facts''"
| "domain_name DomArtifactManifest = ''arkforge/v1/artifact-manifest''"
| "domain_name DomDeviceProfile = ''arkforge/v1/device-profile''"
| "domain_name DomAdmissionSnapshot = ''arkforge/v1/admission-snapshot''"
| "domain_name DomActionReceipt = ''arkforge/v1/action-receipt''"
| "domain_name DomPossibleEffectSet = ''arkforge/v1/possible-effect-set''"
| "domain_name DomJournalRecord = ''arkforge/v1/journal-record''"
| "domain_name DomTranscript = ''arkforge/v1/transcript''"
| "domain_name DomRecoveryCoverage = ''arkforge/v1/recovery-coverage''"
| "domain_name DomRescuePlan = ''arkforge/v1/rescue-plan''"
| "domain_name DomRescueReceipt = ''arkforge/v1/rescue-receipt''"
| "domain_name DomAuthoritySupportKey = ''arkforge/v1/authority-support-key''"

text \<open>\<open>Domain::as_bytes\<close>: the name and its terminating NUL.\<close>

definition domain_bytes :: "domain \<Rightarrow> bytes" where
  "domain_bytes d = str_bytes (domain_name d) @ [0]"

section \<open>Digests\<close>

definition digest_in_domain :: "domain \<Rightarrow> bytes \<Rightarrow> sha256_digest" where
  "digest_in_domain d payload =
     sha256_finalize (sha256_update (sha256_update sha256_new (domain_bytes d)) payload)"

definition digest_canonical :: "domain \<Rightarrow> cbor \<Rightarrow> cbor_error + sha256_digest" where
  "digest_canonical d v = rbind (encode v) (\<lambda>bs. Inr (digest_in_domain d bs))"

definition digest_ordered :: "domain \<Rightarrow> sha256_digest list \<Rightarrow> sha256_digest" where
  "digest_ordered d digests =
     sha256_finalize (foldl (\<lambda>h g. sha256_update h (as_bytes g))
       (sha256_update sha256_new (domain_bytes d)) digests)"

definition digest_to_cbor :: "sha256_digest \<Rightarrow> cbor" where
  "digest_to_cbor d = CBytes (as_bytes d)"

section \<open>HMAC and comparison\<close>

definition hmac_sha256 :: "bytes \<Rightarrow> bytes \<Rightarrow> sha256_digest" where
  "hmac_sha256 key message =
     (let padded = (if 64 < length key then copy_into 0 (as_bytes (sha256 key)) (replicate 64 0)
                    else copy_into 0 key (replicate 64 0));
          inner_key = map (\<lambda>b. b XOR 0x36) padded;
          outer_key = map (\<lambda>b. b XOR 0x5c) padded;
          inner_digest = sha256_finalize (sha256_update (sha256_update sha256_new inner_key) message)
      in sha256_finalize (sha256_update (sha256_update sha256_new outer_key) (as_bytes inner_digest)))"

definition constant_time_eq :: "sha256_digest \<Rightarrow> sha256_digest \<Rightarrow> bool" where
  "constant_time_eq l r =
     (foldl (\<lambda>difference (a, b). difference OR (a XOR b)) 0 (zip (as_bytes l) (as_bytes r)) = 0)"

section \<open>Specifications\<close>

text \<open>Two different inputs with one hash.\<close>

definition collides :: "bytes \<Rightarrow> bytes \<Rightarrow> bool" where
  "collides x y \<longleftrightarrow> x \<noteq> y \<and> sha256 x = sha256 y"

text \<open>RFC 2104: \<open>H((K XOR opad) || H((K XOR ipad) || text))\<close> with the key filled to a block.\<close>

definition hmac_spec :: "bytes \<Rightarrow> bytes \<Rightarrow> sha256_digest" where
  "hmac_spec key text =
     (let k0 = (if 64 < length key then as_bytes (sha256_spec key) else key);
          k = k0 @ replicate (64 - length k0) 0
      in sha256_spec (map2 (XOR) k (replicate 64 0x5c) @
           as_bytes (sha256_spec (map2 (XOR) k (replicate 64 0x36) @ text))))"

text \<open>Two messages with one tag under a key show a collision of the inner or of the outer hash.\<close>

definition hmac_pad :: "u8 \<Rightarrow> bytes \<Rightarrow> bytes" where
  "hmac_pad c key = map (\<lambda>b. b XOR c)
     (copy_into 0 (if 64 < length key then as_bytes (sha256 key) else key) (replicate 64 0))"

definition hmac_collides :: "bytes \<Rightarrow> bytes \<Rightarrow> bytes \<Rightarrow> bool" where
  "hmac_collides key x y \<longleftrightarrow>
     collides (hmac_pad 0x36 key @ x) (hmac_pad 0x36 key @ y) \<or>
     collides (hmac_pad 0x5c key @ as_bytes (sha256 (hmac_pad 0x36 key @ x)))
       (hmac_pad 0x5c key @ as_bytes (sha256 (hmac_pad 0x36 key @ y)))"

section \<open>Lemmas\<close>

lemma domain_name_inject: "domain_name d = domain_name e \<longleftrightarrow> d = e"
  by (cases d; cases e) simp_all

lemma domain_name_no_nul: "0 \<notin> set (str_bytes (domain_name d))"
  by (cases d) (simp_all add: str_bytes_def byte_of_char_def of_char_Char)

lemma append_nul_inject:
  fixes a :: bytes
  assumes "0 \<notin> set a" and "0 \<notin> set b"
  shows "a @ 0 # p = b @ 0 # q \<longleftrightarrow> a = b \<and> p = q"
proof
  assume eq: "a @ 0 # p = b @ 0 # q"
  have "takeWhile (\<lambda>x. x \<noteq> 0) (c @ 0 # r) = c" if "0 \<notin> set c" for c r :: bytes
    using that by (induction c) auto
  with assms have "a = b" using eq by metis
  with eq show "a = b \<and> p = q" by simp
qed simp

lemma domain_prefix_inject: "domain_bytes d @ p = domain_bytes e @ q \<longleftrightarrow> d = e \<and> p = q"
  using append_nul_inject [OF domain_name_no_nul domain_name_no_nul, of d p e q]
  by (simp add: domain_bytes_def domain_name_inject)

lemma digest_in_domain_eq: "digest_in_domain d p = sha256 (domain_bytes d @ p)"
  by (simp add: digest_in_domain_def sha.finish_two sha256_eq_spec)

lemma digest_ordered_eq: "digest_ordered d ds = sha256 (domain_bytes d @ concat (map as_bytes ds))"
proof -
  have "foldl (\<lambda>h g. sha256_update h (as_bytes g)) s ds = foldl sha256_update s (map as_bytes ds)" for s
    by (induction ds arbitrary: s) simp_all
  then show ?thesis by (simp add: digest_ordered_def sha.finish_many sha256_eq_spec)
qed

lemma concat_as_bytes_inject: "concat (map as_bytes ds) = concat (map as_bytes es) \<longleftrightarrow> ds = es"
proof
  assume "concat (map as_bytes ds) = concat (map as_bytes es)"
  then show "ds = es"
  proof (induction ds arbitrary: es)
    case Nil
    then show ?case by (cases es) (auto dest: arg_cong [of _ _ length])
  next
    case (Cons d ds)
    then obtain e es' where "es = e # es'" by (cases es) (auto dest: arg_cong [of _ _ length])
    with Cons show ?case by (simp add: append_eq_append_conv)
  qed
qed simp

lemma digest_in_domain_inject:
  "digest_in_domain d p = digest_in_domain e q \<longleftrightarrow>
     d = e \<and> p = q \<or> collides (domain_bytes d @ p) (domain_bytes e @ q)"
  using domain_prefix_inject [of d p e q] by (auto simp: digest_in_domain_eq collides_def)

lemma digest_canonical_binds:
  assumes "digest_canonical d v = Inr h" and "digest_canonical e w = Inr h"
    and "encode v = Inr bs" and "encode w = Inr cs" and "length bs < 2 ^ 64"
  shows "d = e \<and> canon v = canon w \<or> collides (domain_bytes d @ bs) (domain_bytes e @ cs)"
proof -
  from assms(1-4) have "digest_in_domain d bs = digest_in_domain e cs" by (simp add: digest_canonical_def)
  then show ?thesis
    using digest_in_domain_inject [of d bs e cs] encode_inject [OF assms(3) _ assms(5)] assms(4) by blast
qed

lemma or_fold_zero: "foldl (\<lambda>acc (a, b). acc OR (a XOR b)) x ps = (0 :: u8) \<longleftrightarrow> x = 0 \<and> (\<forall>(a, b) \<in> set ps. a = b)"
proof (induction ps arbitrary: x)
  case (Cons p ps)
  obtain a b where p: "p = (a, b)" by (cases p)
  have "a XOR b = 0 \<longleftrightarrow> a = b" by (auto simp: bit_eq_iff bit_simps)
  then have "x OR (a XOR b) = 0 \<longleftrightarrow> x = 0 \<and> a = b" by (simp add: or_eq_0_iff)
  with Cons p show ?case by auto
qed auto

lemma constant_time_eq_iff: "constant_time_eq l r \<longleftrightarrow> l = r"
proof -
  have "(\<forall>(a, b) \<in> set (zip (as_bytes l) (as_bytes r)). a = b) \<longleftrightarrow> as_bytes l = as_bytes r"
    by (auto simp: set_zip list_eq_iff_nth_eq)
  then show ?thesis by (simp add: constant_time_eq_def or_fold_zero)
qed

lemma hmac_eq: "hmac_sha256 key x = sha256 (hmac_pad 0x5c key @ as_bytes (sha256 (hmac_pad 0x36 key @ x)))"
  by (cases "64 < length key") (simp_all add: hmac_sha256_def hmac_pad_def Let_def sha.finish_two sha256_eq_spec)

lemma hmac_inject: "hmac_sha256 key x = hmac_sha256 key y \<longleftrightarrow> x = y \<or> hmac_collides key x y"
  unfolding hmac_eq hmac_collides_def collides_def by (metis append_same_eq as_bytes_inject same_append_eq)

section \<open>Properties\<close>

text \<open>
  C28. Domain separation: two digests taken in domains are equal only for the same domain and the same
  payload, or the two prefixed inputs are a SHA-256 collision. No domain string is a prefix of
  another one, so no payload can move a byte across the boundary.
\<close>

theorem domain_separation:
  "digest_in_domain d p = digest_in_domain e q \<longleftrightarrow>
     d = e \<and> p = q \<or> collides (domain_bytes d @ p) (domain_bytes e @ q)"
  by (rule digest_in_domain_inject)

text \<open>
  The digest of a list of digests binds the list: its elements, their order and their number, or
  the two inputs are a collision.
\<close>

theorem digest_ordered_binds_list:
  "digest_ordered d ds = digest_ordered e es \<longleftrightarrow> d = e \<and> ds = es \<or>
     collides (domain_bytes d @ concat (map as_bytes ds)) (domain_bytes e @ concat (map as_bytes es))"
  using domain_prefix_inject [of d _ e] by (auto simp: digest_ordered_eq collides_def concat_as_bytes_inject)

text \<open>
  The permit tag function is HMAC as RFC 2104 defines it over FIPS SHA-256, for every key length.
\<close>

theorem hmac_is_rfc2104: "hmac_sha256 key text = hmac_spec key text"
proof -
  have "map2 (XOR) k (replicate 64 c) = map (\<lambda>b. b XOR c) k" if "length k = 64" for k and c :: u8
    using that by (simp add: map2_map_map zip_replicate2 comp_def)
  moreover have "copy_into 0 k (replicate 64 0) = k @ replicate (64 - length k) (0 :: u8)" for k
    by (simp add: copy_into_def)
  ultimately show ?thesis
    by (simp add: hmac_sha256_def hmac_spec_def Let_def sha.finish_two sha256_eq_spec)
qed
end
