(* ===== verification/Core_Types.thy ===== *)
theory Core_Types
  imports Digest
begin

text \<open>
  The small shared types of \<open>crates/arkforge-core/src\<close>: identifiers (\<open>ids.rs\<close>), how an
  action ended (\<open>outcome.rs\<close>) and the neutral authority references (\<open>authority.rs\<close>). An
  identifier can only be built from a short ASCII string over a closed alphabet, and each canonical
  form determines its value.
\<close>

section \<open>Identifiers\<close>

definition MAX_ID_LEN :: nat where
  "MAX_ID_LEN = 128"

text \<open>\<open>IdInvalidCharacter\<close> carries the offending character as the bytes that spell it.\<close>

datatype id_error =
    IdEmpty
  | IdTooLong nat
  | IdInvalidCharacter string

datatype opaque_id = OpaqueId (as_str: string)

type_synonym plan_id = opaque_id
type_synonym step_id = opaque_id
type_synonym action_id = opaque_id
type_synonym job_id = opaque_id
type_synonym attempt_id = opaque_id
type_synonym permit_id = opaque_id
type_synonym controller_session_id = opaque_id
type_synonym observation_id = opaque_id
type_synonym partition_id = opaque_id
type_synonym region_id = opaque_id
type_synonym artifact_id = opaque_id
type_synonym authority_namespace = opaque_id

definition is_ascii_digit :: "char \<Rightarrow> bool" where
  "is_ascii_digit c \<longleftrightarrow> CHR ''0'' \<le> c \<and> c \<le> CHR ''9''"

definition is_ascii_lowercase :: "char \<Rightarrow> bool" where
  "is_ascii_lowercase c \<longleftrightarrow> CHR ''a'' \<le> c \<and> c \<le> CHR ''z''"

definition is_ascii_uppercase :: "char \<Rightarrow> bool" where
  "is_ascii_uppercase c \<longleftrightarrow> CHR ''A'' \<le> c \<and> c \<le> CHR ''Z''"

definition id_char :: "char \<Rightarrow> bool" where
  "id_char c \<longleftrightarrow> is_ascii_digit c \<or> is_ascii_lowercase c \<or> is_ascii_uppercase c \<or> c \<in> set ''._:-''"

definition opaque_id_new :: "string \<Rightarrow> id_error + opaque_id" where
  "opaque_id_new value =
     (if value = [] then Inl IdEmpty
      else if MAX_ID_LEN < length value then Inl (IdTooLong (length value))
      else case find (\<lambda>ch. \<not> (length ch = 1 \<and> id_char (ch ! 0))) (utf8_chars value) of
        Some ch \<Rightarrow> Inl (IdInvalidCharacter ch)
      | None \<Rightarrow> Inr (OpaqueId value))"

definition id_to_cbor :: "opaque_id \<Rightarrow> cbor" where
  "id_to_cbor i = CText (as_str i)"

section \<open>How an action ended\<close>

datatype action_disposition =
    SemanticSuccess
  | ConfirmedNoEffect
  | ConfirmedPartialEffect
  | OutcomeUnknown

fun disposition_as_str :: "action_disposition \<Rightarrow> string" where
  "disposition_as_str SemanticSuccess = ''semanticSuccess''"
| "disposition_as_str ConfirmedNoEffect = ''confirmedNoEffect''"
| "disposition_as_str ConfirmedPartialEffect = ''confirmedPartialEffect''"
| "disposition_as_str OutcomeUnknown = ''outcomeUnknown''"

definition disposition_to_cbor :: "action_disposition \<Rightarrow> cbor" where
  "disposition_to_cbor d = CText (disposition_as_str d)"

section \<open>Authority references\<close>

record authority_binding_ref =
  abr_authority_namespace :: authority_namespace
  abr_binding_id :: opaque_id
  abr_binding_revision :: u64
  abr_stable_identity_digest :: sha256_digest

datatype authority_support_state =
    ASProductionVerified
  | ASHardwareCampaign string
  | ASHardwareGated string

fun support_permits_execution :: "authority_support_state \<Rightarrow> bool" where
  "support_permits_execution ASProductionVerified = True"
| "support_permits_execution (ASHardwareCampaign campaign) = True"
| "support_permits_execution (ASHardwareGated blocker) = False"

fun support_as_str :: "authority_support_state \<Rightarrow> string" where
  "support_as_str ASProductionVerified = ''productionVerified''"
| "support_as_str (ASHardwareCampaign campaign) = ''hardwareCampaign''"
| "support_as_str (ASHardwareGated blocker) = ''hardwareGated''"

fun support_campaign :: "authority_support_state \<Rightarrow> string option" where
  "support_campaign (ASHardwareCampaign campaign) = Some campaign"
| "support_campaign _ = None"

fun support_blocker :: "authority_support_state \<Rightarrow> string option" where
  "support_blocker (ASHardwareGated blocker) = Some blocker"
| "support_blocker _ = None"

definition opt_text :: "string option \<Rightarrow> cbor" where
  "opt_text t = (case t of Some s \<Rightarrow> CText s | None \<Rightarrow> CNull)"

definition support_state_to_cbor :: "authority_support_state \<Rightarrow> cbor" where
  "support_state_to_cbor s = cbor_map [
     (''state'', CText (support_as_str s)),
     (''campaign'', opt_text (support_campaign s)),
     (''blocker'', opt_text (support_blocker s))]"

record authority_support_binding =
  asb_key_digest :: sha256_digest
  asb_state :: authority_support_state

definition support_binding_to_cbor :: "authority_support_binding \<Rightarrow> cbor" where
  "support_binding_to_cbor b = cbor_map [
     (''keyDigest'', digest_to_cbor (asb_key_digest b)),
     (''state'', support_state_to_cbor (asb_state b))]"

definition binding_ref_to_cbor :: "authority_binding_ref \<Rightarrow> cbor" where
  "binding_ref_to_cbor b = cbor_map [
     (''authorityNamespace'', id_to_cbor (abr_authority_namespace b)),
     (''bindingId'', id_to_cbor (abr_binding_id b)),
     (''bindingRevision'', CUnsigned (abr_binding_revision b)),
     (''stableIdentityDigest'', digest_to_cbor (abr_stable_identity_digest b))]"

declare digest_to_cbor_def [to_cbor_defs]
  id_to_cbor_def [to_cbor_defs]
  disposition_to_cbor_def [to_cbor_defs]
  opt_text_def [to_cbor_defs]
  support_state_to_cbor_def [to_cbor_defs]
  support_binding_to_cbor_def [to_cbor_defs]
  binding_ref_to_cbor_def [to_cbor_defs]

section \<open>Lemmas\<close>

lemma id_char_ascii: "id_char c \<Longrightarrow> byte_of_char c < 0x80"
proof -
  assume "id_char c"
  then have "(of_char c :: nat) < 128"
    by (auto simp: id_char_def is_ascii_digit_def is_ascii_lowercase_def is_ascii_uppercase_def
        less_eq_char_def)
  then show ?thesis
    by (simp add: byte_of_char_def word_less_nat_alt unat_of_nat_byte)
qed

lemma opaque_id_new_iff:
  "opaque_id_new v = Inr i \<longleftrightarrow>
     as_str i = v \<and> v \<noteq> [] \<and> length v \<le> MAX_ID_LEN \<and> (\<forall>c \<in> set v. id_char c)"
proof -
  let ?bad = "\<lambda>ch. \<not> (length ch = 1 \<and> id_char (ch ! 0))"
  have "find ?bad (utf8_chars v) = None \<longleftrightarrow> (\<forall>c \<in> set v. id_char c)"
  proof
    assume "find ?bad (utf8_chars v) = None"
    then have "\<forall>ch \<in> set (utf8_chars v). length ch = 1 \<and> id_char (ch ! 0)"
      by (auto simp: find_None_iff)
    then have "\<forall>ch \<in> set (utf8_chars v). \<forall>c \<in> set ch. id_char c"
      by (auto simp: length_Suc_conv)
    then show "\<forall>c \<in> set v. id_char c" by (metis UN_E concat_utf8_chars set_concat)
  next
    assume "\<forall>c \<in> set v. id_char c"
    then have "utf8_chars v = map (\<lambda>c. [c]) v"
      by (intro utf8_chars_ascii) (auto intro: id_char_ascii)
    with \<open>\<forall>c \<in> set v. id_char c\<close> show "find ?bad (utf8_chars v) = None"
      by (auto simp: find_None_iff)
  qed
  then show ?thesis
    by (cases i) (auto simp: opaque_id_new_def not_le split: option.splits)
qed

lemma id_to_cbor_inject [cbor_inject, simp]: "canon (id_to_cbor i) = canon (id_to_cbor j) \<longleftrightarrow> i = j"
  by (cases i; cases j) (simp add: id_to_cbor_def)

lemma digest_to_cbor_inject [cbor_inject, simp]:
  "canon (digest_to_cbor a) = canon (digest_to_cbor b) \<longleftrightarrow> a = b"
  by (simp add: digest_to_cbor_def)

lemma opt_text_inject [cbor_inject, simp]: "canon (opt_text a) = canon (opt_text b) \<longleftrightarrow> a = b"
  by (auto simp: opt_text_def split: option.splits)

lemma disposition_to_cbor_inject [cbor_inject]:
  "canon (disposition_to_cbor a) = canon (disposition_to_cbor b) \<longleftrightarrow> a = b"
  by (cases a; cases b) (simp_all add: disposition_to_cbor_def)

lemma support_state_to_cbor_inject [cbor_inject]:
  "canon (support_state_to_cbor a) = canon (support_state_to_cbor b) \<longleftrightarrow> a = b"
  unfolding support_state_to_cbor_def
  by (subst canon_record_iff, simp, simp, cases a; cases b) simp_all

lemma support_binding_to_cbor_inject [cbor_inject]:
  "canon (support_binding_to_cbor a) = canon (support_binding_to_cbor b) \<longleftrightarrow> a = b"
  unfolding support_binding_to_cbor_def
  by (subst canon_record_iff, simp, simp, cases a; cases b) (simp add: cbor_inject)

lemma binding_ref_to_cbor_inject [cbor_inject]:
  "canon (binding_ref_to_cbor a) = canon (binding_ref_to_cbor b) \<longleftrightarrow> a = b"
  unfolding binding_ref_to_cbor_def
  by (subst canon_record_iff, simp, simp, cases a; cases b) (simp add: cbor_inject)

section \<open>Properties\<close>

text \<open>
  An identifier exists exactly for the strings of one to 128 bytes over \<open>A-Z a-z 0-9 . _ : -\<close>,
  and it keeps the string as it was given.
\<close>

theorem opaque_id_new_accepts:
  "opaque_id_new v = Inr i \<longleftrightarrow>
     as_str i = v \<and> v \<noteq> [] \<and> length v \<le> MAX_ID_LEN \<and> (\<forall>c \<in> set v. id_char c)"
  by (rule opaque_id_new_iff)

theorem opaque_id_new_accepts_witness:
  "opaque_id_new ''plan-7'' = Inr (OpaqueId ''plan-7'')"
proof -
  have "as_str (OpaqueId ''plan-7'') = ''plan-7'' \<and> ''plan-7'' \<noteq> [] \<and> length ''plan-7'' \<le> MAX_ID_LEN \<and>
      (\<forall>c \<in> set ''plan-7''. id_char c)"
    by (simp add: MAX_ID_LEN_def id_char_def is_ascii_digit_def is_ascii_lowercase_def
        is_ascii_uppercase_def less_eq_char_def)
  then show ?thesis using opaque_id_new_accepts [of "''plan-7''"] by blast
qed

end
