(* ===== verification/Effect.thy ===== *)
theory Effect
  imports Core_Types
begin

text \<open>
  \<open>crates/arkforge-core/src/effect.rs\<close>: what a plan does to a device. Byte ranges are exact and
  cannot overflow, every data-impact axis is settled before a plan is executable, and two effects on
  one partition never overlap. The release profile builds with \<open>overflow-checks = true\<close> and
  \<open>panic = "abort"\<close>, so a \<open>+\<close> that overflows ends the process: where the source adds
  without checking, the model returns an option and \<^term>\<open>None\<close> is that abort.
\<close>

section \<open>Byte ranges\<close>

record byte_range =
  br_start :: u64
  br_length :: u64

datatype effect_error =
    EmptyRange
  | RangeOverflow u64 u64
  | InvalidModeName string
  | InvalidAgentStage string
  | UnknownDataImpact "string list"
  | OverlappingEffects string byte_range byte_range

definition byte_range_new :: "u64 \<Rightarrow> u64 \<Rightarrow> effect_error + byte_range" where
  "byte_range_new start len =
     (if len = 0 then Inl EmptyRange
      else rbind (ok_or (checked_add start len) (RangeOverflow start len)) (\<lambda>_.
        Inr \<lparr>br_start = start, br_length = len\<rparr>))"

definition end_exclusive :: "byte_range \<Rightarrow> u64 option" where
  "end_exclusive r = checked_add (br_start r) (br_length r)"

definition contains_range :: "byte_range \<Rightarrow> byte_range \<Rightarrow> bool option" where
  "contains_range self other =
     (if br_start self \<le> br_start other then
        Option.bind (end_exclusive other) (\<lambda>oe. Option.bind (end_exclusive self) (\<lambda>se. Some (oe \<le> se)))
      else Some False)"

definition overlaps :: "byte_range \<Rightarrow> byte_range \<Rightarrow> bool option" where
  "overlaps self other =
     Option.bind (end_exclusive other) (\<lambda>oe.
       if br_start self < oe then Option.bind (end_exclusive self) (\<lambda>se. Some (br_start other < se))
       else Some False)"

definition byte_range_to_cbor :: "byte_range \<Rightarrow> cbor" where
  "byte_range_to_cbor r = cbor_map [
     (''start'', CUnsigned (br_start r)), (''length'', CUnsigned (br_length r))]"

section \<open>Parts of an effect\<close>

datatype boot_metadata_field = ActiveSlot | BootCount | UpdaterCommand | LockState

fun boot_field_as_str :: "boot_metadata_field \<Rightarrow> string" where
  "boot_field_as_str ActiveSlot = ''activeSlot''"
| "boot_field_as_str BootCount = ''bootCount''"
| "boot_field_as_str UpdaterCommand = ''updaterCommand''"
| "boot_field_as_str LockState = ''lockState''"

datatype typed_value = TVText string | TVInteger i64 | TVBool bool

fun typed_value_to_cbor :: "typed_value \<Rightarrow> cbor" where
  "typed_value_to_cbor (TVText s) = cbor_map [(''text'', CText s)]"
| "typed_value_to_cbor (TVInteger i) = cbor_map [(''integer'', cbor_integer i)]"
| "typed_value_to_cbor (TVBool b) = cbor_map [(''bool'', CBool b)]"

datatype device_mode = DeviceMode (mode_str: string)

definition device_mode_new :: "string \<Rightarrow> effect_error + device_mode" where
  "device_mode_new v =
     (if v = [] \<or> 64 < length v then Inl (InvalidModeName v)
      else if list_all (\<lambda>ch. length ch = 1 \<and>
        (is_ascii_lowercase (ch ! 0) \<or> is_ascii_digit (ch ! 0) \<or> ch = ''-'')) (utf8_chars v)
      then Inr (DeviceMode v) else Inl (InvalidModeName v))"

definition mode_to_cbor :: "device_mode \<Rightarrow> cbor" where
  "mode_to_cbor m = CText (mode_str m)"

datatype agent_stage = AgentStage (stage_str: string)

definition agent_stage_new :: "string \<Rightarrow> effect_error + agent_stage" where
  "agent_stage_new v =
     (if v = [] \<or> 64 < length v then Inl (InvalidAgentStage v) else Inr (AgentStage v))"

definition stage_to_cbor :: "agent_stage \<Rightarrow> cbor" where
  "stage_to_cbor s = CText (stage_str s)"

record memory_region =
  mr_base_address :: u64
  mr_length :: u64

definition memory_region_to_cbor :: "memory_region \<Rightarrow> cbor" where
  "memory_region_to_cbor r = cbor_map [
     (''baseAddress'', CUnsigned (mr_base_address r)), (''length'', CUnsigned (mr_length r))]"

section \<open>Effects\<close>

datatype persistent_effect =
    ErasePartition partition_id byte_range
  | WritePartition partition_id byte_range sha256_digest
  | WriteRawRegion region_id byte_range sha256_digest
  | ReplacePartitionTable sha256_digest
  | ChangeBootMetadata boot_metadata_field typed_value

fun effect_partition :: "persistent_effect \<Rightarrow> partition_id option" where
  "effect_partition (ErasePartition p r) = Some p"
| "effect_partition (WritePartition p r c) = Some p"
| "effect_partition _ = None"

fun effect_range :: "persistent_effect \<Rightarrow> byte_range option" where
  "effect_range (ErasePartition p r) = Some r"
| "effect_range (WritePartition p r c) = Some r"
| "effect_range (WriteRawRegion g r c) = Some r"
| "effect_range _ = None"

fun persistent_to_cbor :: "persistent_effect \<Rightarrow> cbor" where
  "persistent_to_cbor (ErasePartition p r) = cbor_map [
     (''kind'', CText ''erasePartition''), (''partition'', id_to_cbor p), (''range'', byte_range_to_cbor r)]"
| "persistent_to_cbor (WritePartition p r c) = cbor_map [
     (''kind'', CText ''writePartition''), (''partition'', id_to_cbor p), (''range'', byte_range_to_cbor r),
     (''content'', digest_to_cbor c)]"
| "persistent_to_cbor (WriteRawRegion g r c) = cbor_map [
     (''kind'', CText ''writeRawRegion''), (''region'', id_to_cbor g), (''range'', byte_range_to_cbor r),
     (''content'', digest_to_cbor c)]"
| "persistent_to_cbor (ReplacePartitionTable l) = cbor_map [
     (''kind'', CText ''replacePartitionTable''), (''layoutDigest'', digest_to_cbor l)]"
| "persistent_to_cbor (ChangeBootMetadata f v) = cbor_map [
     (''kind'', CText ''changeBootMetadata''), (''field'', CText (boot_field_as_str f)),
     (''expectedValue'', typed_value_to_cbor v)]"

datatype transient_effect =
    EnterMode device_mode device_mode
  | LoadEphemeralAgent agent_stage memory_region sha256_digest
  | UsbDetachReattach sha256_digest
  | Reboot device_mode

fun transient_to_cbor :: "transient_effect \<Rightarrow> cbor" where
  "transient_to_cbor (EnterMode f t) = cbor_map [
     (''kind'', CText ''enterMode''), (''from'', mode_to_cbor f), (''to'', mode_to_cbor t)]"
| "transient_to_cbor (LoadEphemeralAgent s m c) = cbor_map [
     (''kind'', CText ''loadEphemeralAgent''), (''stage'', stage_to_cbor s),
     (''memoryRegion'', memory_region_to_cbor m), (''content'', digest_to_cbor c)]"
| "transient_to_cbor (UsbDetachReattach e) = cbor_map [
     (''kind'', CText ''usbDetachReattach''), (''expectationDigest'', digest_to_cbor e)]"
| "transient_to_cbor (Reboot t) = cbor_map [
     (''kind'', CText ''reboot''), (''targetMode'', mode_to_cbor t)]"

section \<open>Data impact and the effect set\<close>

datatype data_impact_state = Preserved | Overwritten | ImpactUnknown

fun impact_as_str :: "data_impact_state \<Rightarrow> string" where
  "impact_as_str Preserved = ''preserved''"
| "impact_as_str Overwritten = ''overwritten''"
| "impact_as_str ImpactUnknown = ''unknown''"

record data_impact =
  di_userdata :: data_impact_state
  di_calibration :: data_impact_state
  di_non_volatile_config :: data_impact_state
  di_secure_storage :: data_impact_state

definition all_unknown :: data_impact where
  "all_unknown = \<lparr>di_userdata = ImpactUnknown, di_calibration = ImpactUnknown,
     di_non_volatile_config = ImpactUnknown, di_secure_storage = ImpactUnknown\<rparr>"

definition unknown_axes :: "data_impact \<Rightarrow> string list" where
  "unknown_axes d =
     (if di_userdata d = ImpactUnknown then [''userdata''] else []) @
     (if di_calibration d = ImpactUnknown then [''calibration''] else []) @
     (if di_non_volatile_config d = ImpactUnknown then [''nonVolatileConfig''] else []) @
     (if di_secure_storage d = ImpactUnknown then [''secureStorage''] else [])"

definition data_impact_to_cbor :: "data_impact \<Rightarrow> cbor" where
  "data_impact_to_cbor d = cbor_map [
     (''userdata'', CText (impact_as_str (di_userdata d))),
     (''calibration'', CText (impact_as_str (di_calibration d))),
     (''nonVolatileConfig'', CText (impact_as_str (di_non_volatile_config d))),
     (''secureStorage'', CText (impact_as_str (di_secure_storage d)))]"

record effect_set =
  es_persistent :: "persistent_effect list"
  es_transient :: "transient_effect list"
  es_data_impact :: data_impact

definition read_only :: effect_set where
  "read_only = \<lparr>es_persistent = [], es_transient = [],
     es_data_impact = \<lparr>di_userdata = Preserved, di_calibration = Preserved,
       di_non_volatile_config = Preserved, di_secure_storage = Preserved\<rparr>\<rparr>"

definition effect_set_to_cbor :: "effect_set \<Rightarrow> cbor" where
  "effect_set_to_cbor e = cbor_map [
     (''persistent'', CArray (map persistent_to_cbor (es_persistent e))),
     (''transient'', CArray (map transient_to_cbor (es_transient e))),
     (''dataImpact'', data_impact_to_cbor (es_data_impact e))]"

definition effect_set_digest :: "effect_set \<Rightarrow> cbor_error + sha256_digest" where
  "effect_set_digest e = digest_canonical DomEffectSet (effect_set_to_cbor e)"

text \<open>The nested loop of \<open>validate_executable\<close>: one pair, one row, all rows.\<close>

definition check_pair :: "persistent_effect \<Rightarrow> persistent_effect \<Rightarrow> (effect_error + unit) option" where
  "check_pair left right =
     (case (effect_partition left, effect_partition right) of
        (Some lp, Some rp) \<Rightarrow>
          if lp \<noteq> rp then Some (Inr ())
          else (case (effect_range left, effect_range right) of
            (Some lr, Some rr) \<Rightarrow> Option.bind (overlaps lr rr) (\<lambda>b.
              if b then Some (Inl (OverlappingEffects (as_str lp) lr rr)) else Some (Inr ()))
          | _ \<Rightarrow> Some (Inr ()))
      | _ \<Rightarrow> Some (Inr ()))"

fun check_row :: "persistent_effect \<Rightarrow> persistent_effect list \<Rightarrow> (effect_error + unit) option" where
  "check_row left [] = Some (Inr ())"
| "check_row left (right # rest) =
     Option.bind (check_pair left right) (\<lambda>r. case r of Inl e \<Rightarrow> Some (Inl e) | Inr _ \<Rightarrow> check_row left rest)"

fun check_rows :: "persistent_effect list \<Rightarrow> (effect_error + unit) option" where
  "check_rows [] = Some (Inr ())"
| "check_rows (left # rest) =
     Option.bind (check_row left rest) (\<lambda>r. case r of Inl e \<Rightarrow> Some (Inl e) | Inr _ \<Rightarrow> check_rows rest)"

definition validate_executable :: "effect_set \<Rightarrow> (effect_error + unit) option" where
  "validate_executable e =
     (let unknown = unknown_axes (es_data_impact e) in
      if unknown \<noteq> [] then Some (Inl (UnknownDataImpact unknown))
      else check_rows (es_persistent e))"

declare byte_range_to_cbor_def [to_cbor_defs]
  mode_to_cbor_def [to_cbor_defs]
  stage_to_cbor_def [to_cbor_defs]
  memory_region_to_cbor_def [to_cbor_defs]
  data_impact_to_cbor_def [to_cbor_defs]
  effect_set_to_cbor_def [to_cbor_defs]

section \<open>What the checks are measured against\<close>

definition byte_range_wf :: "byte_range \<Rightarrow> bool" where
  "byte_range_wf r \<longleftrightarrow> br_length r \<noteq> 0 \<and> unat (br_start r) + unat (br_length r) < 2 ^ 64"

definition range_bytes :: "byte_range \<Rightarrow> nat set" where
  "range_bytes r = {unat (br_start r) ..< unat (br_start r) + unat (br_length r)}"

definition effect_wf :: "persistent_effect \<Rightarrow> bool" where
  "effect_wf e \<longleftrightarrow> (case effect_range e of None \<Rightarrow> True | Some r \<Rightarrow> byte_range_wf r)"

text \<open>Both effects touch one partition and share a byte of it.\<close>

definition effects_conflict :: "persistent_effect \<Rightarrow> persistent_effect \<Rightarrow> bool" where
  "effects_conflict a b \<longleftrightarrow>
     (case (effect_partition a, effect_partition b, effect_range a, effect_range b) of
        (Some p, Some q, Some r, Some s) \<Rightarrow> p = q \<and> range_bytes r \<inter> range_bytes s \<noteq> {}
      | _ \<Rightarrow> False)"

section \<open>Lemmas: ranges\<close>

lemma byte_range_new_iff:
  "byte_range_new s l = Inr r \<longleftrightarrow> br_start r = s \<and> br_length r = l \<and> byte_range_wf r"
  by (cases r) (auto simp: byte_range_new_def byte_range_wf_def checked_add_Some_iff)

lemma end_exclusive_wf: "byte_range_wf r \<Longrightarrow> end_exclusive r = Some (br_start r + br_length r)"
  by (simp add: end_exclusive_def byte_range_wf_def checked_add_def)

lemma unat_end_wf: "byte_range_wf r \<Longrightarrow> unat (br_start r + br_length r) = unat (br_start r) + unat (br_length r)"
  by (simp add: byte_range_wf_def unat_word_ariths)

lemma range_length_pos: "byte_range_wf r \<Longrightarrow> 0 < unat (br_length r)"
  by (simp add: byte_range_wf_def unat_gt_0)

lemma contains_range_wf:
  assumes "byte_range_wf a" and "byte_range_wf b"
  shows "contains_range a b = Some (range_bytes b \<subseteq> range_bytes a)"
  using assms range_length_pos [OF assms(2)]
  by (auto simp: contains_range_def end_exclusive_wf range_bytes_def word_le_nat_alt unat_end_wf
      ivl_subset)

lemma overlaps_wf:
  assumes "byte_range_wf a" and "byte_range_wf b"
  shows "overlaps a b = Some (range_bytes a \<inter> range_bytes b \<noteq> {})"
proof -
  let ?a = "unat (br_start a)" and ?b = "unat (br_start b)"
  let ?m = "unat (br_length a)" and ?n = "unat (br_length b)"
  have "range_bytes a \<inter> range_bytes b \<noteq> {} \<longleftrightarrow> ?a < ?b + ?n \<and> ?b < ?a + ?m"
    using range_length_pos [OF assms(1)] range_length_pos [OF assms(2)]
    unfolding range_bytes_def by auto
  then show ?thesis
    using assms by (simp add: overlaps_def end_exclusive_wf word_less_nat_alt unat_end_wf)
qed

section \<open>Lemmas: executability\<close>

lemma check_pair_wf:
  assumes "effect_wf a" and "effect_wf b"
  shows "\<exists>r. check_pair a b = Some r \<and> (r = Inr () \<longleftrightarrow> \<not> effects_conflict a b)"
  using assms
  by (auto simp: check_pair_def effects_conflict_def effect_wf_def overlaps_wf split: option.splits)

lemma check_row_wf:
  assumes "effect_wf a" and "\<forall>b \<in> set bs. effect_wf b"
  shows "\<exists>r. check_row a bs = Some r \<and> (r = Inr () \<longleftrightarrow> (\<forall>b \<in> set bs. \<not> effects_conflict a b))"
  using assms(2)
proof (induction bs)
  case (Cons b bs)
  obtain r where "check_pair a b = Some r" "r = Inr () \<longleftrightarrow> \<not> effects_conflict a b"
    using check_pair_wf [OF assms(1)] Cons.prems by auto
  with Cons show ?case by (cases r) auto
qed simp

lemma check_rows_wf:
  assumes "\<forall>b \<in> set es. effect_wf b"
  shows "\<exists>r. check_rows es = Some r \<and> (r = Inr () \<longleftrightarrow> sorted_wrt (\<lambda>a b. \<not> effects_conflict a b) es)"
  using assms
proof (induction es)
  case (Cons e es)
  obtain r where "check_row e es = Some r" "r = Inr () \<longleftrightarrow> (\<forall>b \<in> set es. \<not> effects_conflict e b)"
    using check_row_wf [of e es] Cons.prems by auto
  with Cons show ?case by (cases r) auto
qed simp

section \<open>Lemmas: canonical forms\<close>

lemma byte_range_to_cbor_inject [cbor_inject]:
  "canon (byte_range_to_cbor a) = canon (byte_range_to_cbor b) \<longleftrightarrow> a = b"
  unfolding byte_range_to_cbor_def
  by (subst canon_record_iff, simp, simp, cases a; cases b) simp

lemma memory_region_to_cbor_inject [cbor_inject]:
  "canon (memory_region_to_cbor a) = canon (memory_region_to_cbor b) \<longleftrightarrow> a = b"
  unfolding memory_region_to_cbor_def
  by (subst canon_record_iff, simp, simp, cases a; cases b) simp

lemma mode_to_cbor_inject [cbor_inject]: "canon (mode_to_cbor a) = canon (mode_to_cbor b) \<longleftrightarrow> a = b"
  by (cases a; cases b) (simp add: mode_to_cbor_def)

lemma stage_to_cbor_inject [cbor_inject]: "canon (stage_to_cbor a) = canon (stage_to_cbor b) \<longleftrightarrow> a = b"
  by (cases a; cases b) (simp add: stage_to_cbor_def)

lemma cbor_integer_inject [cbor_inject]: "canon (cbor_integer a) = canon (cbor_integer b) \<longleftrightarrow> a = b"
  by (auto simp: cbor_integer_def split: if_splits)

lemma boot_field_inject [cbor_inject]: "boot_field_as_str a = boot_field_as_str b \<longleftrightarrow> a = b"
  by (cases a; cases b) simp_all

lemma impact_as_str_inject [cbor_inject]: "impact_as_str a = impact_as_str b \<longleftrightarrow> a = b"
  by (cases a; cases b) simp_all

lemma typed_value_to_cbor_inject [cbor_inject]:
  "canon (typed_value_to_cbor a) = canon (typed_value_to_cbor b) \<longleftrightarrow> a = b"
proof (cases a; cases b)
qed (auto simp: canon_record_iff cbor_inject canon_differ [where k = "''text''"]
    canon_differ [where k = "''integer''"] canon_differ [where k = "''bool''"])

lemma persistent_to_cbor_inject [cbor_inject]:
  "canon (persistent_to_cbor a) = canon (persistent_to_cbor b) \<longleftrightarrow> a = b"
  by (cases a; cases b) (auto simp: canon_record_iff cbor_inject canon_differ [where k = "''kind''"])

lemma transient_to_cbor_inject [cbor_inject]:
  "canon (transient_to_cbor a) = canon (transient_to_cbor b) \<longleftrightarrow> a = b"
  by (cases a; cases b) (auto simp: canon_record_iff cbor_inject canon_differ [where k = "''kind''"])

lemma data_impact_to_cbor_inject [cbor_inject]:
  "canon (data_impact_to_cbor a) = canon (data_impact_to_cbor b) \<longleftrightarrow> a = b"
  unfolding data_impact_to_cbor_def
  by (subst canon_record_iff, simp, simp, cases a; cases b) (simp add: cbor_inject)

lemma effect_set_to_cbor_inject [cbor_inject]:
  "canon (effect_set_to_cbor a) = canon (effect_set_to_cbor b) \<longleftrightarrow> a = b"
  unfolding effect_set_to_cbor_def
  by (subst canon_record_iff, simp, simp, cases a; cases b)
    (simp add: cbor_inject canon_array_inject del: canon.simps)
section \<open>Properties\<close>

text \<open>
  C31. Byte ranges mean sets of bytes: for two ranges that the constructor accepts, neither
  \<open>contains_range\<close> nor \<open>overlaps\<close> can overflow, and they decide inclusion and
  intersection of the byte sets.
\<close>

theorem byte_ranges_are_sets:
  assumes "byte_range_new s l = Inr a" and "byte_range_new t m = Inr b"
  shows "contains_range a b = Some (range_bytes b \<subseteq> range_bytes a) \<and>
    overlaps a b = Some (range_bytes a \<inter> range_bytes b \<noteq> {})"
  using assms contains_range_wf overlaps_wf by (simp add: byte_range_new_iff)

theorem byte_ranges_are_sets_witness:
  "(let a = \<lparr>br_start = 10, br_length = 5\<rparr>; b = \<lparr>br_start = 2 ^ 63, br_length = 2 ^ 63 - 1\<rparr>
    in byte_range_new 10 5 = Inr a \<and> byte_range_new (2 ^ 63) (2 ^ 63 - 1) = Inr b \<and>
       contains_range a b = Some (range_bytes b \<subseteq> range_bytes a) \<and>
       overlaps a b = Some (range_bytes a \<inter> range_bytes b \<noteq> {}))"
proof -
  have a: "byte_range_new 10 5 = Inr \<lparr>br_start = 10, br_length = 5\<rparr>"
    by (simp add: byte_range_new_def checked_add_def)
  have b: "byte_range_new (2 ^ 63) (2 ^ 63 - 1) = Inr \<lparr>br_start = 2 ^ 63, br_length = 2 ^ 63 - 1\<rparr>"
    by (simp add: byte_range_new_def checked_add_def)
  from byte_ranges_are_sets [OF a b] a b show ?thesis by (simp add: Let_def)
qed

text \<open>
  C30. \<open>validate_executable\<close> decides executability: on well-formed ranges it never aborts, and it
  accepts exactly the effect sets in which every data-impact axis is settled and no two effects on
  one partition share a byte.
\<close>

theorem validate_executable_decides:
  assumes "\<forall>e \<in> set (es_persistent s). effect_wf e"
  shows "\<exists>r. validate_executable s = Some r \<and>
    (r = Inr () \<longleftrightarrow> ImpactUnknown \<notin> {di_userdata (es_data_impact s), di_calibration (es_data_impact s),
         di_non_volatile_config (es_data_impact s), di_secure_storage (es_data_impact s)} \<and>
       (\<forall>i j. i < j \<longrightarrow> j < length (es_persistent s) \<longrightarrow>
          \<not> effects_conflict (es_persistent s ! i) (es_persistent s ! j)))"
  using check_rows_wf [OF assms]
  by (auto simp: validate_executable_def unknown_axes_def sorted_wrt_iff_nth_less)

theorem validate_executable_decides_witness:
  "(let e = ErasePartition (OpaqueId ''boot'') \<lparr>br_start = 0, br_length = 16\<rparr>;
        w = WritePartition (OpaqueId ''boot'') \<lparr>br_start = 8, br_length = 16\<rparr> 0
    in validate_executable (read_only\<lparr>es_persistent := [e, w]\<rparr>) \<noteq> Some (Inr ()) \<and>
       validate_executable (read_only\<lparr>es_persistent := [e]\<rparr>) = Some (Inr ()))"
proof -
  let ?e = "ErasePartition (OpaqueId ''boot'') \<lparr>br_start = 0, br_length = 16\<rparr>"
  let ?w = "WritePartition (OpaqueId ''boot'') \<lparr>br_start = 8, br_length = 16\<rparr> 0"
  have wf: "effect_wf ?e" "effect_wf ?w" by (simp_all add: effect_wf_def byte_range_wf_def)
  have "effects_conflict ?e ?w" by (simp add: effects_conflict_def range_bytes_def)
  moreover have "\<forall>x \<in> set (es_persistent (read_only\<lparr>es_persistent := [?e, ?w]\<rparr>)). effect_wf x" using wf by simp
  note validate_executable_decides [OF this]
  moreover have "\<forall>x \<in> set (es_persistent (read_only\<lparr>es_persistent := [?e]\<rparr>)). effect_wf x" using wf by simp
  note validate_executable_decides [OF this]
  ultimately show ?thesis by (force simp: Let_def read_only_def)
qed

end
