(* ===== verification/Flash_Step.thy ===== *)
theory Flash_Step
  imports Effect
begin

text \<open>
  \<open>crates/arkforge-core/src/step.rs\<close>: the public step vocabulary. The closed enums print and
  parse as vocabularies (the interface of the prelude), effect classes and cancellation policies are
  linearly ordered as the derived \<open>Ord\<close> orders them, and a step that passes
  \<open>validate_self_consistent\<close> declares at least the effect its kind implies.
\<close>

section \<open>Step kinds\<close>

datatype flash_step_kind =
    KEnsureMode
  | KProbeDevice
  | KValidateLayout
  | KLoadEphemeralAgent
  | KEraseTarget
  | KWriteTarget
  | KVerifyTarget
  | KAwaitRebind
  | KReboot
  | KPostflightProbe

definition step_kind_ALL :: "flash_step_kind list" where
  "step_kind_ALL = [KEnsureMode, KProbeDevice, KValidateLayout, KLoadEphemeralAgent, KEraseTarget,
     KWriteTarget, KVerifyTarget, KAwaitRebind, KReboot, KPostflightProbe]"

fun step_kind_as_str :: "flash_step_kind \<Rightarrow> string" where
  "step_kind_as_str KEnsureMode = ''ensureMode''"
| "step_kind_as_str KProbeDevice = ''probeDevice''"
| "step_kind_as_str KValidateLayout = ''validateLayout''"
| "step_kind_as_str KLoadEphemeralAgent = ''loadEphemeralAgent''"
| "step_kind_as_str KEraseTarget = ''eraseTarget''"
| "step_kind_as_str KWriteTarget = ''writeTarget''"
| "step_kind_as_str KVerifyTarget = ''verifyTarget''"
| "step_kind_as_str KAwaitRebind = ''awaitRebind''"
| "step_kind_as_str KReboot = ''reboot''"
| "step_kind_as_str KPostflightProbe = ''postflightProbe''"

definition step_kind_parse :: "string \<Rightarrow> flash_step_kind option" where
  "step_kind_parse value = find (\<lambda>kind. step_kind_as_str kind = value) step_kind_ALL"

section \<open>Effect classes\<close>

datatype workflow_effect = ReadOnly | Transient | Mutating | Destructive

text \<open>The derived order is the order of the variants: severity.\<close>

fun effect_rank :: "workflow_effect \<Rightarrow> nat" where
  "effect_rank ReadOnly = 0"
| "effect_rank Transient = 1"
| "effect_rank Mutating = 2"
| "effect_rank Destructive = 3"

lemma effect_rank_inject: "effect_rank a = effect_rank b \<longleftrightarrow> a = b"
  by (cases a; cases b) simp_all

instantiation workflow_effect :: linorder
begin

definition less_eq_workflow_effect :: "workflow_effect \<Rightarrow> workflow_effect \<Rightarrow> bool" where
  "a \<le> b \<longleftrightarrow> effect_rank a \<le> effect_rank b"

definition less_workflow_effect :: "workflow_effect \<Rightarrow> workflow_effect \<Rightarrow> bool" where
  "a < b \<longleftrightarrow> effect_rank a < effect_rank b"

instance
  by standard (auto simp: less_eq_workflow_effect_def less_workflow_effect_def effect_rank_inject)

end

fun effect_as_str :: "workflow_effect \<Rightarrow> string" where
  "effect_as_str ReadOnly = ''readOnly''"
| "effect_as_str Transient = ''transient''"
| "effect_as_str Mutating = ''mutating''"
| "effect_as_str Destructive = ''destructive''"

definition effect_parse :: "string \<Rightarrow> workflow_effect option" where
  "effect_parse value =
     (if value = ''readOnly'' then Some ReadOnly
      else if value = ''transient'' then Some Transient
      else if value = ''mutating'' then Some Mutating
      else if value = ''destructive'' then Some Destructive
      else None)"

definition requires_permit :: "workflow_effect \<Rightarrow> bool" where
  "requires_permit e \<longleftrightarrow> Mutating \<le> e"

fun minimum_effect :: "flash_step_kind \<Rightarrow> workflow_effect" where
  "minimum_effect KProbeDevice = ReadOnly"
| "minimum_effect KValidateLayout = ReadOnly"
| "minimum_effect KVerifyTarget = ReadOnly"
| "minimum_effect KAwaitRebind = ReadOnly"
| "minimum_effect KPostflightProbe = ReadOnly"
| "minimum_effect KEnsureMode = Transient"
| "minimum_effect KLoadEphemeralAgent = Transient"
| "minimum_effect KReboot = Transient"
| "minimum_effect KEraseTarget = Destructive"
| "minimum_effect KWriteTarget = Destructive"

section \<open>Cancellation and binding\<close>

datatype cancellation_policy = NonInterruptible | CancellableAtBoundary | CancellableImmediately

fun cancellation_rank :: "cancellation_policy \<Rightarrow> nat" where
  "cancellation_rank NonInterruptible = 0"
| "cancellation_rank CancellableAtBoundary = 1"
| "cancellation_rank CancellableImmediately = 2"

lemma cancellation_rank_inject: "cancellation_rank a = cancellation_rank b \<longleftrightarrow> a = b"
  by (cases a; cases b) simp_all

instantiation cancellation_policy :: linorder
begin

definition less_eq_cancellation_policy :: "cancellation_policy \<Rightarrow> cancellation_policy \<Rightarrow> bool" where
  "a \<le> b \<longleftrightarrow> cancellation_rank a \<le> cancellation_rank b"

definition less_cancellation_policy :: "cancellation_policy \<Rightarrow> cancellation_policy \<Rightarrow> bool" where
  "a < b \<longleftrightarrow> cancellation_rank a < cancellation_rank b"

instance
  by standard (auto simp: less_eq_cancellation_policy_def less_cancellation_policy_def cancellation_rank_inject)

end

fun cancellation_as_str :: "cancellation_policy \<Rightarrow> string" where
  "cancellation_as_str NonInterruptible = ''nonInterruptible''"
| "cancellation_as_str CancellableAtBoundary = ''cancellableAtBoundary''"
| "cancellation_as_str CancellableImmediately = ''cancellableImmediately''"

definition cancellation_parse :: "string \<Rightarrow> cancellation_policy option" where
  "cancellation_parse value =
     (if value = ''nonInterruptible'' then Some NonInterruptible
      else if value = ''cancellableAtBoundary'' then Some CancellableAtBoundary
      else if value = ''cancellableImmediately'' then Some CancellableImmediately
      else None)"

datatype binding_requirement = ExactBoundTarget | ExactBoundTargetWithModeLineage

fun binding_as_str :: "binding_requirement \<Rightarrow> string" where
  "binding_as_str ExactBoundTarget = ''exactBoundTarget''"
| "binding_as_str ExactBoundTargetWithModeLineage = ''exactBoundTargetWithModeLineage''"

definition binding_parse :: "string \<Rightarrow> binding_requirement option" where
  "binding_parse value =
     (if value = ''exactBoundTarget'' then Some ExactBoundTarget
      else if value = ''exactBoundTargetWithModeLineage'' then Some ExactBoundTargetWithModeLineage
      else None)"

section \<open>Targets and steps\<close>

datatype semantic_target =
    TPartition partition_id
  | TRawRegion region_id
  | TBootMetadata boot_metadata_field
  | TDevice

fun target_to_cbor :: "semantic_target \<Rightarrow> cbor" where
  "target_to_cbor (TPartition i) = cbor_map [(''partition'', id_to_cbor i)]"
| "target_to_cbor (TRawRegion i) = cbor_map [(''rawRegion'', id_to_cbor i)]"
| "target_to_cbor (TBootMetadata f) = cbor_map [(''bootMetadata'', CText (boot_field_as_str f))]"
| "target_to_cbor TDevice = cbor_map [(''device'', CNull)]"

record public_flash_step =
  ps_step_id :: step_id
  ps_kind :: flash_step_kind
  ps_effect :: workflow_effect
  ps_cancellation :: cancellation_policy
  ps_binding :: binding_requirement
  ps_semantic_target :: "semantic_target option"
  ps_content_digest :: "sha256_digest option"
  ps_expected_mode_before :: "device_mode option"
  ps_expected_mode_after :: "device_mode option"
  ps_private_action_digest :: sha256_digest

datatype step_error =
    EffectBelowKindMinimum string flash_step_kind workflow_effect workflow_effect
  | WriteWithoutContentDigest string
  | TargetedStepWithoutTarget string flash_step_kind

definition has_write_target :: "public_flash_step \<Rightarrow> bool" where
  "has_write_target s \<longleftrightarrow>
     (case ps_semantic_target s of Some (TPartition _) \<Rightarrow> True | Some (TRawRegion _) \<Rightarrow> True | _ \<Rightarrow> False)"

definition validate_self_consistent :: "public_flash_step \<Rightarrow> step_error + unit" where
  "validate_self_consistent s =
     (let minimum = minimum_effect (ps_kind s) in
      if ps_effect s < minimum then
        Inl (EffectBelowKindMinimum (as_str (ps_step_id s)) (ps_kind s) (ps_effect s) minimum)
      else if ps_kind s = KWriteTarget \<and> ps_content_digest s = None then
        Inl (WriteWithoutContentDigest (as_str (ps_step_id s)))
      else if ps_kind s \<in> {KWriteTarget, KEraseTarget, KVerifyTarget} \<and>
        \<not> has_write_target s
      then Inl (TargetedStepWithoutTarget (as_str (ps_step_id s)) (ps_kind s))
      else Inr ())"

text \<open>\<open>match x { Some(v) => v.to_cbor(), None => CborValue::Null }\<close>\<close>

definition opt_cbor :: "('a \<Rightarrow> cbor) \<Rightarrow> 'a option \<Rightarrow> cbor" where
  "opt_cbor f x = (case x of Some v \<Rightarrow> f v | None \<Rightarrow> CNull)"

definition step_to_cbor :: "public_flash_step \<Rightarrow> cbor" where
  "step_to_cbor s = cbor_map [
     (''stepId'', id_to_cbor (ps_step_id s)),
     (''kind'', CText (step_kind_as_str (ps_kind s))),
     (''effect'', CText (effect_as_str (ps_effect s))),
     (''cancellation'', CText (cancellation_as_str (ps_cancellation s))),
     (''binding'', CText (binding_as_str (ps_binding s))),
     (''privateActionDigest'', digest_to_cbor (ps_private_action_digest s)),
     (''semanticTarget'', opt_cbor target_to_cbor (ps_semantic_target s)),
     (''contentDigest'', opt_cbor digest_to_cbor (ps_content_digest s)),
     (''expectedModeBefore'', opt_cbor mode_to_cbor (ps_expected_mode_before s)),
     (''expectedModeAfter'', opt_cbor mode_to_cbor (ps_expected_mode_after s))]"

definition step_digest :: "public_flash_step \<Rightarrow> cbor_error + sha256_digest" where
  "step_digest s = digest_canonical DomPublicStep (step_to_cbor s)"

declare opt_cbor_def [to_cbor_defs]
  step_to_cbor_def [to_cbor_defs]

section \<open>The vocabularies\<close>

interpretation step_kind: vocabulary step_kind_as_str step_kind_parse
proof
  show "step_kind_parse (step_kind_as_str k) = Some k" for k
    by (cases k) (simp_all add: step_kind_parse_def step_kind_ALL_def)
  show "step_kind_parse s = Some k \<Longrightarrow> s = step_kind_as_str k" for s k
    by (auto simp: step_kind_parse_def find_Some_iff)
qed

interpretation effect_class: vocabulary effect_as_str effect_parse
proof
  show "effect_parse (effect_as_str e) = Some e" for e
    by (cases e) (simp_all add: effect_parse_def)
qed (auto simp: effect_parse_def split: if_splits)

interpretation cancellation: vocabulary cancellation_as_str cancellation_parse
proof
  show "cancellation_parse (cancellation_as_str c) = Some c" for c
    by (cases c) (simp_all add: cancellation_parse_def)
qed (auto simp: cancellation_parse_def split: if_splits)

interpretation binding: vocabulary binding_as_str binding_parse
proof
  show "binding_parse (binding_as_str b) = Some b" for b
    by (cases b) (simp_all add: binding_parse_def)
qed (auto simp: binding_parse_def split: if_splits)

section \<open>Lemmas\<close>

lemma opt_cbor_inject:
  assumes "\<And>x y. canon (f x) = canon (f y) \<longleftrightarrow> x = y" and "\<And>x. canon (f x) \<noteq> CNull"
  shows "canon (opt_cbor f a) = canon (opt_cbor f b) \<longleftrightarrow> a = b"
  using assms assms(2) [symmetric] by (auto simp: opt_cbor_def split: option.splits)

lemma canon_cbor_map_not_null [simp]: "canon (cbor_map es) \<noteq> CNull"
  by (simp add: cbor_map_def)

lemma target_to_cbor_inject [cbor_inject]:
  "canon (target_to_cbor a) = canon (target_to_cbor b) \<longleftrightarrow> a = b"
proof (cases a; cases b)
qed (auto simp: canon_record_iff cbor_inject canon_differ [where k = "''partition''"]
    canon_differ [where k = "''rawRegion''"] canon_differ [where k = "''bootMetadata''"]
    canon_differ [where k = "''device''"])

lemma opt_target_inject [cbor_inject]:
  "canon (opt_cbor target_to_cbor a) = canon (opt_cbor target_to_cbor b) \<longleftrightarrow> a = b"
proof (rule opt_cbor_inject)
  show "canon (target_to_cbor x) \<noteq> CNull" for x by (cases x) simp_all
qed (rule cbor_inject)

lemma opt_digest_inject [cbor_inject]:
  "canon (opt_cbor digest_to_cbor a) = canon (opt_cbor digest_to_cbor b) \<longleftrightarrow> a = b"
  by (rule opt_cbor_inject) (simp_all add: digest_to_cbor_def)

lemma opt_mode_inject [cbor_inject]:
  "canon (opt_cbor mode_to_cbor a) = canon (opt_cbor mode_to_cbor b) \<longleftrightarrow> a = b"
  by (rule opt_cbor_inject, rule mode_to_cbor_inject, simp add: mode_to_cbor_def)

lemma opt_range_inject [cbor_inject]:
  "canon (opt_cbor byte_range_to_cbor a) = canon (opt_cbor byte_range_to_cbor b) \<longleftrightarrow> a = b"
proof (rule opt_cbor_inject)
  show "canon (byte_range_to_cbor x) \<noteq> CNull" for x by (simp add: byte_range_to_cbor_def)
qed (rule cbor_inject)

lemmas vocabulary_inject [cbor_inject] =
  step_kind.as_str_inject effect_class.as_str_inject cancellation.as_str_inject binding.as_str_inject

lemma step_to_cbor_inject [cbor_inject]: "canon (step_to_cbor a) = canon (step_to_cbor b) \<longleftrightarrow> a = b"
  unfolding step_to_cbor_def
  by (subst canon_record_iff, simp, simp, cases a; cases b) (simp add: cbor_inject, blast)

lemma has_write_target_iff:
  "has_write_target s \<longleftrightarrow> (\<exists>p. ps_semantic_target s = Some (TPartition p)) \<or> (\<exists>r. ps_semantic_target s = Some (TRawRegion r))"
  by (auto simp: has_write_target_def split: option.splits semantic_target.splits)

section \<open>Properties\<close>

text \<open>
  A self-consistent step never understates what it does: it passes exactly when its effect class is
  at least the minimum of its kind, a write names its content, and a write, erase or verify names a
  partition or a raw region. In particular every write and every erase that passes needs a permit.
\<close>

theorem self_consistent_step:
  "validate_self_consistent s = Inr () \<longleftrightarrow>
     minimum_effect (ps_kind s) \<le> ps_effect s \<and>
     (if ps_kind s = KWriteTarget then ps_content_digest s \<noteq> None else True) \<and>
     (if ps_kind s \<in> {KWriteTarget, KEraseTarget, KVerifyTarget}
      then (\<exists>p. ps_semantic_target s = Some (TPartition p)) \<or> (\<exists>r. ps_semantic_target s = Some (TRawRegion r))
      else True) \<and>
     (if ps_kind s \<in> {KWriteTarget, KEraseTarget} then requires_permit (ps_effect s) else True)"
proof -
  have permit: "requires_permit e" if "minimum_effect k \<le> e" "k \<in> {KWriteTarget, KEraseTarget}" for k e
    using that by (cases e) (auto simp: less_eq_workflow_effect_def requires_permit_def)
  have "validate_self_consistent s = Inr () \<longleftrightarrow> minimum_effect (ps_kind s) \<le> ps_effect s \<and>
      (ps_kind s = KWriteTarget \<longrightarrow> ps_content_digest s \<noteq> None) \<and>
      (ps_kind s \<in> {KWriteTarget, KEraseTarget, KVerifyTarget} \<longrightarrow> has_write_target s)"
    unfolding validate_self_consistent_def Let_def by (simp add: not_less) blast
  then show ?thesis
    using permit [of "ps_kind s" "ps_effect s"] by (simp only: has_write_target_iff) auto
qed

text \<open>
  The four closed vocabularies of a step are exact: parsing accepts a string for a value if and only
  if printing the value gives that string, so nothing unknown is mapped to a default.
\<close>

theorem step_vocabularies_exact:
  "(step_kind_parse v = Some k \<longleftrightarrow> v = step_kind_as_str k) \<and>
   (effect_parse v = Some e \<longleftrightarrow> v = effect_as_str e) \<and>
   (cancellation_parse v = Some c \<longleftrightarrow> v = cancellation_as_str c) \<and>
   (binding_parse v = Some b \<longleftrightarrow> v = binding_as_str b)"
  by (simp add: step_kind.parse_iff effect_class.parse_iff cancellation.parse_iff binding.parse_iff)

end
