(* ===== verification/Identity.thy ===== *)
theory Identity
  imports Flash_Step
begin

text \<open>
  \<open>crates/arkforge-core/src/identity.rs\<close>: versions, the identities of provider, profile, artifact
  and toolchain, and the maturity of one exact combination. A version prints and parses back, each
  identity is determined by its canonical form, and a maturity state that blocks never permits an
  executable plan.
\<close>

section \<open>Versions\<close>

record version =
  ver_major :: u32
  ver_minor :: u32
  ver_patch :: u32

definition parse_u32 :: "string \<Rightarrow> u32 option" where
  "parse_u32 s = map_option of_nat (parse_unsigned (2 ^ 32) s)"

definition version_parse :: "string \<Rightarrow> version option" where
  "version_parse value =
     (case split_on CHR ''.'' value of
        [a, b, c] \<Rightarrow> Option.bind (parse_u32 a) (\<lambda>major. Option.bind (parse_u32 b) (\<lambda>minor.
          Option.bind (parse_u32 c) (\<lambda>patch.
            Some \<lparr>ver_major = major, ver_minor = minor, ver_patch = patch\<rparr>)))
      | _ \<Rightarrow> None)"

definition version_display :: "version \<Rightarrow> string" where
  "version_display v = display_nat (unat (ver_major v)) @ CHR ''.'' # display_nat (unat (ver_minor v)) @
     CHR ''.'' # display_nat (unat (ver_patch v))"

definition version_to_cbor :: "version \<Rightarrow> cbor" where
  "version_to_cbor v = CArray [CUnsigned (ucast (ver_major v)), CUnsigned (ucast (ver_minor v)),
     CUnsigned (ucast (ver_patch v))]"

section \<open>Identities\<close>

record provider_identity =
  prov_id :: opaque_id
  prov_version :: version
  prov_implementation_digest :: sha256_digest

definition provider_to_cbor :: "provider_identity \<Rightarrow> cbor" where
  "provider_to_cbor p = cbor_map [
     (''id'', id_to_cbor (prov_id p)),
     (''version'', version_to_cbor (prov_version p)),
     (''implementationDigest'', digest_to_cbor (prov_implementation_digest p))]"

record device_profile_identity =
  prof_id :: opaque_id
  prof_version :: version
  prof_digest :: sha256_digest

definition profile_id_to_cbor :: "device_profile_identity \<Rightarrow> cbor" where
  "profile_id_to_cbor p = cbor_map [
     (''id'', id_to_cbor (prof_id p)),
     (''version'', version_to_cbor (prof_version p)),
     (''digest'', digest_to_cbor (prof_digest p))]"

record artifact_format =
  af_id :: opaque_id
  af_version :: version

definition artifact_format_to_cbor :: "artifact_format \<Rightarrow> cbor" where
  "artifact_format_to_cbor f = cbor_map [
     (''id'', id_to_cbor (af_id f)), (''version'', version_to_cbor (af_version f))]"

record artifact_identity =
  art_artifact_id :: opaque_id
  art_format :: artifact_format
  art_content_digest :: sha256_digest
  art_size_bytes :: u64
  art_manifest_digest :: sha256_digest

definition artifact_to_cbor :: "artifact_identity \<Rightarrow> cbor" where
  "artifact_to_cbor a = cbor_map [
     (''artifactId'', id_to_cbor (art_artifact_id a)),
     (''format'', artifact_format_to_cbor (art_format a)),
     (''contentDigest'', digest_to_cbor (art_content_digest a)),
     (''sizeBytes'', CUnsigned (art_size_bytes a)),
     (''manifestDigest'', digest_to_cbor (art_manifest_digest a))]"

datatype toolchain_kind = FixedTool | NativeProtocol | Replay

fun toolchain_kind_as_str :: "toolchain_kind \<Rightarrow> string" where
  "toolchain_kind_as_str FixedTool = ''fixedTool''"
| "toolchain_kind_as_str NativeProtocol = ''nativeProtocol''"
| "toolchain_kind_as_str Replay = ''replay''"

definition toolchain_kind_parse :: "string \<Rightarrow> toolchain_kind option" where
  "toolchain_kind_parse value =
     (if value = ''fixedTool'' then Some FixedTool
      else if value = ''nativeProtocol'' then Some NativeProtocol
      else if value = ''replay'' then Some Replay
      else None)"

record toolchain_identity =
  tc_id :: opaque_id
  tc_kind :: toolchain_kind
  tc_version :: version
  tc_backend_digest :: sha256_digest
  tc_upstream_ref :: "string option"

definition toolchain_to_cbor :: "toolchain_identity \<Rightarrow> cbor" where
  "toolchain_to_cbor t = cbor_map [
     (''id'', id_to_cbor (tc_id t)),
     (''kind'', CText (toolchain_kind_as_str (tc_kind t))),
     (''version'', version_to_cbor (tc_version t)),
     (''backendDigest'', digest_to_cbor (tc_backend_digest t)),
     (''upstreamRef'', opt_text (tc_upstream_ref t))]"

record host_platform =
  hp_os :: opaque_id
  hp_arch :: opaque_id

definition host_platform_to_cbor :: "host_platform \<Rightarrow> cbor" where
  "host_platform_to_cbor h = cbor_map [(''os'', id_to_cbor (hp_os h)), (''arch'', id_to_cbor (hp_arch h))]"

section \<open>Maturity\<close>

record maturity_key =
  mk_provider :: provider_identity
  mk_profile :: device_profile_identity
  mk_artifact_format :: artifact_format
  mk_toolchain :: toolchain_identity
  mk_host_platform :: host_platform
  mk_driver_facts_digest :: sha256_digest
  mk_evidence_set_digest :: sha256_digest

definition maturity_key_to_cbor :: "maturity_key \<Rightarrow> cbor" where
  "maturity_key_to_cbor k = cbor_map [
     (''provider'', provider_to_cbor (mk_provider k)),
     (''profile'', profile_id_to_cbor (mk_profile k)),
     (''artifactFormat'', artifact_format_to_cbor (mk_artifact_format k)),
     (''toolchain'', toolchain_to_cbor (mk_toolchain k)),
     (''hostPlatform'', host_platform_to_cbor (mk_host_platform k)),
     (''driverFactsDigest'', digest_to_cbor (mk_driver_facts_digest k)),
     (''evidenceSetDigest'', digest_to_cbor (mk_evidence_set_digest k))]"

definition maturity_key_digest :: "maturity_key \<Rightarrow> cbor_error + sha256_digest" where
  "maturity_key_digest k = digest_canonical DomProviderFacts (maturity_key_to_cbor k)"

datatype maturity_state =
    ProductionVerified
  | HardwareCampaign string
  | HardwareGated string
  | PlanOnly string
  | ResearchOnly string
  | Unavailable string

fun permits_executable_plan :: "maturity_state \<Rightarrow> bool" where
  "permits_executable_plan ProductionVerified = True"
| "permits_executable_plan (HardwareCampaign campaign) = True"
| "permits_executable_plan _ = False"

fun is_production_evidence :: "maturity_state \<Rightarrow> bool" where
  "is_production_evidence ProductionVerified = True"
| "is_production_evidence _ = False"

fun maturity_campaign :: "maturity_state \<Rightarrow> string option" where
  "maturity_campaign (HardwareCampaign campaign) = Some campaign"
| "maturity_campaign _ = None"

fun maturity_as_str :: "maturity_state \<Rightarrow> string" where
  "maturity_as_str ProductionVerified = ''productionVerified''"
| "maturity_as_str (HardwareCampaign campaign) = ''hardwareCampaign''"
| "maturity_as_str (HardwareGated blocker) = ''hardwareGated''"
| "maturity_as_str (PlanOnly blocker) = ''planOnly''"
| "maturity_as_str (ResearchOnly blocker) = ''researchOnly''"
| "maturity_as_str (Unavailable reason) = ''unavailable''"

fun maturity_blocker :: "maturity_state \<Rightarrow> string option" where
  "maturity_blocker ProductionVerified = None"
| "maturity_blocker (HardwareCampaign campaign) = None"
| "maturity_blocker (HardwareGated blocker) = Some blocker"
| "maturity_blocker (PlanOnly blocker) = Some blocker"
| "maturity_blocker (ResearchOnly blocker) = Some blocker"
| "maturity_blocker (Unavailable reason) = Some reason"

definition maturity_to_cbor :: "maturity_state \<Rightarrow> cbor" where
  "maturity_to_cbor m = cbor_map [
     (''state'', CText (maturity_as_str m)),
     (''blocker'', opt_text (maturity_blocker m)),
     (''campaign'', opt_text (maturity_campaign m))]"

section \<open>Capabilities\<close>

record negotiated_capabilities =
  nc_entries :: "(opaque_id \<times> bool) list"

definition capabilities_empty :: negotiated_capabilities where
  "capabilities_empty = \<lparr>nc_entries = []\<rparr>"

definition capabilities_to_cbor :: "negotiated_capabilities \<Rightarrow> cbor" where
  "capabilities_to_cbor c = CMap (map (\<lambda>(i, enabled). (id_to_cbor i, CBool enabled)) (nc_entries c))"

declare version_to_cbor_def [to_cbor_defs]
  provider_to_cbor_def [to_cbor_defs]
  profile_id_to_cbor_def [to_cbor_defs]
  artifact_format_to_cbor_def [to_cbor_defs]
  artifact_to_cbor_def [to_cbor_defs]
  toolchain_to_cbor_def [to_cbor_defs]
  host_platform_to_cbor_def [to_cbor_defs]
  maturity_key_to_cbor_def [to_cbor_defs]
  maturity_to_cbor_def [to_cbor_defs]
  capabilities_to_cbor_def [to_cbor_defs]

section \<open>Lemmas\<close>

interpretation toolchain_kind: vocabulary toolchain_kind_as_str toolchain_kind_parse
proof
  show "toolchain_kind_parse (toolchain_kind_as_str k) = Some k" for k
    by (cases k) (simp_all add: toolchain_kind_parse_def)
qed (auto simp: toolchain_kind_parse_def split: if_splits)

lemma dot_not_in_display: "CHR ''.'' \<notin> set (display_nat n)"
  using set_display_nat [of "CHR ''.''" n] by (auto simp: less_eq_char_def)

lemma parse_u32_display: "parse_u32 (display_nat (unat v)) = Some v"
  using parse_display [of "unat v" "2 ^ 32"] unsigned_less [of v, where ?'a = nat]
  by (simp add: parse_u32_def)

lemma version_to_cbor_inject [cbor_inject]:
  "canon (version_to_cbor a) = canon (version_to_cbor b) \<longleftrightarrow> a = b"
proof -
  have "(ucast (ucast x :: u64) :: u32) = x" for x by (rule ucast_ucast_up) simp
  then have "(ucast x :: u64) = ucast y \<longleftrightarrow> x = y" for x y :: u32 by metis
  then show ?thesis by (cases a; cases b) (simp add: version_to_cbor_def)
qed

lemma provider_to_cbor_inject [cbor_inject]:
  "canon (provider_to_cbor a) = canon (provider_to_cbor b) \<longleftrightarrow> a = b"
  unfolding provider_to_cbor_def
  by (subst canon_record_iff, simp, simp, cases a; cases b) (simp add: cbor_inject)

lemma profile_id_to_cbor_inject [cbor_inject]:
  "canon (profile_id_to_cbor a) = canon (profile_id_to_cbor b) \<longleftrightarrow> a = b"
  unfolding profile_id_to_cbor_def
  by (subst canon_record_iff, simp, simp, cases a; cases b) (simp add: cbor_inject)

lemma artifact_format_to_cbor_inject [cbor_inject]:
  "canon (artifact_format_to_cbor a) = canon (artifact_format_to_cbor b) \<longleftrightarrow> a = b"
  unfolding artifact_format_to_cbor_def
  by (subst canon_record_iff, simp, simp, cases a; cases b) (simp add: cbor_inject)

lemma artifact_to_cbor_inject [cbor_inject]:
  "canon (artifact_to_cbor a) = canon (artifact_to_cbor b) \<longleftrightarrow> a = b"
  unfolding artifact_to_cbor_def
  by (subst canon_record_iff, simp, simp, cases a; cases b) (simp add: cbor_inject)

lemma toolchain_to_cbor_inject [cbor_inject]:
  "canon (toolchain_to_cbor a) = canon (toolchain_to_cbor b) \<longleftrightarrow> a = b"
  unfolding toolchain_to_cbor_def
  by (subst canon_record_iff, simp, simp, cases a; cases b) (simp add: cbor_inject toolchain_kind.as_str_inject)

lemma host_platform_to_cbor_inject [cbor_inject]:
  "canon (host_platform_to_cbor a) = canon (host_platform_to_cbor b) \<longleftrightarrow> a = b"
  unfolding host_platform_to_cbor_def
  by (subst canon_record_iff, simp, simp, cases a; cases b) (simp add: cbor_inject)

lemma maturity_key_to_cbor_inject [cbor_inject]:
  "canon (maturity_key_to_cbor a) = canon (maturity_key_to_cbor b) \<longleftrightarrow> a = b"
  unfolding maturity_key_to_cbor_def
  by (subst canon_record_iff, simp, simp, cases a; cases b) (simp add: cbor_inject)

lemma maturity_to_cbor_inject [cbor_inject]:
  "canon (maturity_to_cbor a) = canon (maturity_to_cbor b) \<longleftrightarrow> a = b"
  unfolding maturity_to_cbor_def
  by (subst canon_record_iff, simp, simp, cases a; cases b) (simp_all add: cbor_inject)

text \<open>A map without fixed keys is determined up to the order of its entries.\<close>

lemma capabilities_mset:
  assumes "canon (capabilities_to_cbor a) = canon (capabilities_to_cbor b)"
  shows "mset (nc_entries a) = mset (nc_entries b)"
  using assms unfolding capabilities_to_cbor_def by (rule canon_pairs_mset) simp_all

section \<open>Properties\<close>

text \<open>
  A version survives printing and parsing.
\<close>

theorem version_round_trip: "version_parse (version_display v) = Some v"
  by (simp add: version_parse_def version_display_def split_on_sep split_on_last dot_not_in_display
      parse_u32_display)

text \<open>
  Maturity gates execution: a combination permits an executable plan exactly when it names no
  blocker, only production verification counts as production evidence, and the canonical forms of two
  states are equal only for the same state with the same text, so a campaign is never mistaken for a
  production pass in a digest.
\<close>

theorem maturity_gates_execution:
  "(permits_executable_plan m \<longleftrightarrow> maturity_blocker m = None) \<and>
   (is_production_evidence m \<longleftrightarrow> permits_executable_plan m \<and> maturity_campaign m = None) \<and>
   (canon (maturity_to_cbor m) = canon (maturity_to_cbor n) \<longleftrightarrow> m = n)"
  by (cases m) (simp_all add: maturity_to_cbor_inject)

end
