(* ===== verification/Projection.thy ===== *)
theory Projection
  imports Identity
begin

text \<open>
  \<open>crates/arkforge-core/src/projection.rs\<close>: the check that ties the private provider actions to
  the public steps and to the declared effects. \<open>validate_projection\<close> keeps the order of the
  source's passes; the maps and sets of the source are a map from step id strings and lists of seen
  strings. \<^term>\<open>None\<close> is an abort (an overflowing range of a record built without its constructor, or
  the \<open>expect\<close> in the coverage pass).
\<close>

section \<open>Private actions\<close>

datatype private_action_role = PrimaryEffect | ReadOnlyTransportSubAction

fun role_as_str :: "private_action_role \<Rightarrow> string" where
  "role_as_str PrimaryEffect = ''primaryEffect''"
| "role_as_str ReadOnlyTransportSubAction = ''readOnlyTransportSubAction''"

record private_action_record =
  pa_action_id :: action_id
  pa_step_id :: step_id
  pa_role :: private_action_role
  pa_effect_class :: workflow_effect
  pa_declared_target :: "semantic_target option"
  pa_declared_range :: "byte_range option"
  pa_content_digest :: "sha256_digest option"
  pa_body :: cbor

definition action_to_cbor :: "private_action_record \<Rightarrow> cbor" where
  "action_to_cbor a = cbor_map [
     (''actionId'', id_to_cbor (pa_action_id a)),
     (''stepId'', id_to_cbor (pa_step_id a)),
     (''role'', CText (role_as_str (pa_role a))),
     (''effectClass'', CText (effect_as_str (pa_effect_class a))),
     (''declaredTarget'', opt_cbor target_to_cbor (pa_declared_target a)),
     (''declaredRange'', opt_cbor byte_range_to_cbor (pa_declared_range a)),
     (''contentDigest'', opt_cbor digest_to_cbor (pa_content_digest a)),
     (''body'', pa_body a)]"

definition action_digest :: "private_action_record \<Rightarrow> cbor_error + sha256_digest" where
  "action_digest a = digest_canonical DomPrivateAction (action_to_cbor a)"

record action_digest_binding =
  adb_step_id :: step_id
  adb_action_id :: action_id
  adb_role :: private_action_role
  adb_private_action_digest :: sha256_digest

definition binding_to_cbor :: "action_digest_binding \<Rightarrow> cbor" where
  "binding_to_cbor b = cbor_map [
     (''stepId'', id_to_cbor (adb_step_id b)),
     (''actionId'', id_to_cbor (adb_action_id b)),
     (''role'', CText (role_as_str (adb_role b))),
     (''privateActionDigest'', digest_to_cbor (adb_private_action_digest b))]"

record projection_digests =
  pd_per_action :: "action_digest_binding list"
  pd_provider_execution_plan_digest :: sha256_digest
  pd_public_projection_digest :: sha256_digest

record stored_provider_plan =
  spp_actions :: "private_action_record list"

datatype projection_error =
    EmptyPlan
  | DuplicateStepId string
  | DuplicateActionId string
  | ActionWithoutPublicStep string string
  | MultiplePrimaryActions string
  | StepWithoutPrimaryAction string
  | SubActionNotReadOnly string workflow_effect
  | StepActionDigestMismatch string sha256_digest sha256_digest
  | PrivateEffectExceedsPublic string workflow_effect workflow_effect
  | PrivateTargetOutsidePublicTarget string string
  | ContentDigestMismatch string sha256_digest sha256_digest
  | PrivateActionMissingContentDigest string string
  | EffectfulStepWithoutTarget string
  | StepEffectNotDeclared string flash_step_kind
  | UnclaimedPersistentEffect nat
  | UnclaimedTransientEffect nat
  | ProjectionStep step_error
  | ProjectionCbor cbor_error

section \<open>The passes over steps and actions\<close>

abbreviation step_key :: "public_flash_step \<Rightarrow> string" where
  "step_key s \<equiv> as_str (ps_step_id s)"

abbreviation action_key :: "private_action_record \<Rightarrow> string" where
  "action_key a \<equiv> as_str (pa_step_id a)"

fun check_steps :: "string list \<Rightarrow> public_flash_step list \<Rightarrow> projection_error + string list" where
  "check_steps seen [] = Inr seen"
| "check_steps seen (s # ss) =
     (if step_key s \<in> set seen then Inl (DuplicateStepId (step_key s))
      else rbind (map_err ProjectionStep (validate_self_consistent s)) (\<lambda>_. check_steps (step_key s # seen) ss))"

fun check_actions :: "string list \<Rightarrow> string list \<Rightarrow> private_action_record list \<Rightarrow> projection_error + unit" where
  "check_actions seen_steps seen [] = Inr ()"
| "check_actions seen_steps seen (a # as) =
     (if as_str (pa_action_id a) \<in> set seen then Inl (DuplicateActionId (as_str (pa_action_id a)))
      else if action_key a \<notin> set seen_steps then
        Inl (ActionWithoutPublicStep (as_str (pa_action_id a)) (action_key a))
      else check_actions seen_steps (as_str (pa_action_id a) # seen) as)"

fun collect_primaries ::
  "(string \<rightharpoonup> private_action_record) \<Rightarrow> private_action_record list \<Rightarrow>
     projection_error + (string \<rightharpoonup> private_action_record)" where
  "collect_primaries m [] = Inr m"
| "collect_primaries m (a # as) =
     (case pa_role a of
        PrimaryEffect \<Rightarrow>
          if m (action_key a) \<noteq> None then Inl (MultiplePrimaryActions (action_key a))
          else collect_primaries (m(action_key a \<mapsto> a)) as
      | ReadOnlyTransportSubAction \<Rightarrow>
          if pa_effect_class a \<noteq> ReadOnly then
            Inl (SubActionNotReadOnly (as_str (pa_action_id a)) (pa_effect_class a))
          else collect_primaries m as)"

definition bind_action :: "public_flash_step \<Rightarrow> private_action_record \<Rightarrow> projection_error + action_digest_binding" where
  "bind_action s a = rbind (map_err ProjectionCbor (action_digest a)) (\<lambda>d.
     Inr \<lparr>adb_step_id = ps_step_id s, adb_action_id = pa_action_id a, adb_role = pa_role a,
       adb_private_action_digest = d\<rparr>)"

text \<open>One turn of the loop that fills \<open>per_action\<close>: the checks, then the bindings.\<close>

definition check_primary ::
  "public_flash_step \<Rightarrow> private_action_record \<Rightarrow> sha256_digest \<Rightarrow> projection_error + unit" where
  "check_primary step primary primary_digest =
     (if primary_digest \<noteq> ps_private_action_digest step then
        Inl (StepActionDigestMismatch (step_key step) (ps_private_action_digest step) primary_digest)
      else if ps_effect step < pa_effect_class primary then
        Inl (PrivateEffectExceedsPublic (step_key step) (pa_effect_class primary) (ps_effect step))
      else if pa_declared_target primary \<noteq> None \<and> ps_semantic_target step \<noteq> pa_declared_target primary then
        Inl (PrivateTargetOutsidePublicTarget (step_key step) (as_str (pa_action_id primary)))
      else case (ps_content_digest step, pa_content_digest primary) of
        (Some pub, Some priv) \<Rightarrow>
          if pub \<noteq> priv then Inl (ContentDigestMismatch (step_key step) pub priv) else Inr ()
      | (Some pub, None) \<Rightarrow>
          Inl (PrivateActionMissingContentDigest (step_key step) (as_str (pa_action_id primary)))
      | (None, _) \<Rightarrow> Inr ())"

definition project_step ::
  "(string \<rightharpoonup> private_action_record) \<Rightarrow> private_action_record list \<Rightarrow> public_flash_step \<Rightarrow>
     projection_error + action_digest_binding list" where
  "project_step primary_by_step actions step =
     rbind (ok_or (primary_by_step (step_key step)) (StepWithoutPrimaryAction (step_key step))) (\<lambda>primary.
     rbind (map_err ProjectionCbor (action_digest primary)) (\<lambda>primary_digest.
     rbind (check_primary step primary primary_digest) (\<lambda>_.
     rbind (try_map (bind_action step)
         (filter (\<lambda>a. pa_step_id a = ps_step_id step \<and> pa_role a \<noteq> PrimaryEffect) actions)) (\<lambda>subs.
       Inr (\<lparr>adb_step_id = ps_step_id step, adb_action_id = pa_action_id primary,
         adb_role = PrimaryEffect, adb_private_action_digest = primary_digest\<rparr> # subs)))))"

section \<open>The coverage pass\<close>

definition range_matches :: "byte_range \<Rightarrow> private_action_record \<Rightarrow> bool option" where
  "range_matches declared primary =
     (case pa_declared_range primary of
        Some private_range \<Rightarrow> contains_range declared private_range
      | None \<Rightarrow> Some True)"

fun persistent_effect_matches ::
  "persistent_effect \<Rightarrow> public_flash_step \<Rightarrow> semantic_target \<Rightarrow> private_action_record \<Rightarrow> bool option" where
  "persistent_effect_matches (WritePartition part rng content) step (TPartition step_partition) primary =
     (if ps_kind step \<noteq> KWriteTarget then Some False
      else if ps_content_digest step \<noteq> Some content then Some False
      else if part \<noteq> step_partition then Some False
      else range_matches rng primary)"
| "persistent_effect_matches (ErasePartition part rng) step (TPartition step_partition) primary =
     (if ps_kind step \<noteq> KEraseTarget then Some False
      else if part \<noteq> step_partition then Some False
      else range_matches rng primary)"
| "persistent_effect_matches (WriteRawRegion reg rng content) step (TRawRegion step_region) primary =
     (if ps_kind step \<noteq> KWriteTarget then Some False
      else if ps_content_digest step \<noteq> Some content then Some False
      else if reg \<noteq> step_region then Some False
      else range_matches rng primary)"
| "persistent_effect_matches _ _ _ _ = Some False"

fun transient_effect_matches :: "transient_effect \<Rightarrow> public_flash_step \<Rightarrow> bool" where
  "transient_effect_matches (EnterMode from to) step \<longleftrightarrow>
     ps_kind step = KEnsureMode \<and> ps_expected_mode_before step = Some from \<and>
     ps_expected_mode_after step = Some to"
| "transient_effect_matches (Reboot target_mode) step \<longleftrightarrow>
     ps_kind step = KReboot \<and> ps_expected_mode_after step = Some target_mode"
| "transient_effect_matches (LoadEphemeralAgent stage region content) step \<longleftrightarrow>
     ps_kind step = KLoadEphemeralAgent"
| "transient_effect_matches (UsbDetachReattach expectation) step \<longleftrightarrow> False"

text \<open>\<open>iter().enumerate().position(..)\<close> over the effects not yet claimed.\<close>

fun find_unclaimed :: "('e \<Rightarrow> bool option) \<Rightarrow> bool list \<Rightarrow> 'e list \<Rightarrow> nat option option" where
  "find_unclaimed f (c # cs) (e # es) =
     (if c then map_option (map_option Suc) (find_unclaimed f cs es)
      else Option.bind (f e) (\<lambda>b.
        if b then Some (Some 0) else map_option (map_option Suc) (find_unclaimed f cs es)))"
| "find_unclaimed f _ _ = Some None"

definition claims_persistent :: "public_flash_step \<Rightarrow> bool" where
  "claims_persistent s \<longleftrightarrow> ps_kind s \<in> {KWriteTarget, KEraseTarget}"

definition claims_transient :: "public_flash_step \<Rightarrow> bool" where
  "claims_transient s \<longleftrightarrow> ps_kind s \<in> {KEnsureMode, KReboot, KLoadEphemeralAgent}"

definition claim_persistent ::
  "(string \<rightharpoonup> private_action_record) \<Rightarrow> persistent_effect list \<Rightarrow> bool list \<Rightarrow> public_flash_step \<Rightarrow>
     (projection_error + bool list) option" where
  "claim_persistent primary_by_step effects claimed step =
     (case ps_semantic_target step of
        None \<Rightarrow> Some (Inl (EffectfulStepWithoutTarget (step_key step)))
      | Some target \<Rightarrow> Option.bind (primary_by_step (step_key step)) (\<lambda>primary.
          Option.bind (find_unclaimed (\<lambda>e. persistent_effect_matches e step target primary) claimed effects) (\<lambda>index.
            case index of
              None \<Rightarrow> Some (Inl (StepEffectNotDeclared (step_key step) (ps_kind step)))
            | Some i \<Rightarrow> Some (Inr (claimed[i := True])))))"

definition claim_transient ::
  "transient_effect list \<Rightarrow> bool list \<Rightarrow> public_flash_step \<Rightarrow> (projection_error + bool list) option" where
  "claim_transient effects claimed step =
     Option.bind (find_unclaimed (\<lambda>e. Some (transient_effect_matches e step)) claimed effects) (\<lambda>index.
       case index of
         None \<Rightarrow> Some (Inl (StepEffectNotDeclared (step_key step) (ps_kind step)))
       | Some i \<Rightarrow> Some (Inr (claimed[i := True])))"

fun cover_steps ::
  "(string \<rightharpoonup> private_action_record) \<Rightarrow> effect_set \<Rightarrow> bool list \<Rightarrow> bool list \<Rightarrow> public_flash_step list \<Rightarrow>
     (projection_error + bool list \<times> bool list) option" where
  "cover_steps m es pc tc [] = Some (Inr (pc, tc))"
| "cover_steps m es pc tc (s # ss) =
     (if claims_persistent s then
        abind (claim_persistent m (es_persistent es) pc s) (\<lambda>pc. cover_steps m es pc tc ss)
      else if claims_transient s then
        abind (claim_transient (es_transient es) tc s) (\<lambda>tc. cover_steps m es pc tc ss)
      else cover_steps m es pc tc ss)"

definition validate_effect_coverage ::
  "public_flash_step list \<Rightarrow> (string \<rightharpoonup> private_action_record) \<Rightarrow> effect_set \<Rightarrow> (projection_error + unit) option" where
  "validate_effect_coverage steps primary_by_step es =
     abind (cover_steps primary_by_step es (replicate (length (es_persistent es)) False)
         (replicate (length (es_transient es)) False) steps) (\<lambda>(pc, tc).
       case position (\<lambda>claimed. \<not> claimed) pc of
         Some i \<Rightarrow> Some (Inl (UnclaimedPersistentEffect i))
       | None \<Rightarrow> (case position (\<lambda>claimed. \<not> claimed) tc of
           Some i \<Rightarrow> Some (Inl (UnclaimedTransientEffect i))
         | None \<Rightarrow> Some (Inr ())))"

definition validate_projection ::
  "public_flash_step list \<Rightarrow> stored_provider_plan \<Rightarrow> effect_set \<Rightarrow> (projection_error + projection_digests) option" where
  "validate_projection steps plan es =
     (if steps = [] then Some (Inl EmptyPlan)
      else
        abind (Some (check_steps [] steps)) (\<lambda>seen_steps.
        abind (Some (check_actions seen_steps [] (spp_actions plan))) (\<lambda>_.
        abind (Some (collect_primaries Map.empty (spp_actions plan))) (\<lambda>primary_by_step.
        abind (Some (try_map (project_step primary_by_step (spp_actions plan)) steps)) (\<lambda>projected.
        let per_action = concat projected in
        abind (validate_effect_coverage steps primary_by_step es) (\<lambda>_.
        let plan_digest = digest_ordered DomProviderExecutionPlan (map adb_private_action_digest per_action) in
        abind (Some (map_err ProjectionCbor (encode (CArray (map binding_to_cbor per_action))))) (\<lambda>mapping_bytes.
          Some (Inr \<lparr>pd_per_action = per_action, pd_provider_execution_plan_digest = plan_digest,
            pd_public_projection_digest = digest_in_domain DomPublicProjection mapping_bytes\<rparr>))))))))"

declare action_to_cbor_def [to_cbor_defs]
  binding_to_cbor_def [to_cbor_defs]

section \<open>Claiming effects\<close>

text \<open>
  Both claim loops are one process: each selected item takes an index that is still free and that
  it matches. A run that ends with every index taken is a bijection.
\<close>

definition claim_step :: "('s \<Rightarrow> bool) \<Rightarrow> ('s \<Rightarrow> 'e \<Rightarrow> bool) \<Rightarrow> 'e list \<Rightarrow> 's \<Rightarrow> bool list \<Rightarrow> bool list \<Rightarrow> bool" where
  "claim_step sel R xs s c c' \<longleftrightarrow>
     (if sel s then \<exists>j < length xs. \<not> c ! j \<and> R s (xs ! j) \<and> c' = c[j := True] else c' = c)"

fun claim_run :: "('s \<Rightarrow> bool) \<Rightarrow> ('s \<Rightarrow> 'e \<Rightarrow> bool) \<Rightarrow> 'e list \<Rightarrow> 's list \<Rightarrow> bool list \<Rightarrow> bool list \<Rightarrow> bool" where
  "claim_run sel R xs [] c c' \<longleftrightarrow> c' = c"
| "claim_run sel R xs (s # ss) c c' \<longleftrightarrow> (\<exists>d. claim_step sel R xs s c d \<and> claim_run sel R xs ss d c')"

lemma claim_step_skip: "\<not> sel s \<Longrightarrow> claim_step sel R xs s c c' \<longleftrightarrow> c' = c"
  by (simp add: claim_step_def)

definition selected :: "('s \<Rightarrow> bool) \<Rightarrow> 's list \<Rightarrow> nat set" where
  "selected sel ss = {i. i < length ss \<and> sel (ss ! i)}"

lemma selected_Cons: "selected sel (s # ss) = (if sel s then {0} else {}) \<union> Suc ` selected sel ss"
  by (auto simp: selected_def less_Suc_eq_0_disj)

lemma claim_run_assignment:
  assumes "claim_run sel R xs ss c c'" and "length c = length xs"
  shows "\<exists>f. inj_on f (selected sel ss) \<and>
    (\<forall>i \<in> selected sel ss. f i < length xs \<and> \<not> c ! f i \<and> R (ss ! i) (xs ! f i)) \<and>
    (\<forall>j < length xs. c' ! j \<longleftrightarrow> c ! j \<or> j \<in> f ` selected sel ss)"
  using assms
proof (induction ss arbitrary: c)
  case Nil
  then show ?case by (auto simp: selected_def)
next
  case (Cons s ss)
  then obtain d where d: "claim_step sel R xs s c d" "claim_run sel R xs ss d c'" by auto
  then have len: "length d = length xs" using Cons.prems(2) by (auto simp: claim_step_def split: if_splits)
  from Cons.IH [OF d(2) len] obtain f where f: "inj_on f (selected sel ss)"
    "\<forall>i \<in> selected sel ss. f i < length xs \<and> \<not> d ! f i \<and> R (ss ! i) (xs ! f i)"
    "\<forall>j < length xs. c' ! j \<longleftrightarrow> d ! j \<or> j \<in> f ` selected sel ss" by blast
  show ?case
  proof (cases "sel s")
    case True
    with d(1) obtain j where j: "j < length xs" "\<not> c ! j" "R s (xs ! j)" "d = c[j := True]"
      by (auto simp: claim_step_def)
    have dn: "d ! k \<longleftrightarrow> c ! k \<or> k = j" if "k < length xs" for k
      using j that Cons.prems(2) by (simp add: nth_list_update)
    let ?g = "case_nat j f"
    have "inj_on ?g (selected sel (s # ss))"
      using f(1,2) dn j(1) True by (auto simp: selected_Cons inj_on_def)
    moreover have "\<forall>i \<in> selected sel (s # ss). ?g i < length xs \<and> \<not> c ! ?g i \<and> R ((s # ss) ! i) (xs ! ?g i)"
      using f(2) dn j True by (auto simp: selected_Cons)
    moreover have "\<forall>k < length xs. c' ! k \<longleftrightarrow> c ! k \<or> k \<in> ?g ` selected sel (s # ss)"
      using f(3) dn True by (auto simp: selected_Cons image_Un image_image)
    ultimately show ?thesis by blast
  next
    case False
    let ?g = "case_nat 0 f"
    have "d = c" using False d(1) by (simp add: claim_step_def)
    then have "inj_on ?g (selected sel (s # ss))"
      "\<forall>i \<in> selected sel (s # ss). ?g i < length xs \<and> \<not> c ! ?g i \<and> R ((s # ss) ! i) (xs ! ?g i)"
      "\<forall>k < length xs. c' ! k \<longleftrightarrow> c ! k \<or> k \<in> ?g ` selected sel (s # ss)"
      using f False by (auto simp: selected_Cons inj_on_def image_image)
    then show ?thesis by blast
  qed
qed

lemma claim_run_length: "claim_run sel R xs ss c c' \<Longrightarrow> length c' = length c"
  by (induction ss arbitrary: c) (auto simp: claim_step_def split: if_splits)

lemma claim_run_bij:
  assumes "claim_run sel R xs ss (replicate (length xs) False) c'" and "\<forall>j < length xs. c' ! j"
  shows "\<exists>f. bij_betw f (selected sel ss) {..<length xs} \<and> (\<forall>i \<in> selected sel ss. R (ss ! i) (xs ! f i))"
proof -
  from claim_run_assignment [OF assms(1)] obtain f where f: "inj_on f (selected sel ss)"
    "\<forall>i \<in> selected sel ss. f i < length xs \<and> R (ss ! i) (xs ! f i)"
    "\<forall>j < length xs. c' ! j \<longleftrightarrow> j \<in> f ` selected sel ss" by auto
  then have "f ` selected sel ss = {..<length xs}" using assms(2) by auto
  with f show ?thesis by (auto simp: bij_betw_def)
qed

lemma find_unclaimed_Some:
  "find_unclaimed f cs es = Some (Some i) \<Longrightarrow> i < length cs \<and> i < length es \<and> \<not> cs ! i \<and> f (es ! i) = Some True"
  by (induction f cs es arbitrary: i rule: find_unclaimed.induct)
    (auto split: if_splits bind_splits)

lemma position_not_None: "position (\<lambda>claimed. \<not> claimed) cs = None \<longleftrightarrow> (\<forall>j < length cs. cs ! j)"
  by (auto simp: position_None_iff all_set_conv_all_nth)

definition persistent_rel :: "(string \<rightharpoonup> private_action_record) \<Rightarrow> public_flash_step \<Rightarrow> persistent_effect \<Rightarrow> bool" where
  "persistent_rel m s e \<longleftrightarrow> (\<exists>target primary. ps_semantic_target s = Some target \<and> m (step_key s) = Some primary \<and>
     persistent_effect_matches e s target primary = Some True)"

lemma claim_persistent_step:
  assumes "claim_persistent m effects pc s = Some (Inr pc')" and "claims_persistent s"
  shows "claim_step claims_persistent (persistent_rel m) effects s pc pc'"
  using assms by (auto simp: claim_persistent_def claim_step_def persistent_rel_def
      split: option.splits bind_splits dest!: find_unclaimed_Some)

lemma claim_transient_step:
  assumes "claim_transient effects tc s = Some (Inr tc')" and "claims_transient s"
  shows "claim_step claims_transient (\<lambda>s e. transient_effect_matches e s) effects s tc tc'"
  using assms by (auto simp: claim_transient_def claim_step_def
      split: option.splits bind_splits dest!: find_unclaimed_Some)

lemma claims_disjoint: "claims_persistent s \<Longrightarrow> \<not> claims_transient s"
  by (auto simp: claims_persistent_def claims_transient_def)

lemma cover_steps_runs:
  "cover_steps m es pc tc ss = Some (Inr (pc', tc')) \<Longrightarrow>
     claim_run claims_persistent (persistent_rel m) (es_persistent es) ss pc pc' \<and>
     claim_run claims_transient (\<lambda>s e. transient_effect_matches e s) (es_transient es) ss tc tc'"
proof (induction ss arbitrary: pc tc)
  case (Cons s ss)
  show ?case
  proof (cases "claims_persistent s")
    case True
    with Cons show ?thesis
      by (auto dest: claim_persistent_step claims_disjoint simp: claim_step_skip)
  next
    case False
    with Cons show ?thesis
      by (cases "claims_transient s")
        (auto dest: claim_transient_step simp: claim_step_skip)
  qed
qed simp

lemma coverage_bij:
  assumes "validate_effect_coverage steps m es = Some (Inr ())"
  shows "\<exists>f. bij_betw f (selected claims_persistent steps) {..<length (es_persistent es)} \<and>
      (\<forall>i \<in> selected claims_persistent steps. persistent_rel m (steps ! i) (es_persistent es ! f i))"
    and "\<exists>f. bij_betw f (selected claims_transient steps) {..<length (es_transient es)} \<and>
      (\<forall>i \<in> selected claims_transient steps. transient_effect_matches (es_transient es ! f i) (steps ! i))"
proof -
  from assms obtain pc tc where c: "cover_steps m es (replicate (length (es_persistent es)) False)
      (replicate (length (es_transient es)) False) steps = Some (Inr (pc, tc))"
    "position (\<lambda>claimed. \<not> claimed) pc = None" "position (\<lambda>claimed. \<not> claimed) tc = None"
    by (auto simp: validate_effect_coverage_def split: option.splits)
  note r = cover_steps_runs [OF c(1)]
  have len: "length pc = length (es_persistent es)" "length tc = length (es_transient es)"
    using r claim_run_length by force+
  show "\<exists>f. bij_betw f (selected claims_persistent steps) {..<length (es_persistent es)} \<and>
      (\<forall>i \<in> selected claims_persistent steps. persistent_rel m (steps ! i) (es_persistent es ! f i))"
    using r c(2) len by (intro claim_run_bij [of _ _ _ _ pc]) (auto simp: position_not_None)
  show "\<exists>f. bij_betw f (selected claims_transient steps) {..<length (es_transient es)} \<and>
      (\<forall>i \<in> selected claims_transient steps. transient_effect_matches (es_transient es ! f i) (steps ! i))"
    using r c(3) len by (intro claim_run_bij [of _ "\<lambda>s e. transient_effect_matches e s" _ _ tc])
      (auto simp: position_not_None)
qed

section \<open>The passes over steps and actions\<close>

lemma check_steps_Inr:
  "check_steps seen ss = Inr seen' \<longleftrightarrow>
     seen' = rev (map step_key ss) @ seen \<and> distinct (map step_key ss) \<and>
     (\<forall>s \<in> set ss. step_key s \<notin> set seen \<and> validate_self_consistent s = Inr ())"
proof (induction ss arbitrary: seen)
  case (Cons s ss)
  have "step_key s \<notin> step_key ` set ss \<longleftrightarrow> (\<forall>t \<in> set ss. step_key t \<noteq> step_key s)" by (auto simp: image_iff)
  then show ?case by (auto simp: Cons)
qed auto

lemma check_actions_Inr:
  "check_actions ks seen as = Inr () \<longleftrightarrow>
     distinct (map (\<lambda>a. as_str (pa_action_id a)) as) \<and>
     (\<forall>a \<in> set as. as_str (pa_action_id a) \<notin> set seen \<and> action_key a \<in> set ks)"
proof (induction as arbitrary: seen)
  case (Cons a as)
  have "as_str (pa_action_id a) \<notin> (\<lambda>a. as_str (pa_action_id a)) ` set as \<longleftrightarrow>
      (\<forall>b \<in> set as. as_str (pa_action_id b) \<noteq> as_str (pa_action_id a))" by (auto simp: image_iff)
  then show ?case by (auto simp: Cons)
qed simp

lemma collect_primaries_Inr:
  assumes "collect_primaries m as = Inr m'"
  shows "(m' k = Some a \<longleftrightarrow> m k = Some a \<or> a \<in> set as \<and> pa_role a = PrimaryEffect \<and> action_key a = k) \<and>
    (\<forall>a \<in> set as. if pa_role a = PrimaryEffect then m (action_key a) = None else pa_effect_class a = ReadOnly) \<and>
    distinct (map action_key (filter (\<lambda>a. pa_role a = PrimaryEffect) as))"
  using assms
proof (induction as arbitrary: m)
  case (Cons b as)
  show ?case
  proof (cases "pa_role b")
    case PrimaryEffect
    with Cons.prems have n: "m (action_key b) = None"
      and c: "collect_primaries (m(action_key b \<mapsto> b)) as = Inr m'" by (auto split: if_splits)
    note IH = Cons.IH [OF c]
    have ne: "action_key x \<noteq> action_key b" if "x \<in> set as" "pa_role x = PrimaryEffect" for x
      using IH that by (auto split: if_splits)
    have "m' k = Some a \<longleftrightarrow> m k = Some a \<or> a \<in> set (b # as) \<and> pa_role a = PrimaryEffect \<and> action_key a = k"
      using IH n PrimaryEffect by (cases "k = action_key b") auto
    moreover have "\<forall>x \<in> set (b # as). if pa_role x = PrimaryEffect then m (action_key x) = None
        else pa_effect_class x = ReadOnly"
      using IH n PrimaryEffect ne by (auto split: if_splits)
    moreover have "distinct (map action_key (filter (\<lambda>a. pa_role a = PrimaryEffect) (b # as)))"
      using IH PrimaryEffect ne by (auto simp: image_iff)
    ultimately show ?thesis by blast
  next
    case ReadOnlyTransportSubAction
    with Cons show ?thesis by (auto split: if_splits)
  qed
qed simp

lemma as_str_eq_iff [simp]: "as_str i = as_str j \<longleftrightarrow> i = j"
  by (cases i; cases j) simp

text \<open>What an accepted projection has been through.\<close>

definition primary_ok :: "public_flash_step \<Rightarrow> private_action_record \<Rightarrow> bool" where
  "primary_ok s a \<longleftrightarrow> action_digest a = Inr (ps_private_action_digest s) \<and> pa_effect_class a \<le> ps_effect s \<and>
     (pa_declared_target a = None \<or> pa_declared_target a = ps_semantic_target s) \<and>
     (ps_content_digest s = None \<or> pa_content_digest a = ps_content_digest s)"

lemma check_primary_Inr:
  "action_digest a = Inr d \<Longrightarrow> check_primary s a d = Inr () \<longleftrightarrow> primary_ok s a"
  by (auto simp: check_primary_def primary_ok_def not_less split: option.splits)

lemma project_step_Inr:
  "project_step m as s = Inr bs \<Longrightarrow> \<exists>a. m (step_key s) = Some a \<and> primary_ok s a"
  by (auto simp: project_step_def check_primary_Inr)

lemma validate_projection_Inr:
  assumes "validate_projection steps plan es = Some (Inr d)"
  obtains m projected where "steps \<noteq> []" and "distinct (map step_key steps)"
    and "\<forall>s \<in> set steps. validate_self_consistent s = Inr ()"
    and "check_actions (rev (map step_key steps)) [] (spp_actions plan) = Inr ()"
    and "collect_primaries Map.empty (spp_actions plan) = Inr m"
    and "try_map (project_step m (spp_actions plan)) steps = Inr projected"
    and "validate_effect_coverage steps m es = Some (Inr ())"
    and "pd_per_action d = concat projected"
  using assms by (auto simp: validate_projection_def Let_def check_steps_Inr split: if_splits)

lemma primary_map_iff:
  assumes "collect_primaries Map.empty as = Inr m"
  shows "m k = Some a \<longleftrightarrow> a \<in> set as \<and> pa_role a = PrimaryEffect \<and> action_key a = k"
  using collect_primaries_Inr [OF assms, of k a] by simp

section \<open>An example plan\<close>

definition ex_range :: byte_range where
  "ex_range = \<lparr>br_start = 0, br_length = 4096\<rparr>"

definition ex_action :: "workflow_effect \<Rightarrow> private_action_record" where
  "ex_action c = \<lparr>pa_action_id = OpaqueId ''a1'', pa_step_id = OpaqueId ''s1'', pa_role = PrimaryEffect,
     pa_effect_class = c, pa_declared_target = Some (TPartition (OpaqueId ''boot'')),
     pa_declared_range = Some ex_range, pa_content_digest = Some 7, pa_body = CNull\<rparr>"

definition ex_step :: "workflow_effect \<Rightarrow> public_flash_step" where
  "ex_step c = \<lparr>ps_step_id = OpaqueId ''s1'', ps_kind = KWriteTarget, ps_effect = Destructive,
     ps_cancellation = NonInterruptible, ps_binding = ExactBoundTarget,
     ps_semantic_target = Some (TPartition (OpaqueId ''boot'')), ps_content_digest = Some 7,
     ps_expected_mode_before = None, ps_expected_mode_after = None,
     ps_private_action_digest = projr (action_digest (ex_action c))\<rparr>"

definition ex_effects :: effect_set where
  "ex_effects = read_only\<lparr>es_persistent := [WritePartition (OpaqueId ''boot'') ex_range 7]\<rparr>"

lemma encodes_binding [cbor_encodes]: "encodes (binding_to_cbor b)"
  unfolding binding_to_cbor_def by (rule cbor_encodes) (auto simp: cbor_encodes id_to_cbor_def digest_to_cbor_def)

lemma ex_action_digest: "action_digest (ex_action c) = Inr (ps_private_action_digest (ex_step c))"
proof -
  have "encodes (action_to_cbor (ex_action c))"
    unfolding action_to_cbor_def ex_action_def
    by (rule cbor_encodes) (auto simp: id_to_cbor_def digest_to_cbor_def opt_cbor_def byte_range_to_cbor_def
        intro!: cbor_encodes)
  then show ?thesis
    by (auto simp: encodes_def action_digest_def digest_canonical_def ex_step_def)
qed

lemma ex_projection: "\<exists>d. validate_projection [ex_step c] \<lparr>spp_actions = [ex_action c]\<rparr> ex_effects = Some (Inr d)"
proof -
  have key: "step_key (ex_step c) = ''s1''" "action_key (ex_action c) = ''s1''" by (simp_all add: ex_step_def ex_action_def)
  have "validate_self_consistent (ex_step c) = Inr ()"
    by (simp add: ex_step_def validate_self_consistent_def has_write_target_def)
  then have 1: "check_steps [] [ex_step c] = Inr [''s1'']" by (simp add: key)
  have 2: "check_actions [''s1''] [] [ex_action c] = Inr ()" by (simp add: key)
  have 3: "collect_primaries Map.empty [ex_action c] = Inr [''s1'' \<mapsto> (ex_action c)]"
    by (simp add: key) (simp add: ex_action_def)
  have "primary_ok (ex_step c) (ex_action c)"
    by (simp add: primary_ok_def ex_action_digest) (cases c; simp add: ex_step_def ex_action_def less_eq_workflow_effect_def)
  then have "\<exists>p. project_step [''s1'' \<mapsto> (ex_action c)] [ex_action c] (ex_step c) = Inr p"
    by (simp add: project_step_def key ex_action_digest check_primary_Inr) (simp add: ex_action_def)
  then obtain p where 4: "try_map (project_step [''s1'' \<mapsto> (ex_action c)] [ex_action c]) [ex_step c] = Inr [p]" by auto
  have "persistent_effect_matches (WritePartition (OpaqueId ''boot'') ex_range 7) (ex_step c) (TPartition (OpaqueId ''boot'')) (ex_action c) = Some True"
    by (simp add: ex_step_def ex_action_def range_matches_def contains_range_def end_exclusive_def ex_range_def checked_add_def)
  then have 5: "validate_effect_coverage [ex_step c] [''s1'' \<mapsto> (ex_action c)] ex_effects = Some (Inr ())"
    by (simp add: validate_effect_coverage_def claims_persistent_def claim_persistent_def ex_effects_def read_only_def key)
      (simp add: ex_step_def)
  have "encodes (CArray (map binding_to_cbor p))" by (auto intro!: cbor_encodes)
  then obtain bs where 6: "encode (CArray (map binding_to_cbor p)) = Inr bs" by (auto simp: encodes_def)
  show ?thesis
    unfolding validate_projection_def
    by (simp add: 1 2 3 4 5 6 Let_def del: check_steps.simps check_actions.simps collect_primaries.simps try_map.simps encode.simps)
qed

section \<open>Properties\<close>



text \<open>
  C10. Effects and steps correspond one to one. In an accepted projection the write and erase steps are in
  bijection with the declared persistent effects, and the mode, reboot and agent steps with the declared
  transient effects, each step with an effect it matches. So no step does something undeclared, and
  nothing is declared that no step does.
\<close>

theorem projection_covers_effects:
  assumes "validate_projection steps plan es = Some (Inr d)"
  shows "(\<exists>f. bij_betw f {i. i < length steps \<and> ps_kind (steps ! i) \<in> {KWriteTarget, KEraseTarget}}
        {..<length (es_persistent es)} \<and>
      (\<forall>i < length steps. ps_kind (steps ! i) \<in> {KWriteTarget, KEraseTarget} \<longrightarrow>
        (\<exists>a t. a \<in> set (spp_actions plan) \<and> pa_role a = PrimaryEffect \<and> pa_step_id a = ps_step_id (steps ! i) \<and>
          ps_semantic_target (steps ! i) = Some t \<and>
          persistent_effect_matches (es_persistent es ! f i) (steps ! i) t a = Some True))) \<and>
    (\<exists>g. bij_betw g {i. i < length steps \<and> ps_kind (steps ! i) \<in> {KEnsureMode, KReboot, KLoadEphemeralAgent}}
        {..<length (es_transient es)} \<and>
      (\<forall>i < length steps. ps_kind (steps ! i) \<in> {KEnsureMode, KReboot, KLoadEphemeralAgent} \<longrightarrow>
        transient_effect_matches (es_transient es ! g i) (steps ! i)))"
proof -
  from assms obtain m where m: "collect_primaries Map.empty (spp_actions plan) = Inr m"
    and c: "validate_effect_coverage steps m es = Some (Inr ())"
    by (rule validate_projection_Inr)
  note pm = primary_map_iff [OF m]
  have sel: "selected claims_persistent steps = {i. i < length steps \<and> ps_kind (steps ! i) \<in> {KWriteTarget, KEraseTarget}}"
    "selected claims_transient steps = {i. i < length steps \<and> ps_kind (steps ! i) \<in> {KEnsureMode, KReboot, KLoadEphemeralAgent}}"
    by (simp_all add: selected_def claims_persistent_def claims_transient_def)
  show ?thesis
  proof (rule conjI)
    from coverage_bij(1) [OF c, unfolded sel] obtain f where f: "bij_betw f {i. i < length steps \<and>
        ps_kind (steps ! i) \<in> {KWriteTarget, KEraseTarget}} {..<length (es_persistent es)}"
      "\<forall>i \<in> {i. i < length steps \<and> ps_kind (steps ! i) \<in> {KWriteTarget, KEraseTarget}}.
        persistent_rel m (steps ! i) (es_persistent es ! f i)" by blast
    show "\<exists>f. bij_betw f {i. i < length steps \<and> ps_kind (steps ! i) \<in> {KWriteTarget, KEraseTarget}}
        {..<length (es_persistent es)} \<and>
      (\<forall>i < length steps. ps_kind (steps ! i) \<in> {KWriteTarget, KEraseTarget} \<longrightarrow>
        (\<exists>a t. a \<in> set (spp_actions plan) \<and> pa_role a = PrimaryEffect \<and> pa_step_id a = ps_step_id (steps ! i) \<and>
          ps_semantic_target (steps ! i) = Some t \<and>
          persistent_effect_matches (es_persistent es ! f i) (steps ! i) t a = Some True))"
      by (rule exI [of _ f], rule conjI [OF f(1)]) (use f(2) pm in \<open>fastforce simp: persistent_rel_def\<close>)
  next
    from coverage_bij(2) [OF c, unfolded sel]
    show "\<exists>g. bij_betw g {i. i < length steps \<and> ps_kind (steps ! i) \<in> {KEnsureMode, KReboot, KLoadEphemeralAgent}}
        {..<length (es_transient es)} \<and>
      (\<forall>i < length steps. ps_kind (steps ! i) \<in> {KEnsureMode, KReboot, KLoadEphemeralAgent} \<longrightarrow>
        transient_effect_matches (es_transient es ! g i) (steps ! i))" by blast
  qed
qed

theorem projection_covers_effects_witness:
  "\<exists>f. bij_betw f {i. i < length [ex_step Destructive] \<and> ps_kind ([ex_step Destructive] ! i) \<in> {KWriteTarget, KEraseTarget}}
     {..<length (es_persistent ex_effects)}"
proof -
  obtain d where "validate_projection [ex_step Destructive] \<lparr>spp_actions = [ex_action Destructive]\<rparr> ex_effects = Some (Inr d)"
    using ex_projection by blast
  from projection_covers_effects [OF this] show ?thesis by blast
qed

text \<open>
  C32. Three effects of the vocabulary can never be part of a plan: a plan that declares a partition table
  replacement, a boot metadata change or a USB detach and reattach is always refused, because no step
  kind claims them.
\<close>

theorem undeclarable_effects:
  assumes "validate_projection steps plan es = Some (Inr d)"
  shows "(\<forall>e \<in> set (es_persistent es). effect_range e \<noteq> None) \<and> (\<forall>x. UsbDetachReattach x \<notin> set (es_transient es))"
proof -
  from assms obtain m where c: "validate_effect_coverage steps m es = Some (Inr ())"
    by (rule validate_projection_Inr)
  have cover: "\<exists>i \<in> A. f i = j" if "bij_betw f A {..<n}" "j < n" for f :: "nat \<Rightarrow> nat" and A j n
    using that by (metis bij_betw_imp_surj_on imageE lessThan_iff)
  have mm: "effect_range e \<noteq> None" if "persistent_effect_matches e s t a = Some True" for e s t a
    using that by (cases "(e, s, t, a)" rule: persistent_effect_matches.cases) auto
  from coverage_bij(1) [OF c] obtain f where f: "bij_betw f (selected claims_persistent steps) {..<length (es_persistent es)}"
    "\<forall>i \<in> selected claims_persistent steps. persistent_rel m (steps ! i) (es_persistent es ! f i)" by blast
  have 1: "\<forall>e \<in> set (es_persistent es). effect_range e \<noteq> None"
    using cover [OF f(1)] f(2) mm by (auto simp: in_set_conv_nth persistent_rel_def) metis
  from coverage_bij(2) [OF c] obtain g where g: "bij_betw g (selected claims_transient steps) {..<length (es_transient es)}"
    "\<forall>i \<in> selected claims_transient steps. transient_effect_matches (es_transient es ! g i) (steps ! i)" by blast
  have "\<forall>x. UsbDetachReattach x \<notin> set (es_transient es)"
    using cover [OF g(1)] g(2) by (auto simp: in_set_conv_nth) (metis transient_effect_matches.simps(4))
  with 1 show ?thesis by blast
qed
theorem undeclarable_effects_witness:
  "\<exists>d. validate_projection [ex_step Destructive] \<lparr>spp_actions = [ex_action Destructive]\<rparr> ex_effects = Some (Inr d) \<and>
     es_persistent ex_effects \<noteq> [] \<and> effect_range (hd (es_persistent ex_effects)) \<noteq> None"
proof -
  obtain d where d: "validate_projection [ex_step Destructive] \<lparr>spp_actions = [ex_action Destructive]\<rparr> ex_effects = Some (Inr d)"
    using ex_projection by blast
  moreover have ne: "es_persistent ex_effects \<noteq> []" by (simp add: ex_effects_def)
  ultimately show ?thesis using undeclarable_effects [OF d] hd_in_set [OF ne] by blast
qed

end
