(* ===== verification/Plan.thy ===== *)
theory Plan
  imports Projection
begin

text \<open>
  \<open>crates/arkforge-core/src/plan.rs\<close>: the sealed plan, its digest, and the assessment that takes its
  place when evidence is missing. A sealed plan verifies against its own digest, and the digest binds
  everything the plan says, up to the order of the two maps it carries.
\<close>

section \<open>Parts of a plan\<close>

datatype plan_schema_version = PlanSchemaVersion u32

definition plan_schema_CURRENT :: plan_schema_version where
  "plan_schema_CURRENT = PlanSchemaVersion 1"

fun schema_to_cbor :: "plan_schema_version \<Rightarrow> cbor" where
  "schema_to_cbor (PlanSchemaVersion v) = CUnsigned (ucast v)"

datatype execution_purpose = PrimaryFlash | SupersedingRecovery

fun purpose_as_str :: "execution_purpose \<Rightarrow> string" where
  "purpose_as_str PrimaryFlash = ''primaryFlash''"
| "purpose_as_str SupersedingRecovery = ''supersedingRecovery''"

definition purpose_parse :: "string \<Rightarrow> execution_purpose option" where
  "purpose_parse value =
     (if value = ''primaryFlash'' then Some PrimaryFlash
      else if value = ''supersedingRecovery'' then Some SupersedingRecovery
      else None)"

record postflight_policy =
  pf_require_exact_target_lineage :: bool
  pf_require_mode :: "device_mode option"
  pf_required_runtime_facts :: "(opaque_id \<times> string) list"

definition postflight_none :: postflight_policy where
  "postflight_none = \<lparr>pf_require_exact_target_lineage = False, pf_require_mode = None,
     pf_required_runtime_facts = []\<rparr>"

definition facts_to_cbor :: "(opaque_id \<times> string) list \<Rightarrow> cbor" where
  "facts_to_cbor fs = CMap (map (\<lambda>(k, v). (id_to_cbor k, CText v)) fs)"

definition postflight_to_cbor :: "postflight_policy \<Rightarrow> cbor" where
  "postflight_to_cbor p = cbor_map [
     (''requireExactTargetLineage'', CBool (pf_require_exact_target_lineage p)),
     (''requireMode'', opt_cbor mode_to_cbor (pf_require_mode p)),
     (''requiredRuntimeFacts'', facts_to_cbor (pf_required_runtime_facts p))]"

record recovery_contract_ref =
  rcr_id :: opaque_id
  rcr_version :: version
  rcr_digest :: sha256_digest

definition contract_to_cbor :: "recovery_contract_ref \<Rightarrow> cbor" where
  "contract_to_cbor c = cbor_map [
     (''id'', id_to_cbor (rcr_id c)),
     (''version'', version_to_cbor (rcr_version c)),
     (''digest'', digest_to_cbor (rcr_digest c))]"

section \<open>The envelope and its seal\<close>

record flash_plan_envelope =
  fp_schema_version :: plan_schema_version
  fp_plan_id :: plan_id
  fp_plan_digest :: sha256_digest
  fp_execution_purpose :: execution_purpose
  fp_authority_binding :: authority_binding_ref
  fp_provider :: provider_identity
  fp_profile :: device_profile_identity
  fp_artifact :: artifact_identity
  fp_toolchain :: toolchain_identity
  fp_maturity :: maturity_state
  fp_authority_support :: authority_support_binding
  fp_negotiated_capabilities :: negotiated_capabilities
  fp_public_steps :: "public_flash_step list"
  fp_effect_set :: effect_set
  fp_provider_execution_plan_digest :: sha256_digest
  fp_public_projection_digest :: sha256_digest
  fp_per_action_digests :: "action_digest_binding list"
  fp_recovery_contract :: "recovery_contract_ref option"
  fp_postflight :: postflight_policy
  fp_created_at_epoch_ms :: u64
  fp_expires_at_epoch_ms :: u64

record plan_seal_input =
  si_schema_version :: plan_schema_version
  si_plan_id :: plan_id
  si_execution_purpose :: execution_purpose
  si_authority_binding :: authority_binding_ref
  si_provider :: provider_identity
  si_profile :: device_profile_identity
  si_artifact :: artifact_identity
  si_toolchain :: toolchain_identity
  si_maturity :: maturity_state
  si_authority_support :: authority_support_binding
  si_negotiated_capabilities :: negotiated_capabilities
  si_public_steps :: "public_flash_step list"
  si_effect_set :: effect_set
  si_projection :: projection_digests
  si_recovery_contract :: "recovery_contract_ref option"
  si_postflight :: postflight_policy
  si_created_at_epoch_ms :: u64
  si_expires_at_epoch_ms :: u64

datatype plan_error =
    ExpiryNotAfterCreation u64 u64
  | PlanDigestMismatch sha256_digest sha256_digest
  | PlanEffect effect_error
  | PlanCbor cbor_error

definition plan_digest_body :: "plan_seal_input \<Rightarrow> cbor" where
  "plan_digest_body i = cbor_map [
     (''schemaVersion'', schema_to_cbor (si_schema_version i)),
     (''planId'', id_to_cbor (si_plan_id i)),
     (''executionPurpose'', CText (purpose_as_str (si_execution_purpose i))),
     (''authorityBinding'', binding_ref_to_cbor (si_authority_binding i)),
     (''provider'', provider_to_cbor (si_provider i)),
     (''profile'', profile_id_to_cbor (si_profile i)),
     (''artifact'', artifact_to_cbor (si_artifact i)),
     (''toolchain'', toolchain_to_cbor (si_toolchain i)),
     (''maturity'', maturity_to_cbor (si_maturity i)),
     (''authoritySupport'', support_binding_to_cbor (si_authority_support i)),
     (''negotiatedCapabilities'', capabilities_to_cbor (si_negotiated_capabilities i)),
     (''publicSteps'', CArray (map step_to_cbor (si_public_steps i))),
     (''effectSet'', effect_set_to_cbor (si_effect_set i)),
     (''providerExecutionPlanDigest'', digest_to_cbor (pd_provider_execution_plan_digest (si_projection i))),
     (''publicProjectionDigest'', digest_to_cbor (pd_public_projection_digest (si_projection i))),
     (''recoveryContract'', opt_cbor contract_to_cbor (si_recovery_contract i)),
     (''postflight'', postflight_to_cbor (si_postflight i)),
     (''createdAtEpochMs'', CUnsigned (si_created_at_epoch_ms i)),
     (''expiresAtEpochMs'', CUnsigned (si_expires_at_epoch_ms i))]"

definition seal :: "plan_seal_input \<Rightarrow> (plan_error + flash_plan_envelope) option" where
  "seal i =
     (if si_expires_at_epoch_ms i \<le> si_created_at_epoch_ms i then
        Some (Inl (ExpiryNotAfterCreation (si_created_at_epoch_ms i) (si_expires_at_epoch_ms i)))
      else
        abind (map_option (map_err PlanEffect) (validate_executable (si_effect_set i))) (\<lambda>_.
        abind (Some (map_err PlanCbor (encode (plan_digest_body i)))) (\<lambda>bytes.
          Some (Inr \<lparr>fp_schema_version = si_schema_version i,
            fp_plan_id = si_plan_id i,
            fp_plan_digest = digest_in_domain DomPlan bytes,
            fp_execution_purpose = si_execution_purpose i,
            fp_authority_binding = si_authority_binding i,
            fp_provider = si_provider i,
            fp_profile = si_profile i,
            fp_artifact = si_artifact i,
            fp_toolchain = si_toolchain i,
            fp_maturity = si_maturity i,
            fp_authority_support = si_authority_support i,
            fp_negotiated_capabilities = si_negotiated_capabilities i,
            fp_public_steps = si_public_steps i,
            fp_effect_set = si_effect_set i,
            fp_provider_execution_plan_digest = pd_provider_execution_plan_digest (si_projection i),
            fp_public_projection_digest = pd_public_projection_digest (si_projection i),
            fp_per_action_digests = pd_per_action (si_projection i),
            fp_recovery_contract = si_recovery_contract i,
            fp_postflight = si_postflight i,
            fp_created_at_epoch_ms = si_created_at_epoch_ms i,
            fp_expires_at_epoch_ms = si_expires_at_epoch_ms i\<rparr>))))"

text \<open>The seal input \<open>digest_body_bytes\<close> rebuilds from the envelope.\<close>

definition seal_input_of :: "flash_plan_envelope \<Rightarrow> plan_seal_input" where
  "seal_input_of p = \<lparr>si_schema_version = fp_schema_version p,
     si_plan_id = fp_plan_id p,
     si_execution_purpose = fp_execution_purpose p,
     si_authority_binding = fp_authority_binding p,
     si_provider = fp_provider p,
     si_profile = fp_profile p,
     si_artifact = fp_artifact p,
     si_toolchain = fp_toolchain p,
     si_maturity = fp_maturity p,
     si_authority_support = fp_authority_support p,
     si_negotiated_capabilities = fp_negotiated_capabilities p,
     si_public_steps = fp_public_steps p,
     si_effect_set = fp_effect_set p,
     si_projection = \<lparr>pd_per_action = fp_per_action_digests p,
       pd_provider_execution_plan_digest = fp_provider_execution_plan_digest p,
       pd_public_projection_digest = fp_public_projection_digest p\<rparr>,
     si_recovery_contract = fp_recovery_contract p,
     si_postflight = fp_postflight p,
     si_created_at_epoch_ms = fp_created_at_epoch_ms p,
     si_expires_at_epoch_ms = fp_expires_at_epoch_ms p\<rparr>"

definition digest_body_bytes :: "flash_plan_envelope \<Rightarrow> plan_error + bytes" where
  "digest_body_bytes p = map_err PlanCbor (encode (plan_digest_body (seal_input_of p)))"

definition recompute_digest :: "flash_plan_envelope \<Rightarrow> plan_error + sha256_digest" where
  "recompute_digest p = rbind (digest_body_bytes p) (\<lambda>bytes. Inr (digest_in_domain DomPlan bytes))"

definition verify_self_digest :: "flash_plan_envelope \<Rightarrow> plan_error + unit" where
  "verify_self_digest p =
     rbind (recompute_digest p) (\<lambda>recomputed.
       if recomputed \<noteq> fp_plan_digest p then Inl (PlanDigestMismatch (fp_plan_digest p) recomputed)
       else Inr ())"

definition is_expired_at :: "flash_plan_envelope \<Rightarrow> u64 \<Rightarrow> bool" where
  "is_expired_at p now_epoch_ms \<longleftrightarrow> fp_expires_at_epoch_ms p \<le> now_epoch_ms"

section \<open>Assessments\<close>

datatype execution_availability = Available | ExecutionUnavailable string

fun availability_as_str :: "execution_availability \<Rightarrow> string" where
  "availability_as_str Available = ''available''"
| "availability_as_str (ExecutionUnavailable reason) = ''unavailable''"

definition availability_to_cbor :: "execution_availability \<Rightarrow> cbor" where
  "availability_to_cbor a = cbor_map [
     (''availability'', CText (availability_as_str a)),
     (''reason'', (case a of Available \<Rightarrow> CNull | ExecutionUnavailable reason \<Rightarrow> CText reason))]"

record execution_unknown =
  eu_id :: opaque_id
  eu_summary :: string

definition unknown_to_cbor :: "execution_unknown \<Rightarrow> cbor" where
  "unknown_to_cbor u = cbor_map [(''id'', id_to_cbor (eu_id u)), (''summary'', CText (eu_summary u))]"

text \<open>\<open>minimum_grade\<close> is one character, kept as the text it prints as.\<close>

record evidence_requirement =
  er_id :: opaque_id
  er_closes :: "opaque_id list"
  er_description :: string
  er_minimum_grade :: string

definition requirement_to_cbor :: "evidence_requirement \<Rightarrow> cbor" where
  "requirement_to_cbor r = cbor_map [
     (''id'', id_to_cbor (er_id r)),
     (''closes'', CArray (map id_to_cbor (er_closes r))),
     (''description'', CText (er_description r)),
     (''minimumGrade'', CText (er_minimum_grade r))]"

record provider_candidate =
  pc_provider :: provider_identity
  pc_maturity :: maturity_state
  pc_rationale :: string

definition provider_candidate_to_cbor :: "provider_candidate \<Rightarrow> cbor" where
  "provider_candidate_to_cbor c = cbor_map [
     (''provider'', provider_to_cbor (pc_provider c)),
     (''maturity'', maturity_to_cbor (pc_maturity c)),
     (''rationale'', CText (pc_rationale c))]"

record profile_candidate =
  pfc_profile :: device_profile_identity
  pfc_maturity :: maturity_state
  pfc_rationale :: string

definition profile_candidate_to_cbor :: "profile_candidate \<Rightarrow> cbor" where
  "profile_candidate_to_cbor c = cbor_map [
     (''profile'', profile_id_to_cbor (pfc_profile c)),
     (''maturity'', maturity_to_cbor (pfc_maturity c)),
     (''rationale'', CText (pfc_rationale c))]"

record plan_assessment =
  as_provider_candidates :: "provider_candidate list"
  as_profile_candidates :: "profile_candidate list"
  as_would_be_steps :: "public_flash_step list"
  as_known_effects :: effect_set
  as_unknowns :: "execution_unknown list"
  as_evidence_requirements :: "evidence_requirement list"
  as_availability :: execution_availability

definition assessment_to_cbor :: "plan_assessment \<Rightarrow> cbor" where
  "assessment_to_cbor a = cbor_map [
     (''providerCandidates'', CArray (map provider_candidate_to_cbor (as_provider_candidates a))),
     (''profileCandidates'', CArray (map profile_candidate_to_cbor (as_profile_candidates a))),
     (''wouldBeSteps'', CArray (map step_to_cbor (as_would_be_steps a))),
     (''knownEffects'', effect_set_to_cbor (as_known_effects a)),
     (''unknowns'', CArray (map unknown_to_cbor (as_unknowns a))),
     (''evidenceRequirements'', CArray (map requirement_to_cbor (as_evidence_requirements a))),
     (''availability'', availability_to_cbor (as_availability a))]"

datatype plan_materialization =
    Executable flash_plan_envelope
  | Assessment plan_assessment

fun materialized_plan :: "plan_materialization \<Rightarrow> flash_plan_envelope option" where
  "materialized_plan (Executable p) = Some p"
| "materialized_plan (Assessment a) = None"

fun materialized_assessment :: "plan_materialization \<Rightarrow> plan_assessment option" where
  "materialized_assessment (Assessment a) = Some a"
| "materialized_assessment (Executable p) = None"

declare facts_to_cbor_def [to_cbor_defs]
  postflight_to_cbor_def [to_cbor_defs]
  contract_to_cbor_def [to_cbor_defs]
  plan_digest_body_def [to_cbor_defs]
  availability_to_cbor_def [to_cbor_defs]
  unknown_to_cbor_def [to_cbor_defs]
  requirement_to_cbor_def [to_cbor_defs]
  provider_candidate_to_cbor_def [to_cbor_defs]
  profile_candidate_to_cbor_def [to_cbor_defs]
  assessment_to_cbor_def [to_cbor_defs]

section \<open>Lemmas\<close>

interpretation purpose: vocabulary purpose_as_str purpose_parse
proof
  show "purpose_parse (purpose_as_str k) = Some k" for k
    by (cases k) (simp_all add: purpose_parse_def)
qed (auto simp: purpose_parse_def split: if_splits)

text \<open>Two seal inputs that the digest body cannot tell apart.\<close>

definition same_contents :: "plan_seal_input \<Rightarrow> plan_seal_input \<Rightarrow> bool" where
  "same_contents a b \<longleftrightarrow>
     si_schema_version a = si_schema_version b \<and> si_plan_id a = si_plan_id b \<and>
     si_execution_purpose a = si_execution_purpose b \<and> si_authority_binding a = si_authority_binding b \<and>
     si_provider a = si_provider b \<and> si_profile a = si_profile b \<and> si_artifact a = si_artifact b \<and>
     si_toolchain a = si_toolchain b \<and> si_maturity a = si_maturity b \<and>
     si_authority_support a = si_authority_support b \<and>
     mset (nc_entries (si_negotiated_capabilities a)) = mset (nc_entries (si_negotiated_capabilities b)) \<and>
     si_public_steps a = si_public_steps b \<and> si_effect_set a = si_effect_set b \<and>
     pd_provider_execution_plan_digest (si_projection a) = pd_provider_execution_plan_digest (si_projection b) \<and>
     pd_public_projection_digest (si_projection a) = pd_public_projection_digest (si_projection b) \<and>
     si_recovery_contract a = si_recovery_contract b \<and>
     pf_require_exact_target_lineage (si_postflight a) = pf_require_exact_target_lineage (si_postflight b) \<and>
     pf_require_mode (si_postflight a) = pf_require_mode (si_postflight b) \<and>
     mset (pf_required_runtime_facts (si_postflight a)) = mset (pf_required_runtime_facts (si_postflight b)) \<and>
     si_created_at_epoch_ms a = si_created_at_epoch_ms b \<and> si_expires_at_epoch_ms a = si_expires_at_epoch_ms b"

lemma schema_to_cbor_inject [cbor_inject]:
  "canon (schema_to_cbor a) = canon (schema_to_cbor b) \<longleftrightarrow> a = b"
proof -
  have "(ucast (ucast x :: u64) :: u32) = x" for x by (rule ucast_ucast_up) simp
  then show ?thesis by (cases a; cases b) (simp, metis)
qed

lemma contract_to_cbor_inject [cbor_inject]:
  "canon (contract_to_cbor a) = canon (contract_to_cbor b) \<longleftrightarrow> a = b"
  unfolding contract_to_cbor_def
  by (subst canon_record_iff, simp, simp, cases a; cases b) (simp add: cbor_inject)

lemma opt_contract_inject [cbor_inject]:
  "canon (opt_cbor contract_to_cbor a) = canon (opt_cbor contract_to_cbor b) \<longleftrightarrow> a = b"
proof (rule opt_cbor_inject)
  show "canon (contract_to_cbor x) \<noteq> CNull" for x by (simp add: contract_to_cbor_def)
qed (rule cbor_inject)

lemma facts_mset:
  assumes "canon (facts_to_cbor a) = canon (facts_to_cbor b)"
  shows "mset a = mset b"
  using assms unfolding facts_to_cbor_def by (rule canon_pairs_mset) simp_all

lemma postflight_to_cbor_same:
  assumes "canon (postflight_to_cbor a) = canon (postflight_to_cbor b)"
  shows "pf_require_exact_target_lineage a = pf_require_exact_target_lineage b \<and>
    pf_require_mode a = pf_require_mode b \<and>
    mset (pf_required_runtime_facts a) = mset (pf_required_runtime_facts b)"
proof -
  have r: "canon (facts_to_cbor (pf_required_runtime_facts a)) = canon (facts_to_cbor (pf_required_runtime_facts b)) \<and>
      pf_require_exact_target_lineage a = pf_require_exact_target_lineage b \<and> pf_require_mode a = pf_require_mode b"
    using canon_record [OF assms [unfolded postflight_to_cbor_def]] by (simp add: cbor_inject)
  then show ?thesis by (blast intro: facts_mset)
qed

lemma plan_body_same:
  assumes "canon (plan_digest_body a) = canon (plan_digest_body b)"
  shows "same_contents a b"
proof -
  have r: "canon (capabilities_to_cbor (si_negotiated_capabilities a)) = canon (capabilities_to_cbor (si_negotiated_capabilities b)) \<and>
      canon (postflight_to_cbor (si_postflight a)) = canon (postflight_to_cbor (si_postflight b)) \<and>
      si_schema_version a = si_schema_version b \<and> si_plan_id a = si_plan_id b \<and>
      si_execution_purpose a = si_execution_purpose b \<and> si_authority_binding a = si_authority_binding b \<and>
      si_provider a = si_provider b \<and> si_profile a = si_profile b \<and> si_artifact a = si_artifact b \<and>
      si_toolchain a = si_toolchain b \<and> si_maturity a = si_maturity b \<and>
      si_authority_support a = si_authority_support b \<and>
      si_public_steps a = si_public_steps b \<and> si_effect_set a = si_effect_set b \<and>
      pd_provider_execution_plan_digest (si_projection a) = pd_provider_execution_plan_digest (si_projection b) \<and>
      pd_public_projection_digest (si_projection a) = pd_public_projection_digest (si_projection b) \<and>
      si_recovery_contract a = si_recovery_contract b \<and>
      si_created_at_epoch_ms a = si_created_at_epoch_ms b \<and> si_expires_at_epoch_ms a = si_expires_at_epoch_ms b"
    using canon_record [OF assms [unfolded plan_digest_body_def]]
    by (simp add: cbor_inject purpose.as_str_inject canon_array_inject del: canon.simps(1,2))
  from r have "mset (nc_entries (si_negotiated_capabilities a)) = mset (nc_entries (si_negotiated_capabilities b))"
    by (blast intro: capabilities_mset)
  moreover from r have "canon (postflight_to_cbor (si_postflight a)) = canon (postflight_to_cbor (si_postflight b))"
    by blast
  note postflight_to_cbor_same [OF this]
  ultimately show ?thesis using r by (simp add: same_contents_def)
qed

lemma seal_Inr:
  assumes "seal i = Some (Inr p)"
  obtains bytes where "encode (plan_digest_body i) = Inr bytes" and "seal_input_of p = i"
    and "fp_plan_digest p = digest_in_domain DomPlan bytes"
    and "si_created_at_epoch_ms i < si_expires_at_epoch_ms i"
    and "validate_executable (si_effect_set i) = Some (Inr ())"
proof -
  have "map_option (map_err PlanEffect) v = Some (Inr ()) \<longleftrightarrow> v = Some (Inr ())" for v
    by (cases v) auto
  with assms that show thesis
    by (cases i) (auto simp: seal_def seal_input_of_def not_le split: if_splits)
qed

section \<open>An example plan\<close>

definition ex_seal_input :: plan_seal_input where
  "ex_seal_input = \<lparr>si_schema_version = plan_schema_CURRENT,
     si_plan_id = OpaqueId ''p'',
     si_execution_purpose = PrimaryFlash,
     si_authority_binding = \<lparr>abr_authority_namespace = OpaqueId ''n'', abr_binding_id = OpaqueId ''b'',
       abr_binding_revision = 1, abr_stable_identity_digest = 1\<rparr>,
     si_provider = \<lparr>prov_id = OpaqueId ''r'', prov_version = \<lparr>ver_major = 1, ver_minor = 0, ver_patch = 0\<rparr>,
       prov_implementation_digest = 2\<rparr>,
     si_profile = \<lparr>prof_id = OpaqueId ''d'', prof_version = \<lparr>ver_major = 1, ver_minor = 0, ver_patch = 0\<rparr>,
       prof_digest = 3\<rparr>,
     si_artifact = \<lparr>art_artifact_id = OpaqueId ''a'',
       art_format = \<lparr>af_id = OpaqueId ''f'', af_version = \<lparr>ver_major = 1, ver_minor = 0, ver_patch = 0\<rparr>\<rparr>,
       art_content_digest = 4, art_size_bytes = 4096, art_manifest_digest = 5\<rparr>,
     si_toolchain = \<lparr>tc_id = OpaqueId ''t'', tc_kind = NativeProtocol,
       tc_version = \<lparr>ver_major = 1, ver_minor = 0, ver_patch = 0\<rparr>, tc_backend_digest = 6, tc_upstream_ref = None\<rparr>,
     si_maturity = ProductionVerified,
     si_authority_support = \<lparr>asb_key_digest = 8, asb_state = ASProductionVerified\<rparr>,
     si_negotiated_capabilities = capabilities_empty,
     si_public_steps = [],
     si_effect_set = read_only,
     si_projection = \<lparr>pd_per_action = [], pd_provider_execution_plan_digest = 9, pd_public_projection_digest = 10\<rparr>,
     si_recovery_contract = None,
     si_postflight = postflight_none,
     si_created_at_epoch_ms = 1000,
     si_expires_at_epoch_ms = 2000\<rparr>"
lemma ex_encodes: "\<exists>bs. encode (plan_digest_body ex_seal_input) = Inr bs \<and> length bs < 2 ^ 64"
proof (rule encodes_bound)
  show "encodes (plan_digest_body ex_seal_input)"
    unfolding to_cbor_defs ex_seal_input_def
    by (simp add: plan_schema_CURRENT_def capabilities_empty_def read_only_def postflight_none_def)
      (intro cbor_encodes encodes_empty_map; auto intro!: cbor_encodes encodes_empty_map)
  show "cbor_bound (plan_digest_body ex_seal_input) < 2 ^ 64"
    unfolding to_cbor_defs ex_seal_input_def
    by (simp add: plan_schema_CURRENT_def capabilities_empty_def read_only_def postflight_none_def cbor_bound_record)
qed
lemma ex_seal: "\<exists>p bs. seal ex_seal_input = Some (Inr p) \<and> encode (plan_digest_body ex_seal_input) = Inr bs \<and>
    length bs < 2 ^ 64"
proof -
  obtain bs where bs: "encode (plan_digest_body ex_seal_input) = Inr bs" "length bs < 2 ^ 64"
    using ex_encodes by blast
  have "validate_executable (si_effect_set ex_seal_input) = Some (Inr ())"
    by (simp add: ex_seal_input_def validate_executable_def unknown_axes_def read_only_def)
  moreover have "\<not> si_expires_at_epoch_ms ex_seal_input \<le> si_created_at_epoch_ms ex_seal_input"
    by (simp add: ex_seal_input_def)
  ultimately show ?thesis using bs by (simp add: seal_def)
qed

section \<open>Properties\<close>

text \<open>
  C19. Sealing is honest: a plan that comes out of \<open>seal\<close> verifies against its own digest, carries
  exactly what was sealed, has an executable effect set, and expires after it was created.
\<close>

theorem sealed_plan_verifies:
  assumes "seal i = Some (Inr p)"
  shows "verify_self_digest p = Inr () \<and> seal_input_of p = i \<and>
    validate_executable (fp_effect_set p) = Some (Inr ()) \<and>
    (\<forall>now. is_expired_at p now \<longrightarrow> fp_created_at_epoch_ms p < now)"
proof -
  from assms obtain bytes where b: "encode (plan_digest_body i) = Inr bytes" "seal_input_of p = i"
    "fp_plan_digest p = digest_in_domain DomPlan bytes" "si_created_at_epoch_ms i < si_expires_at_epoch_ms i"
    "validate_executable (si_effect_set i) = Some (Inr ())" by (rule seal_Inr)
  have "verify_self_digest p = Inr ()"
    using b(1-3) by (simp add: verify_self_digest_def recompute_digest_def digest_body_bytes_def)
  moreover have "fp_effect_set p = si_effect_set i" "fp_created_at_epoch_ms p = si_created_at_epoch_ms i"
    "fp_expires_at_epoch_ms p = si_expires_at_epoch_ms i"
    using b(2) by (auto simp: seal_input_of_def)
  ultimately show ?thesis using b(2,4,5) by (auto simp: is_expired_at_def)
qed

theorem sealed_plan_verifies_witness:
  "\<exists>p. seal ex_seal_input = Some (Inr p) \<and> verify_self_digest p = Inr ()"
proof -
  obtain p where p: "seal ex_seal_input = Some (Inr p)" using ex_seal by blast
  from sealed_plan_verifies [OF p] p show ?thesis by blast
qed



end
