(* ===== verification/Cbor_Fields.thy ===== *)
theory Cbor_Fields
  imports Core_Types
begin

text \<open>
  Reading a record back from a decoded CBOR map. \<open>StepPermit::from_canonical_bytes\<close>
  (\<open>arkforge-authority-api/src/lib.rs\<close>) and \<open>JournalRecord::from_canonical_bytes\<close>
  (\<open>arkforge-engine/src/journal.rs\<close>) look fields up with the same closures, which differ
  only in the error they make of a field's name; the error constructor is a parameter here. The lemmas
  say what the readers see in the canonical form of a record.
\<close>

section \<open>Field readers\<close>

definition cbor_field :: "(cbor \<times> cbor) list \<Rightarrow> string \<Rightarrow> cbor option" where
  "cbor_field es name = map_option snd (find (\<lambda>e. fst e = CText name) es)"

definition text_field :: "(string \<Rightarrow> 'e) \<Rightarrow> (cbor \<times> cbor) list \<Rightarrow> string \<Rightarrow> 'e + string" where
  "text_field err es name = (case cbor_field es name of Some (CText v) \<Rightarrow> Inr v | _ \<Rightarrow> Inl (err name))"

definition unsigned_field :: "(string \<Rightarrow> 'e) \<Rightarrow> (cbor \<times> cbor) list \<Rightarrow> string \<Rightarrow> 'e + u64" where
  "unsigned_field err es name = (case cbor_field es name of Some (CUnsigned v) \<Rightarrow> Inr v | _ \<Rightarrow> Inl (err name))"

definition boolean_field :: "(string \<Rightarrow> 'e) \<Rightarrow> (cbor \<times> cbor) list \<Rightarrow> string \<Rightarrow> 'e + bool" where
  "boolean_field err es name = (case cbor_field es name of Some (CBool v) \<Rightarrow> Inr v | _ \<Rightarrow> Inl (err name))"

definition digest_field :: "(string \<Rightarrow> 'e) \<Rightarrow> (cbor \<times> cbor) list \<Rightarrow> string \<Rightarrow> 'e + sha256_digest" where
  "digest_field err es name =
     (case cbor_field es name of
        Some (CBytes bs) \<Rightarrow> if length bs = 32 then Inr (from_bytes bs) else Inl (err name)
      | _ \<Rightarrow> Inl (err name))"

text \<open>\<open>XId::new(text(name)?).map_err(|_| err(name))?\<close>\<close>

definition id_field :: "(string \<Rightarrow> 'e) \<Rightarrow> (cbor \<times> cbor) list \<Rightarrow> string \<Rightarrow> 'e + opaque_id" where
  "id_field err es name =
     rbind (text_field err es name) (\<lambda>t. map_err (\<lambda>_. err name) (opaque_id_new t))"

section \<open>Well-formed identifiers\<close>

text \<open>The constructor is the only way to an identifier: every identifier of a running program satisfies this.\<close>

definition id_wf :: "opaque_id \<Rightarrow> bool" where
  "id_wf i \<longleftrightarrow> opaque_id_new (as_str i) = Inr i"

lemma opaque_id_new_wf: "opaque_id_new t = Inr i \<Longrightarrow> id_wf i \<and> as_str i = t"
  by (simp add: id_wf_def opaque_id_new_iff)

lemma id_wf_string: "id_wf i \<Longrightarrow> string_wf (as_str i)"
  by (auto simp: id_wf_def opaque_id_new_iff string_wf_def str_bytes_def intro!: utf8_valid_ascii id_char_ascii)

lemma id_wf_texts [simp]: "id_wf i \<Longrightarrow> cbor_texts_wf (id_to_cbor i)"
  by (simp add: id_to_cbor_def id_wf_string)

section \<open>Canonical entries\<close>

definition canon_entries :: "(string \<times> cbor) list \<Rightarrow> (cbor \<times> cbor) list" where
  "canon_entries fs = map (\<lambda>(k, v). (CText k, v))
     (sort_key (\<lambda>(k, v). projr (encode (CText k))) (map (\<lambda>(k, v). (k, canon v)) fs))"

lemma canon_record_entries: "canon (cbor_map fs) = CMap (canon_entries fs)"
  by (simp add: canon_cbor_map canon_entries_def)

lemma cbor_field_text: "cbor_field (map (\<lambda>(k, v). (CText k, v)) xs) k = map_of xs k"
  by (induction xs) (auto simp: cbor_field_def)

lemma cbor_field_canon:
  assumes "distinct (map fst fs)"
  shows "cbor_field (canon_entries fs) k = map_option canon (map_of fs k)"
proof -
  let ?xs = "map (\<lambda>(k, v). (k, canon v)) fs" and ?f = "\<lambda>(k :: string, v :: cbor). projr (encode (CText k))"
  have d: "distinct (map fst ?xs)" using assms by (simp add: comp_def case_prod_unfold)
  then have "distinct (map fst (sort_key ?f ?xs))"
    by (simp only: distinct_map distinct_sort set_sort)
  then have "map_of (sort_key ?f ?xs) = map_of ?xs"
    using d by (intro map_of_inject_set [THEN iffD2]) auto
  then show ?thesis by (simp add: canon_entries_def cbor_field_text map_of_map)
qed

lemma field_canon:
  assumes "distinct (map fst fs)"
  shows "map_of fs k = Some (CText t) \<Longrightarrow> text_field err (canon_entries fs) k = Inr t"
    and "map_of fs k = Some (CUnsigned n) \<Longrightarrow> unsigned_field err (canon_entries fs) k = Inr n"
    and "map_of fs k = Some (CBool b) \<Longrightarrow> boolean_field err (canon_entries fs) k = Inr b"
    and "map_of fs k = Some (digest_to_cbor d) \<Longrightarrow> digest_field err (canon_entries fs) k = Inr d"
    and "map_of fs k = Some (id_to_cbor i) \<Longrightarrow> id_wf i \<Longrightarrow> id_field err (canon_entries fs) k = Inr i"
  using cbor_field_canon [OF assms, of k]
  by (simp_all add: text_field_def unsigned_field_def boolean_field_def digest_field_def id_field_def
      digest_to_cbor_def id_to_cbor_def id_wf_def)

lemma encode_canonD:
  assumes "encode v = Inr bs" and "cbor_texts_wf v" and "cbor_depth v \<le> MAX_DEPTH" and "length bs < 2 ^ 64"
  shows "decode_canonical bs = Inr (canon v)"
  using assms by (intro decode_complete) (simp_all add: cbor_ok_def)

lemma cbor_texts_wf_record [simp]:
  "cbor_texts_wf (cbor_map fs) \<longleftrightarrow> list_all (\<lambda>(k, v). string_wf k \<and> cbor_texts_wf v) fs"
  by (simp add: cbor_map_def list_all_iff case_prod_unfold)

lemma cbor_depth_record [simp]:
  "cbor_depth (cbor_map fs) = foldr max (map (\<lambda>(k, v). Suc (cbor_depth v)) fs) 0"
  by (simp add: cbor_map_def comp_def case_prod_unfold)

lemma cbor_depth_leaf [simp]:
  "cbor_depth (id_to_cbor i) = 0" "cbor_depth (digest_to_cbor d) = 0" "cbor_texts_wf (digest_to_cbor d)"
  by (simp_all add: id_to_cbor_def digest_to_cbor_def)

lemma id_bound: "id_wf i \<Longrightarrow> cbor_bound (id_to_cbor i) \<le> 137"
  by (simp add: id_wf_def opaque_id_new_iff id_to_cbor_def MAX_ID_LEN_def)

lemma digest_bound [simp]: "cbor_bound (digest_to_cbor d) = 41"
  by (simp add: digest_to_cbor_def)

lemma id_encodes [cbor_encodes]: "encodes (id_to_cbor i)"
  by (simp add: id_to_cbor_def cbor_encodes)

lemma digest_encodes [cbor_encodes]: "encodes (digest_to_cbor d)"
  by (simp add: digest_to_cbor_def cbor_encodes)

lemma ascii_string_wf: "list_all (\<lambda>c. byte_of_char c < 0x80) s \<Longrightarrow> string_wf s"
  by (auto simp: string_wf_def str_bytes_def list_all_iff intro!: utf8_valid_ascii)

lemmas id_char_defs = id_char_def is_ascii_digit_def is_ascii_lowercase_def is_ascii_uppercase_def less_eq_char_def

lemma id_wfI: "as_str i \<noteq> [] \<Longrightarrow> length (as_str i) \<le> 128 \<Longrightarrow> list_all id_char (as_str i) \<Longrightarrow> id_wf i"
  by (simp add: id_wf_def opaque_id_new_iff MAX_ID_LEN_def list_all_iff)

end
