(* ===== verification/Journal.thy ===== *)
theory Journal
  imports Cbor_Fields
begin

text \<open>
  The operational journal (\<open>arkforge-engine/src/journal.rs\<close>): record kinds and the fsync policy
  each one demands, records with their digested body, the stored form and how it is read back, and the
  hash chain with \<open>append\<close>, \<open>adopt\<close> and \<open>verify\<close>. A journal is the list of
  its records, oldest first. Sequence numbers are 64-bit words; a \<open>Vec\<close> cannot hold enough
  records for the \<open>+ 1\<close> to overflow.
\<close>

section \<open>Kinds and policies\<close>

definition SCHEMA_VERSION :: u32 where "SCHEMA_VERSION = 1"

datatype journal_record_kind =
    PlanStored
  | JobCreated
  | LocalExecutorLeaseAcquired
  | PreflightObserved
  | StepAdmissionRequested
  | StepPermitAccepted
  | StepIntentRecorded
  | PermitConsuming
  | ExternalDispatchStarted
  | TransportEvidenceRecorded
  | SemanticReceiptRecorded
  | PermitConsumed
  | StepCheckpointed
  | RebindObserved
  | CancellationRequested
  | PostflightRecorded
  | OutcomeClassified
  | PossibleEffectSetRecorded
  | RecoveryAssessmentPublished
  | RecoveryGuidePublished
  | ReadOnlyObservationRecorded

datatype fsync_policy = Durable | Buffered

fun policy_as_str :: "fsync_policy \<Rightarrow> string" where
  "policy_as_str Durable = ''durable''"
| "policy_as_str Buffered = ''buffered''"

definition policy_parse :: "string \<Rightarrow> fsync_policy option" where
  "policy_parse t = (if t = ''durable'' then Some Durable else if t = ''buffered'' then Some Buffered else None)"

fun kind_fsync_policy :: "journal_record_kind \<Rightarrow> fsync_policy" where
  "kind_fsync_policy PreflightObserved = Buffered"
| "kind_fsync_policy StepAdmissionRequested = Buffered"
| "kind_fsync_policy TransportEvidenceRecorded = Buffered"
| "kind_fsync_policy RebindObserved = Buffered"
| "kind_fsync_policy ReadOnlyObservationRecorded = Buffered"
| "kind_fsync_policy PlanStored = Durable"
| "kind_fsync_policy JobCreated = Durable"
| "kind_fsync_policy LocalExecutorLeaseAcquired = Durable"
| "kind_fsync_policy StepPermitAccepted = Durable"
| "kind_fsync_policy StepIntentRecorded = Durable"
| "kind_fsync_policy PermitConsuming = Durable"
| "kind_fsync_policy ExternalDispatchStarted = Durable"
| "kind_fsync_policy SemanticReceiptRecorded = Durable"
| "kind_fsync_policy PermitConsumed = Durable"
| "kind_fsync_policy StepCheckpointed = Durable"
| "kind_fsync_policy CancellationRequested = Durable"
| "kind_fsync_policy PostflightRecorded = Durable"
| "kind_fsync_policy OutcomeClassified = Durable"
| "kind_fsync_policy PossibleEffectSetRecorded = Durable"
| "kind_fsync_policy RecoveryAssessmentPublished = Durable"
| "kind_fsync_policy RecoveryGuidePublished = Durable"

definition record_kind_ALL :: "journal_record_kind list" where
  "record_kind_ALL = [PlanStored, JobCreated, LocalExecutorLeaseAcquired, PreflightObserved,
     StepAdmissionRequested, StepPermitAccepted, StepIntentRecorded, PermitConsuming,
     ExternalDispatchStarted, TransportEvidenceRecorded, SemanticReceiptRecorded, PermitConsumed,
     StepCheckpointed, RebindObserved, CancellationRequested, PostflightRecorded, OutcomeClassified,
     PossibleEffectSetRecorded, RecoveryAssessmentPublished, RecoveryGuidePublished,
     ReadOnlyObservationRecorded]"

fun record_kind_as_str :: "journal_record_kind \<Rightarrow> string" where
  "record_kind_as_str PlanStored = ''planStored''"
| "record_kind_as_str JobCreated = ''jobCreated''"
| "record_kind_as_str LocalExecutorLeaseAcquired = ''localExecutorLeaseAcquired''"
| "record_kind_as_str PreflightObserved = ''preflightObserved''"
| "record_kind_as_str StepAdmissionRequested = ''stepAdmissionRequested''"
| "record_kind_as_str StepPermitAccepted = ''stepPermitAccepted''"
| "record_kind_as_str StepIntentRecorded = ''stepIntentRecorded''"
| "record_kind_as_str PermitConsuming = ''permitConsuming''"
| "record_kind_as_str ExternalDispatchStarted = ''externalDispatchStarted''"
| "record_kind_as_str TransportEvidenceRecorded = ''transportEvidenceRecorded''"
| "record_kind_as_str SemanticReceiptRecorded = ''semanticReceiptRecorded''"
| "record_kind_as_str PermitConsumed = ''permitConsumed''"
| "record_kind_as_str StepCheckpointed = ''stepCheckpointed''"
| "record_kind_as_str RebindObserved = ''rebindObserved''"
| "record_kind_as_str CancellationRequested = ''cancellationRequested''"
| "record_kind_as_str PostflightRecorded = ''postflightRecorded''"
| "record_kind_as_str OutcomeClassified = ''outcomeClassified''"
| "record_kind_as_str PossibleEffectSetRecorded = ''possibleEffectSetRecorded''"
| "record_kind_as_str RecoveryAssessmentPublished = ''recoveryAssessmentPublished''"
| "record_kind_as_str RecoveryGuidePublished = ''recoveryGuidePublished''"
| "record_kind_as_str ReadOnlyObservationRecorded = ''readOnlyObservationRecorded''"

definition record_kind_parse :: "string \<Rightarrow> journal_record_kind option" where
  "record_kind_parse t = find (\<lambda>k. record_kind_as_str k = t) record_kind_ALL"

section \<open>Records\<close>

type_synonym facts = "(opaque_id \<times> string) list"

record journal_record =
  jr_schema_version :: u32
  jr_sequence :: u64
  jr_job_revision :: u64
  jr_kind :: journal_record_kind
  jr_fsync_policy :: fsync_policy
  jr_at_epoch_ms :: u64
  jr_subject :: opaque_id
  jr_facts :: facts
  jr_previous_digest :: sha256_digest
  jr_record_digest :: sha256_digest

definition record_facts_to_cbor :: "facts \<Rightarrow> cbor" where
  "record_facts_to_cbor fs = CMap (map (\<lambda>(k, v). (id_to_cbor k, CText v)) fs)"

definition record_fields :: "journal_record \<Rightarrow> (string \<times> cbor) list" where
  "record_fields r =
     [(''schemaVersion'', CUnsigned (ucast (jr_schema_version r))),
      (''sequence'', CUnsigned (jr_sequence r)),
      (''jobRevision'', CUnsigned (jr_job_revision r)),
      (''kind'', CText (record_kind_as_str (jr_kind r))),
      (''fsyncPolicy'', CText (policy_as_str (jr_fsync_policy r))),
      (''atEpochMs'', CUnsigned (jr_at_epoch_ms r)),
      (''subject'', id_to_cbor (jr_subject r)),
      (''facts'', record_facts_to_cbor (jr_facts r)),
      (''previousDigest'', digest_to_cbor (jr_previous_digest r))]"

definition record_body :: "journal_record \<Rightarrow> cbor" where
  "record_body r = cbor_map (record_fields r)"

definition record_recompute_digest :: "journal_record \<Rightarrow> cbor_error + sha256_digest" where
  "record_recompute_digest r = digest_canonical DomJournalRecord (record_body r)"

definition record_to_canonical_bytes :: "journal_record \<Rightarrow> cbor_error + bytes" where
  "record_to_canonical_bytes r =
     encode (cbor_map (record_fields r @ [(''recordDigest'', digest_to_cbor (jr_record_digest r))]))"

datatype journal_error =
    SequenceBroken u64 u64
  | ChainBroken u64
  | RecordTampered u64
  | FsyncPolicyMisdeclared u64 journal_record_kind fsync_policy
  | UnknownSchemaVersion u32
  | RecordMalformed string
  | JournalCbor cbor_error

fun decode_fact :: "cbor \<times> cbor \<Rightarrow> journal_error + opaque_id \<times> string" where
  "decode_fact (CText k, CText v) = map_err (\<lambda>_. RecordMalformed ''facts'') (rbind (opaque_id_new k) (\<lambda>i. Inr (i, v)))"
| "decode_fact _ = Inl (RecordMalformed ''facts'')"

definition decode_facts :: "(cbor \<times> cbor) list \<Rightarrow> journal_error + facts" where
  "decode_facts es =
     (case cbor_field es ''facts'' of
        Some (CMap pairs) \<Rightarrow> try_map decode_fact pairs
      | _ \<Rightarrow> Inl (RecordMalformed ''facts''))"

definition record_from_canonical_bytes :: "bytes \<Rightarrow> journal_error + journal_record" where
  "record_from_canonical_bytes input =
     rbind (map_err JournalCbor (decode_canonical input)) (\<lambda>value.
     case value of
       CMap es \<Rightarrow>
         rbind (unsigned_field RecordMalformed es ''schemaVersion'') (\<lambda>sv.
         rbind (if unat sv < 2 ^ 32 then Inr (ucast sv) else Inl (RecordMalformed ''schemaVersion'')) (\<lambda>schema_version.
         rbind (rbind (text_field RecordMalformed es ''kind'') (\<lambda>t. ok_or (record_kind_parse t) (RecordMalformed ''kind''))) (\<lambda>kind.
         rbind (rbind (text_field RecordMalformed es ''fsyncPolicy'')
           (\<lambda>t. ok_or (policy_parse t) (RecordMalformed ''fsyncPolicy''))) (\<lambda>policy.
         rbind (id_field RecordMalformed es ''subject'') (\<lambda>subject.
         rbind (decode_facts es) (\<lambda>facts.
         rbind (unsigned_field RecordMalformed es ''sequence'') (\<lambda>sequence.
         rbind (unsigned_field RecordMalformed es ''jobRevision'') (\<lambda>job_revision.
         rbind (unsigned_field RecordMalformed es ''atEpochMs'') (\<lambda>at_epoch_ms.
         rbind (digest_field RecordMalformed es ''previousDigest'') (\<lambda>previous_digest.
         rbind (digest_field RecordMalformed es ''recordDigest'') (\<lambda>record_digest.
           Inr \<lparr>jr_schema_version = schema_version, jr_sequence = sequence, jr_job_revision = job_revision,
             jr_kind = kind, jr_fsync_policy = policy, jr_at_epoch_ms = at_epoch_ms, jr_subject = subject,
             jr_facts = facts, jr_previous_digest = previous_digest,
             jr_record_digest = record_digest\<rparr>)))))))))))
     | _ \<Rightarrow> Inl (RecordMalformed ''record is not a map''))"

section \<open>The chain\<close>

definition CHAIN_ORIGIN :: sha256_digest where
  "CHAIN_ORIGIN = from_bytes (replicate 32 0)"

type_synonym journal = "journal_record list"

definition head_digest :: "journal \<Rightarrow> sha256_digest" where
  "head_digest j = (if j = [] then CHAIN_ORIGIN else jr_record_digest (last j))"

definition prepare_record ::
  "journal \<Rightarrow> journal_record_kind \<Rightarrow> u64 \<Rightarrow> u64 \<Rightarrow> opaque_id \<Rightarrow> facts \<Rightarrow> journal_error + journal_record" where
  "prepare_record j kind at_epoch_ms job_revision subject facts =
     (let r = \<lparr>jr_schema_version = SCHEMA_VERSION, jr_sequence = of_nat (length j) + 1,
        jr_job_revision = job_revision, jr_kind = kind, jr_fsync_policy = kind_fsync_policy kind,
        jr_at_epoch_ms = at_epoch_ms, jr_subject = subject, jr_facts = facts,
        jr_previous_digest = head_digest j, jr_record_digest = CHAIN_ORIGIN\<rparr>
      in rbind (map_err JournalCbor (record_recompute_digest r)) (\<lambda>d. Inr (r\<lparr>jr_record_digest := d\<rparr>)))"

definition commit_record :: "journal \<Rightarrow> journal_record \<Rightarrow> journal" where
  "commit_record j r = j @ [r]"

definition journal_append ::
  "journal \<Rightarrow> journal_record_kind \<Rightarrow> u64 \<Rightarrow> u64 \<Rightarrow> opaque_id \<Rightarrow> facts \<Rightarrow> journal_error + journal" where
  "journal_append j kind at_epoch_ms job_revision subject facts =
     rbind (prepare_record j kind at_epoch_ms job_revision subject facts) (\<lambda>r. Inr (commit_record j r))"

definition check_record :: "journal_record \<Rightarrow> journal_error + unit" where
  "check_record r =
     (if jr_schema_version r \<noteq> SCHEMA_VERSION then Inl (UnknownSchemaVersion (jr_schema_version r))
      else if jr_fsync_policy r \<noteq> kind_fsync_policy (jr_kind r) then
        Inl (FsyncPolicyMisdeclared (jr_sequence r) (jr_kind r) (jr_fsync_policy r))
      else rbind (map_err JournalCbor (record_recompute_digest r)) (\<lambda>recomputed.
        if recomputed \<noteq> jr_record_digest r then Inl (RecordTampered (jr_sequence r)) else Inr ()))"

definition adopt :: "journal \<Rightarrow> journal_record \<Rightarrow> journal_error + journal" where
  "adopt j r =
     (if jr_sequence r \<noteq> of_nat (length j) + 1 then Inl (SequenceBroken (of_nat (length j) + 1) (jr_sequence r))
      else if jr_previous_digest r \<noteq> head_digest j then Inl (ChainBroken (jr_sequence r))
      else rbind (check_record r) (\<lambda>_. Inr (j @ [r])))"

text \<open>The loop of \<open>verify\<close>, with the index and the previous digest it carries.\<close>

fun verify_from :: "nat \<Rightarrow> sha256_digest \<Rightarrow> journal_record list \<Rightarrow> journal_error + unit" where
  "verify_from index previous [] = Inr ()"
| "verify_from index previous (r # rs) =
     (if jr_sequence r \<noteq> of_nat index + 1 then Inl (SequenceBroken (of_nat index + 1) (jr_sequence r))
      else if jr_schema_version r \<noteq> SCHEMA_VERSION then Inl (UnknownSchemaVersion (jr_schema_version r))
      else if jr_previous_digest r \<noteq> previous then Inl (ChainBroken (jr_sequence r))
      else rbind (check_record r) (\<lambda>_. verify_from (Suc index) (jr_record_digest r) rs))"

definition journal_verify :: "journal \<Rightarrow> journal_error + unit" where
  "journal_verify j = verify_from 0 CHAIN_ORIGIN j"

declare record_facts_to_cbor_def [to_cbor_defs]
  record_body_def [to_cbor_defs]
  record_fields_def [to_cbor_defs]

section \<open>Reading records back\<close>

interpretation policy: vocabulary policy_as_str policy_parse
proof
  show "policy_parse (policy_as_str k) = Some k" for k by (cases k) (simp_all add: policy_parse_def)
qed (auto simp: policy_parse_def split: if_splits)

interpretation record_kind: vocabulary record_kind_as_str record_kind_parse
proof
  show "record_kind_parse (record_kind_as_str k) = Some k" for k
    by (cases k) (simp_all add: record_kind_parse_def record_kind_ALL_def)
  show "t = record_kind_as_str k" if "record_kind_parse t = Some k" for t k
    using that by (auto simp: record_kind_parse_def find_Some_iff)
qed

text \<open>
  A stored record has its facts in canonical order; \<open>record_norm\<close> is a record as it comes back. Fact
  keys are identifiers and fact values are strings.
\<close>

definition canon_facts :: "facts \<Rightarrow> facts" where
  "canon_facts fs = sort_key (\<lambda>(k, v). projr (encode (id_to_cbor k))) fs"

definition record_norm :: "journal_record \<Rightarrow> journal_record" where
  "record_norm r = r\<lparr>jr_facts := canon_facts (jr_facts r)\<rparr>"

definition facts_wf :: "facts \<Rightarrow> bool" where
  "facts_wf fs \<longleftrightarrow> list_all (\<lambda>(k, v). id_wf k \<and> string_wf v) fs"

definition record_wf :: "journal_record \<Rightarrow> bool" where
  "record_wf r \<longleftrightarrow> id_wf (jr_subject r) \<and> facts_wf (jr_facts r)"

lemma mset_canon_facts [simp]: "mset (canon_facts fs) = mset fs"
  by (simp add: canon_facts_def)

lemma set_canon_facts [simp]: "set (canon_facts fs) = set fs"
  by (simp add: canon_facts_def)

lemma canon_record_facts:
  "canon (record_facts_to_cbor fs) = CMap (map (\<lambda>(k, v). (CText (as_str k), CText v)) (canon_facts fs))"
proof -
  have "sort_key (\<lambda>e. projr (encode (fst e))) (map (\<lambda>(k, v). (id_to_cbor k, CText v)) fs) =
      map (\<lambda>(k, v). (id_to_cbor k, CText v)) (canon_facts fs)"
    unfolding canon_facts_def by (subst map_sort_key [symmetric]) (simp add: case_prod_unfold)
  then show ?thesis
    by (simp add: record_facts_to_cbor_def comp_def case_prod_unfold) (simp add: id_to_cbor_def)
qed

lemma decode_facts_canon:
  assumes "cbor_field es ''facts'' = Some (canon (record_facts_to_cbor fs))" and "facts_wf fs"
  shows "decode_facts es = Inr (canon_facts fs)"
proof -
  have "decode_fact (CText (as_str k), CText v) = Inr (k, v)" if "(k, v) \<in> set (canon_facts fs)" for k v
    using that assms(2) by (auto simp: facts_wf_def list_all_iff id_wf_def)
  then show ?thesis
    using assms(1) by (simp add: decode_facts_def canon_record_facts)
      (rule try_map_map_Inr, auto simp: case_prod_unfold)
qed

lemma record_fields_keys: "map fst (record_fields r) = [''schemaVersion'', ''sequence'', ''jobRevision'', ''kind'',
    ''fsyncPolicy'', ''atEpochMs'', ''subject'', ''facts'', ''previousDigest'']"
  by (simp add: record_fields_def)

lemma stored_fields_wf:
  assumes "record_wf r"
  shows "cbor_texts_wf (cbor_map (record_fields r @ xs)) \<longleftrightarrow> cbor_texts_wf (cbor_map xs)"
    and "cbor_depth (cbor_map (record_fields r @ xs)) \<le> max 2 (cbor_depth (cbor_map xs))"
proof -
  have ks: "string_wf (record_kind_as_str k)" "string_wf (policy_as_str p)" for k p
    by (cases k; simp add: ascii_string_wf byte_of_char_def) (cases p; simp add: ascii_string_wf byte_of_char_def)
  have "cbor_texts_wf (record_facts_to_cbor (jr_facts r))"
    using assms by (auto simp: record_wf_def facts_wf_def record_facts_to_cbor_def list_all_iff)
  then show "cbor_texts_wf (cbor_map (record_fields r @ xs)) \<longleftrightarrow> cbor_texts_wf (cbor_map xs)"
    using assms by (simp add: record_fields_def ks record_wf_def ascii_string_wf byte_of_char_def)
  have "cbor_depth (record_facts_to_cbor (jr_facts r)) \<le> 1"
    by (auto simp: record_facts_to_cbor_def foldr_max_le)
  then show "cbor_depth (cbor_map (record_fields r @ xs)) \<le> max 2 (cbor_depth (cbor_map xs))"
    by (simp add: record_fields_def max.coboundedI1)
qed

text \<open>Reading looks only at the fields it knows: whatever else a stored map holds is ignored.\<close>

lemma record_decode_fields:
  assumes "record_wf r" and "distinct (map fst fs)"
    and "\<And>k v. map_of (record_fields r @ [(''recordDigest'', digest_to_cbor (jr_record_digest r))]) k = Some v \<Longrightarrow>
      map_of fs k = Some v"
    and "decode_canonical bs = Inr (canon (cbor_map fs))"
  shows "record_from_canonical_bytes bs = Inr (record_norm r)"
proof -
  note m = assms(3) [unfolded record_fields_def]
  note f = field_canon [OF assms(2)]
  have facts: "decode_facts (canon_entries fs) = Inr (canon_facts (jr_facts r))"
    using assms(1) m [of "''facts''"] cbor_field_canon [OF assms(2)]
    by (intro decode_facts_canon) (simp_all add: record_wf_def)
  have sv: "unat (ucast (jr_schema_version r) :: u64) < 2 ^ 32"
    using unsigned_less [of "jr_schema_version r", where ?'a = nat] by (simp add: unat_ucast_up)
  show ?thesis
    using assms(1) sv
    by (cases r) (simp add: record_from_canonical_bytes_def assms(4) canon_record_entries f m facts record_wf_def
        record_norm_def record_kind.parse_as_str policy.parse_as_str ucast_ucast_up)
qed

lemma record_decode_encode:
  assumes "record_wf r" and "record_to_canonical_bytes r = Inr bs" and "length bs < 2 ^ 64"
  shows "record_from_canonical_bytes bs = Inr (record_norm r)"
proof -
  let ?x = "[(''recordDigest'', digest_to_cbor (jr_record_digest r))]"
  have "string_wf ''recordDigest''" by (simp add: ascii_string_wf byte_of_char_def)
  then have "decode_canonical bs = Inr (canon (cbor_map (record_fields r @ ?x)))"
    using assms stored_fields_wf [OF assms(1), of ?x]
    by (intro encode_canonD) (simp_all add: record_to_canonical_bytes_def MAX_DEPTH_def)
  then show ?thesis
    by (intro record_decode_fields [OF assms(1), of "record_fields r @ ?x"]) (simp_all add: record_fields_keys)
qed

lemma encode_canon_facts:
  assumes "encode (record_facts_to_cbor fs) = Inr bs"
  shows "encode (record_facts_to_cbor (canon_facts fs)) = Inr bs"
proof (rule encode_map_perm [OF _ assms [unfolded record_facts_to_cbor_def],
      of "map (\<lambda>(k, v). (id_to_cbor k, CText v)) (canon_facts fs)", folded record_facts_to_cbor_def])
  show "mset (map (\<lambda>(k, v). (id_to_cbor k, CText v)) fs) = mset (map (\<lambda>(k, v). (id_to_cbor k, CText v)) (canon_facts fs))"
    by simp
qed

lemma record_field_encodes:
  assumes "encode (cbor_map fs) = Inr bs" and "(k, v) \<in> set fs"
  shows "\<exists>x. encode v = Inr x"
proof -
  from assms(1) obtain ps where "try_map encode_pair (map (\<lambda>(k, v). (CText k, v)) fs) = Inr ps"
    by (auto simp: cbor_map_def encode_map_eq simp del: encode.simps)
  moreover have "(CText k, v) \<in> set (map (\<lambda>(k, v). (CText k, v)) fs)" using assms(2) by force
  ultimately have "\<exists>p. encode_pair (CText k, v) = Inr p" by (rule try_map_each)
  then show ?thesis by (auto simp: encode_pair_Inr simp del: encode.simps)
qed

lemma encode_norm_fields:
  assumes "encode (cbor_map (record_fields r @ xs)) = Inr bs"
  shows "encode (cbor_map (record_fields (record_norm r) @ xs)) = Inr bs"
proof -
  obtain x where "encode (record_facts_to_cbor (jr_facts r)) = Inr x"
    using record_field_encodes [OF assms, of "''facts''"] by (auto simp: record_fields_def)
  then have "encode (record_facts_to_cbor (canon_facts (jr_facts r))) = encode (record_facts_to_cbor (jr_facts r))"
    by (simp add: encode_canon_facts)
  then have "encode (cbor_map (record_fields (record_norm r) @ xs)) = encode (cbor_map (record_fields r @ xs))"
    by (intro encode_record_cong) (simp_all add: record_fields_def record_norm_def)
  with assms show ?thesis by simp
qed

lemma encode_norm_body: "encode (record_body r) = Inr bs \<Longrightarrow> encode (record_body (record_norm r)) = Inr bs"
  using encode_norm_fields [of r "[]"] by (simp add: record_body_def)

lemma stored_norm: "record_to_canonical_bytes r = Inr bs \<Longrightarrow> record_to_canonical_bytes (record_norm r) = Inr bs"
  using encode_norm_fields [of r] by (simp add: record_to_canonical_bytes_def record_norm_def)

lemma record_norm_frame [simp, frame_simps]:
  "jr_schema_version (record_norm r) = jr_schema_version r" "jr_sequence (record_norm r) = jr_sequence r"
  "jr_kind (record_norm r) = jr_kind r" "jr_fsync_policy (record_norm r) = jr_fsync_policy r"
  "jr_subject (record_norm r) = jr_subject r" "jr_previous_digest (record_norm r) = jr_previous_digest r"
  "jr_record_digest (record_norm r) = jr_record_digest r" "jr_facts (record_norm r) = canon_facts (jr_facts r)"
  by (simp_all add: record_norm_def)

lemma check_norm: "check_record r = Inr () \<Longrightarrow> check_record (record_norm r) = Inr ()"
  by (auto simp: check_record_def record_recompute_digest_def digest_canonical_def encode_norm_body split: if_splits)

section \<open>The chain as a hash chain\<close>

definition record_valid :: "sha256_digest \<Rightarrow> nat \<Rightarrow> journal_record \<Rightarrow> bool" where
  "record_valid d n r \<longleftrightarrow> jr_sequence r = of_nat n + 1 \<and> jr_previous_digest r = d \<and> check_record r = Inr ()"

lemma verify_from_chained: "verify_from n d rs = Inr () \<longleftrightarrow> chained record_valid jr_record_digest d n rs"
  by (induction rs arbitrary: n d) (auto simp: record_valid_def check_record_def split: if_splits)

lemma journal_verify_chained: "journal_verify j = Inr () \<longleftrightarrow> chained record_valid jr_record_digest CHAIN_ORIGIN 0 j"
  by (simp add: journal_verify_def verify_from_chained)

lemma verify_snoc: "journal_verify (j @ [r]) = Inr () \<longleftrightarrow> journal_verify j = Inr () \<and> record_valid (head_digest j) (length j) r"
  by (auto simp: journal_verify_chained chained_snoc head_digest_def)

lemma adopt_iff: "adopt j r = Inr k \<longleftrightarrow> k = j @ [r] \<and> record_valid (head_digest j) (length j) r"
  by (auto simp: adopt_def record_valid_def)

lemma prepare_record_valid:
  assumes "prepare_record j kind now revision subject facts = Inr r"
  shows "record_valid (head_digest j) (length j) r"
    and "jr_kind r = kind" and "jr_facts r = facts" and "jr_subject r = subject" and "jr_fsync_policy r = kind_fsync_policy kind"
proof -
  define r0 where "r0 = \<lparr>jr_schema_version = SCHEMA_VERSION, jr_sequence = of_nat (length j) + 1,
    jr_job_revision = revision, jr_kind = kind, jr_fsync_policy = kind_fsync_policy kind, jr_at_epoch_ms = now,
    jr_subject = subject, jr_facts = facts, jr_previous_digest = head_digest j, jr_record_digest = CHAIN_ORIGIN\<rparr>"
  from assms obtain d where r: "r = r0\<lparr>jr_record_digest := d\<rparr>" "record_recompute_digest r0 = Inr d"
    unfolding prepare_record_def Let_def r0_def [symmetric] by auto
  have r0: "jr_schema_version r0 = SCHEMA_VERSION" "jr_sequence r0 = of_nat (length j) + 1" "jr_kind r0 = kind"
    "jr_fsync_policy r0 = kind_fsync_policy kind" "jr_facts r0 = facts" "jr_subject r0 = subject"
    "jr_previous_digest r0 = head_digest j" by (simp_all add: r0_def)
  have "record_recompute_digest r = Inr d"
    using r by (simp add: record_recompute_digest_def record_body_def record_fields_def)
  then show "record_valid (head_digest j) (length j) r" "jr_kind r = kind" "jr_facts r = facts" "jr_subject r = subject"
    "jr_fsync_policy r = kind_fsync_policy kind"
    using r(1) r0 by (simp_all add: record_valid_def check_record_def)
qed

text \<open>
  A collision of two record bodies, and equality of records but for the order of their facts. The bound is
  the address space: a body is a byte vector in memory.
\<close>

definition record_same :: "journal_record \<Rightarrow> journal_record \<Rightarrow> bool" where
  "record_same r s \<longleftrightarrow> r\<lparr>jr_facts := []\<rparr> = s\<lparr>jr_facts := []\<rparr> \<and> mset (jr_facts r) = mset (jr_facts s)"

definition record_clash :: "journal_record \<Rightarrow> journal_record \<Rightarrow> bool" where
  "record_clash r s \<longleftrightarrow> (\<exists>x y. encode (record_body r) = Inr x \<and> encode (record_body s) = Inr y \<and>
     collides (domain_bytes DomJournalRecord @ x) (domain_bytes DomJournalRecord @ y))"

definition record_fits :: "journal_record \<Rightarrow> bool" where
  "record_fits r \<longleftrightarrow> (case encode (record_body r) of Inl _ \<Rightarrow> True | Inr bs \<Rightarrow> length bs < 2 ^ 64)"

lemma record_body_same:
  assumes "canon (record_body r) = canon (record_body s)" and "jr_record_digest r = jr_record_digest s"
  shows "record_same r s"
proof -
  have u: "(ucast (a :: u32) :: u64) = ucast b \<longleftrightarrow> a = b" for a b
  proof
    assume "(ucast a :: u64) = ucast b"
    then have "ucast (ucast a :: u64) = (ucast (ucast b :: u64) :: u32)" by simp
    then show "a = b" by (simp add: ucast_ucast_up)
  qed simp
  have "canon (record_facts_to_cbor (jr_facts r)) = canon (record_facts_to_cbor (jr_facts s)) \<and>
      r\<lparr>jr_facts := []\<rparr> = s\<lparr>jr_facts := []\<rparr>"
    using canon_record [OF assms(1) [unfolded record_body_def]] assms(2)
    by (cases r; cases s)
      (simp add: record_fields_def cbor_inject u record_kind.as_str_inject policy.as_str_inject)
  moreover have "mset (jr_facts r) = mset (jr_facts s)"
    if "canon (record_facts_to_cbor (jr_facts r)) = canon (record_facts_to_cbor (jr_facts s))"
    using that unfolding record_facts_to_cbor_def by (rule canon_pairs_mset) simp_all
  ultimately show ?thesis by (simp add: record_same_def)
qed

interpretation journal_chain: hash_chain
  "\<lambda>d n r. record_valid d n r \<and> record_fits r \<and> n < 2 ^ 64" jr_record_digest record_same record_clash
proof
  fix d e :: sha256_digest and m n r s
  assume v: "record_valid d m r \<and> record_fits r \<and> m < 2 ^ 64" "record_valid e n s \<and> record_fits s \<and> n < 2 ^ 64"
    and link: "jr_record_digest r = jr_record_digest s"
  from v obtain x y where x: "encode (record_body r) = Inr x" "digest_in_domain DomJournalRecord x = jr_record_digest r"
      "length x < 2 ^ 64"
    and y: "encode (record_body s) = Inr y" "digest_in_domain DomJournalRecord y = jr_record_digest s"
    by (auto simp: record_valid_def check_record_def record_recompute_digest_def digest_canonical_def record_fits_def
        split: if_splits)
  have "x = y \<or> collides (domain_bytes DomJournalRecord @ x) (domain_bytes DomJournalRecord @ y)"
    using x(2) y(2) link digest_in_domain_inject [of DomJournalRecord x DomJournalRecord y] by simp
  moreover have "record_same r s \<and> d = e \<and> m = n" if "x = y"
  proof -
    have "encode (record_body s) = Inr x" using y(1) that by simp
    from encode_inject [OF x(1) this x(3)] have same: "record_same r s" by (rule record_body_same [OF _ link])
    then have "jr_sequence r = jr_sequence s" "jr_previous_digest r = jr_previous_digest s"
      by (cases r; cases s; simp add: record_same_def)+
    then have "d = e" "(of_nat m :: u64) = of_nat n" using v by (simp_all add: record_valid_def)
    then show ?thesis using v same of_nat_u64_inject [of m n] by blast
  qed
  ultimately show "record_same r s \<and> d = e \<and> m = n \<or> record_clash r s"
    using x(1) y(1) by (auto simp: record_clash_def)
qed

lemma verify_fits_chained:
  assumes "journal_verify j = Inr ()" and "\<forall>r \<in> set j. record_fits r" and "length j \<le> 2 ^ 64"
  shows "chained (\<lambda>d n r. record_valid d n r \<and> record_fits r \<and> n < 2 ^ 64) jr_record_digest CHAIN_ORIGIN 0 j"
proof -
  have "chained (\<lambda>d n r. record_valid d n r \<and> record_fits r \<and> n < 2 ^ 64) jr_record_digest d n rs"
    if "chained record_valid jr_record_digest d n rs" "\<forall>r \<in> set rs. record_fits r" "n + length rs \<le> 2 ^ 64" for d n rs
    using that by (induction rs arbitrary: d n) auto
  then show ?thesis using assms by (simp add: journal_verify_chained)
qed

section \<open>An example journal\<close>

definition ex_facts :: facts where
  "ex_facts = [(OpaqueId ''permitId'', ''permit-1''), (OpaqueId ''jobId'', ''job-1'')]"

lemma ex_facts_encodes: "encodes (record_facts_to_cbor ex_facts)"
  unfolding record_facts_to_cbor_def ex_facts_def
  by (rule encodes_map) (auto simp: id_to_cbor_def cbor_encodes encode_head_def str_bytes_def byte_of_char_def of_char_Char)

lemma record_fields_encode:
  assumes "encodes (record_facts_to_cbor (jr_facts r))"
  shows "encodes (cbor_map (record_fields r @ [(''recordDigest'', digest_to_cbor d)]))" and "encodes (record_body r)"
proof -
  show "encodes (cbor_map (record_fields r @ [(''recordDigest'', digest_to_cbor d)]))"
    by (rule encodes_record) (use assms in \<open>auto simp: record_fields_def cbor_encodes\<close>)
  show "encodes (record_body r)" unfolding record_body_def
    by (rule encodes_record) (use assms in \<open>auto simp: record_fields_def cbor_encodes\<close>)
qed

definition ex_record :: journal_record where
  "ex_record = projr (prepare_record [] JobCreated 1000 1 (OpaqueId ''job-1'') ex_facts)"

lemma ex_prepare: "prepare_record [] JobCreated 1000 1 (OpaqueId ''job-1'') ex_facts = Inr ex_record"
proof -
  define r0 where "r0 = \<lparr>jr_schema_version = SCHEMA_VERSION, jr_sequence = 1,
    jr_job_revision = 1, jr_kind = JobCreated, jr_fsync_policy = kind_fsync_policy JobCreated, jr_at_epoch_ms = 1000,
    jr_subject = OpaqueId ''job-1'', jr_facts = ex_facts, jr_previous_digest = CHAIN_ORIGIN, jr_record_digest = CHAIN_ORIGIN\<rparr>"
  have "encodes (record_body r0)" by (rule record_fields_encode(2)) (simp add: r0_def ex_facts_encodes)
  then obtain d where "record_recompute_digest r0 = Inr d"
    by (auto simp: encodes_def record_recompute_digest_def digest_canonical_def)
  then show ?thesis by (simp add: ex_record_def prepare_record_def Let_def head_digest_def r0_def)
qed

lemma ex_record_simps:
  "jr_facts ex_record = ex_facts" "jr_subject ex_record = OpaqueId ''job-1''" "record_wf ex_record"
  "record_valid CHAIN_ORIGIN 0 ex_record" "jr_kind ex_record = JobCreated" "jr_fsync_policy ex_record = Durable"
  using prepare_record_valid [OF ex_prepare]
  by (simp_all add: record_wf_def facts_wf_def ex_facts_def id_wfI id_char_defs ascii_string_wf byte_of_char_def head_digest_def)

lemma ex_record_stored:
  "\<exists>bs. record_to_canonical_bytes ex_record = Inr bs \<and> bs \<noteq> [] \<and> length bs \<le> 1000" "record_fits ex_record"
proof -
  have e: "encodes (record_facts_to_cbor (jr_facts ex_record))" by (simp add: ex_record_simps ex_facts_encodes)
  have b: "cbor_bound (cbor_map (record_fields ex_record @ [(''recordDigest'', digest_to_cbor d)])) \<le> 1000"
    "cbor_bound (record_body ex_record) < 2 ^ 64" for d
    by (simp_all add: record_body_def record_fields_def cbor_bound_record ex_record_simps record_facts_to_cbor_def
        ex_facts_def id_to_cbor_def)
  obtain bs where bs: "record_to_canonical_bytes ex_record = Inr bs"
    using record_fields_encode(1) [OF e] by (auto simp: record_to_canonical_bytes_def encodes_def)
  then have "length bs \<le> 1000" "bs \<noteq> []"
    using encode_length_bound b(1) encode_nonempty order.trans unfolding record_to_canonical_bytes_def by blast+
  with bs show "\<exists>bs. record_to_canonical_bytes ex_record = Inr bs \<and> bs \<noteq> [] \<and> length bs \<le> 1000" by blast
  show "record_fits ex_record"
    using encodes_bound [OF record_fields_encode(2) [OF e] b(2)] by (auto simp: record_fits_def)
qed

section \<open>Properties\<close>

text \<open>
  C22. The head digest binds the whole history. Two journals that verify and have the same head hold the same
  records in the same order (each up to the order of its facts), or two of their record bodies are an
  explicit SHA-256 collision. So dropping, inserting, reordering or editing a record changes the head. The
  bounds are the address space.
\<close>

theorem journal_head_binds_history:
  assumes "journal_verify j = Inr ()" and "journal_verify k = Inr ()" and "j \<noteq> []" and "k \<noteq> []"
    and "head_digest j = head_digest k" and "\<forall>r \<in> set j \<union> set k. record_fits r"
    and "length j \<le> 2 ^ 64" and "length k \<le> 2 ^ 64"
  shows "list_all2 record_same j k \<or> (\<exists>r \<in> set j. \<exists>s \<in> set k. record_clash r s)"
proof (rule journal_chain.history_bound)
  show "chained (\<lambda>d n r. record_valid d n r \<and> record_fits r \<and> n < 2 ^ 64) jr_record_digest CHAIN_ORIGIN 0 j"
    using assms by (intro verify_fits_chained) auto
  show "chained (\<lambda>d n r. record_valid d n r \<and> record_fits r \<and> n < 2 ^ 64) jr_record_digest CHAIN_ORIGIN 0 k"
    using assms by (intro verify_fits_chained) auto
qed (use assms in \<open>simp_all add: head_digest_def\<close>)

lemma ex_journal: "journal_append [] JobCreated 1000 1 (OpaqueId ''job-1'') ex_facts = Inr [ex_record]"
  "journal_verify [ex_record] = Inr ()"
  using ex_record_simps(4) verify_snoc [of "[]" ex_record] ex_prepare
  by (simp_all add: journal_append_def commit_record_def journal_verify_def head_digest_def)

theorem journal_head_binds_history_witness:
  "journal_append [] JobCreated 1000 1 (OpaqueId ''job-1'') ex_facts = Inr [ex_record] \<and>
   journal_verify [ex_record] = Inr () \<and>
   (list_all2 record_same [ex_record] [ex_record] \<or> record_clash ex_record ex_record)"
  using journal_head_binds_history [of "[ex_record]" "[ex_record]"] ex_journal ex_record_stored(2) by simp

text \<open>
  Appending keeps a verified journal verified. A successful append adds exactly one record, with the
  requested kind, subject and facts, the durability its kind demands and the next sequence number, and the
  journal still verifies; adopting a stored record succeeds exactly when the journal with it still verifies.
\<close>

theorem journal_append_verified:
  assumes "journal_verify j = Inr ()"
  shows "(\<forall>k. journal_append j kind now revision subject facts = Inr k \<longrightarrow>
      journal_verify k = Inr () \<and> (\<exists>r. k = j @ [r] \<and> jr_kind r = kind \<and> jr_subject r = subject \<and>
        jr_facts r = facts \<and> jr_fsync_policy r = kind_fsync_policy kind \<and> jr_sequence r = of_nat (length k))) \<and>
    (adopt j r = Inr (j @ [r]) \<longleftrightarrow> journal_verify (j @ [r]) = Inr ())"
proof (intro conjI allI impI)
  fix k
  assume "journal_append j kind now revision subject facts = Inr k"
  then obtain r where r: "prepare_record j kind now revision subject facts = Inr r" "k = j @ [r]"
    by (auto simp: journal_append_def commit_record_def)
  note p = prepare_record_valid [OF r(1)]
  show "journal_verify k = Inr ()" using assms p(1) r(2) by (simp add: verify_snoc)
  show "\<exists>r. k = j @ [r] \<and> jr_kind r = kind \<and> jr_subject r = subject \<and> jr_facts r = facts \<and>
      jr_fsync_policy r = kind_fsync_policy kind \<and> jr_sequence r = of_nat (length k)"
    using p r(2) by (auto simp: record_valid_def)
qed (use assms in \<open>simp add: adopt_iff verify_snoc\<close>)

theorem journal_append_verified_witness:
  "journal_verify [] = Inr () \<and> journal_append [] JobCreated 1000 1 (OpaqueId ''job-1'') ex_facts = Inr [ex_record] \<and>
   journal_verify [ex_record] = Inr ()"
proof -
  have v: "journal_verify [] = Inr ()" by (simp add: journal_verify_def)
  from journal_append_verified [OF v, of JobCreated 1000 1 "OpaqueId ''job-1''" ex_facts] v ex_journal(1)
  show ?thesis by blast
qed

text \<open>
  A stored record comes back as it was, with its facts in canonical order, and the record that comes
  back has the same stored bytes and passes the same check.
\<close>

theorem record_round_trip:
  assumes "record_wf r" and "record_to_canonical_bytes r = Inr bs" and "length bs < 2 ^ 64"
  shows "record_from_canonical_bytes bs = Inr (record_norm r) \<and> record_same (record_norm r) r \<and>
    record_to_canonical_bytes (record_norm r) = Inr bs \<and>
    (check_record r = Inr () \<longrightarrow> check_record (record_norm r) = Inr ())"
  using record_decode_encode [OF assms] stored_norm [OF assms(2)] check_norm
  by (simp add: record_same_def record_norm_def)

theorem record_round_trip_witness:
  "\<exists>bs. record_to_canonical_bytes ex_record = Inr bs \<and> record_from_canonical_bytes bs = Inr (record_norm ex_record)"
proof -
  obtain bs where bs: "record_to_canonical_bytes ex_record = Inr bs" "length bs \<le> 1000" using ex_record_stored by blast
  then have "length bs < 2 ^ 64" by simp
  from record_round_trip [OF ex_record_simps(3) bs(1) this] bs(1) show ?thesis by blast
qed

text \<open>
  C35. Reading a stored record ignores what it does not know. A byte string that encodes the fields of a
  record together with any further text field reads back as that record, and nothing in the chain covers the
  further field: such an edit of a journal file is not detected.
\<close>

theorem record_unknown_field_ignored:
  assumes "record_wf r" and "key \<notin> set (''recordDigest'' # map fst (record_fields r))" and "string_wf key" and "string_wf v"
    and "encode (cbor_map (record_fields r @ [(''recordDigest'', digest_to_cbor (jr_record_digest r)), (key, CText v)])) = Inr bs"
    and "length bs < 2 ^ 64"
  shows "record_from_canonical_bytes bs = Inr (record_norm r)"
proof -
  let ?x = "[(''recordDigest'', digest_to_cbor (jr_record_digest r)), (key, CText v)]"
  have "string_wf ''recordDigest''" by (simp add: ascii_string_wf byte_of_char_def)
  then have d: "decode_canonical bs = Inr (canon (cbor_map (record_fields r @ ?x)))"
    using assms stored_fields_wf [OF assms(1), of ?x] by (intro encode_canonD) (simp_all add: MAX_DEPTH_def)
  have dist: "distinct (map fst (record_fields r @ ?x))"
    using assms(2) by (auto simp: record_fields_keys)
  show ?thesis
    by (rule record_decode_fields [OF assms(1) dist _ d]) (auto simp: map_add_def split: option.splits if_splits)
qed

theorem record_unknown_field_ignored_witness:
  "\<exists>bs. encode (cbor_map (record_fields ex_record @
       [(''recordDigest'', digest_to_cbor (jr_record_digest ex_record)), (''note'', CText ''edited'')])) = Inr bs \<and>
     record_to_canonical_bytes ex_record \<noteq> Inr bs \<and>
     record_from_canonical_bytes bs = Inr (record_norm ex_record)"
proof -
  let ?fs = "record_fields ex_record @ [(''recordDigest'', digest_to_cbor (jr_record_digest ex_record)), (''note'', CText ''edited'')]"
  have e: "encodes (record_facts_to_cbor (jr_facts ex_record))" by (simp add: ex_record_simps ex_facts_encodes)
  have "encodes (cbor_map ?fs)" by (rule encodes_record) (use e in \<open>auto simp: record_fields_def cbor_encodes\<close>)
  moreover have "cbor_bound (cbor_map ?fs) < 2 ^ 64"
    by (simp add: record_fields_def cbor_bound_record ex_record_simps record_facts_to_cbor_def ex_facts_def id_to_cbor_def)
  ultimately obtain bs where bs: "encode (cbor_map ?fs) = Inr bs" "length bs < 2 ^ 64" using encodes_bound by blast
  have "record_to_canonical_bytes ex_record \<noteq> Inr bs"
  proof
    assume "record_to_canonical_bytes ex_record = Inr bs"
    from encode_inject [OF this [unfolded record_to_canonical_bytes_def] bs] have
      "canon (cbor_map (record_fields ex_record @ [(''recordDigest'', digest_to_cbor (jr_record_digest ex_record))])) = canon (cbor_map ?fs)" .
    from canon_field [OF this, of "''note''"] show False by (simp add: record_fields_def)
  qed
  with bs record_unknown_field_ignored [OF ex_record_simps(3) _ _ _ bs] show ?thesis
    by (simp add: record_fields_keys ascii_string_wf byte_of_char_def)
qed

end
