(* ===== verification/Durable.thy ===== *)
theory Durable
  imports Journal "HOL-Library.Sublist"
begin

text \<open>
  The journal on disk (\<open>arkforge-engine/src/durable.rs\<close>): the framed file, \<open>open\<close> with
  its replay loop and torn-tail truncation, \<open>append\<close> with the fsync its kind demands, \<open>sync\<close>,
  and the poisoned state after an I/O failure.

  A file is its bytes and how many of them an fsync has made stable. The answers of the operating system are
  arguments: for \<open>open\<close> a function from operations to an error message or none, for \<open>append\<close>
  how many bytes the write took and whether the fsync failed. The write may take fewer bytes than asked and never
  more (an answer beyond the frame counts as the whole frame), and a write that fails takes none, as \<open>std::io::Write\<close> documents. Writing happens at the end of the
  file, where \<open>open\<close> leaves the cursor.
\<close>

section \<open>Files and errors\<close>

definition MAGIC :: bytes where
  "MAGIC = str_bytes ''ARKFJRN1''"

definition MAX_FRAME_BYTES :: u32 where
  "MAX_FRAME_BYTES = 2 ^ 20"

record file_state =
  fs_bytes :: bytes
  fs_stable :: nat

datatype io_operation = IoCreateDir | IoOpen | IoRead | IoHeader | IoTruncate | IoSeek

datatype write_answer = Wrote nat | WriteFailed string

datatype durable_error =
    DurableIo string string
  | NotAJournal string
  | FrameLengthInvalid u64 u32
  | RecordTooLarge nat
  | DurablePoisoned string
  | DurableJournalError journal_error

record durable_journal =
  dj_path :: string
  dj_file :: file_state
  dj_journal :: journal
  dj_unsynced_records :: nat
  dj_poisoned :: bool

record recovery_report =
  rr_records_replayed :: nat
  rr_torn_tail_bytes :: nat
  rr_existed :: bool

definition was_torn :: "recovery_report \<Rightarrow> bool" where
  "was_torn r \<longleftrightarrow> 0 < rr_torn_tail_bytes r"

section \<open>Opening\<close>

text \<open>The replay loop: the journal so far, the records replayed, the cursor and the torn bytes it ends with.\<close>

function replay :: "bytes \<Rightarrow> nat \<Rightarrow> journal \<Rightarrow> nat \<Rightarrow> durable_error + journal \<times> nat \<times> nat \<times> nat" where
  "replay bs cursor j replayed =
     (if length bs \<le> cursor then Inr (j, replayed, cursor, 0)
      else if length bs < cursor + 4 then Inr (j, replayed, cursor, length bs - cursor)
      else let len = (from_be_bytes (slice cursor (cursor + 4) bs) :: u32) in
        if len = 0 \<or> MAX_FRAME_BYTES < len then Inl (FrameLengthInvalid (of_nat cursor) len)
        else let body_start = cursor + 4 in
          if length bs < body_start + unat len then Inr (j, replayed, cursor, length bs - cursor)
          else rbind (map_err DurableJournalError (record_from_canonical_bytes (slice body_start (body_start + unat len) bs))) (\<lambda>r.
            rbind (map_err DurableJournalError (adopt j r)) (\<lambda>j'.
              replay bs (body_start + unat len) j' (Suc replayed))))"
  by pat_completeness auto
termination replay
  by (relation "measure (\<lambda>(bs, cursor, j, replayed). length bs - cursor)") auto

declare replay.simps [simp del]

definition io_try :: "(io_operation \<Rightarrow> string option) \<Rightarrow> string \<Rightarrow> io_operation \<Rightarrow> durable_error + unit" where
  "io_try io path op = (case io op of None \<Rightarrow> Inr () | Some message \<Rightarrow> Inl (DurableIo path message))"

definition durable_open ::
  "(io_operation \<Rightarrow> string option) \<Rightarrow> string option \<Rightarrow> string \<Rightarrow> file_state option \<Rightarrow>
     durable_error + durable_journal \<times> recovery_report" where
  "durable_open io parent path found =
     rbind (case parent of Some dir \<Rightarrow> io_try io dir IoCreateDir | None \<Rightarrow> Inr ()) (\<lambda>_.
     let existed = (found \<noteq> None);
         file = (case found of Some f \<Rightarrow> f | None \<Rightarrow> \<lparr>fs_bytes = [], fs_stable = 0\<rparr>) in
     rbind (io_try io path IoOpen) (\<lambda>_.
     rbind (io_try io path IoRead) (\<lambda>_.
     let bs = fs_bytes file in
     rbind (if bs = [] then
              rbind (io_try io path IoHeader) (\<lambda>_. Inr \<lparr>fs_bytes = MAGIC, fs_stable = length MAGIC\<rparr>)
            else if length bs < length MAGIC \<or> take (length MAGIC) bs \<noteq> MAGIC then Inl (NotAJournal path)
            else Inr file) (\<lambda>file.
     rbind (replay bs (length MAGIC) [] 0) (\<lambda>(j, replayed, cursor, torn).
     rbind (if 0 < torn then
              rbind (io_try io path IoTruncate) (\<lambda>_. Inr \<lparr>fs_bytes = take cursor (fs_bytes file), fs_stable = cursor\<rparr>)
            else Inr file) (\<lambda>file.
     rbind (io_try io path IoSeek) (\<lambda>_.
       Inr (\<lparr>dj_path = path, dj_file = file, dj_journal = j, dj_unsynced_records = 0, dj_poisoned = False\<rparr>,
            \<lparr>rr_records_replayed = replayed, rr_torn_tail_bytes = torn, rr_existed = existed\<rparr>))))))))"

section \<open>Appending\<close>

definition frame_bytes :: "bytes \<Rightarrow> bytes" where
  "frame_bytes body = to_be_bytes (of_nat (length body) :: u32) @ body"

definition poison :: "durable_journal \<Rightarrow> durable_journal" where
  "poison d = d\<lparr>dj_poisoned := True\<rparr>"

definition durable_append ::
  "durable_journal \<Rightarrow> journal_record_kind \<Rightarrow> u64 \<Rightarrow> u64 \<Rightarrow> opaque_id \<Rightarrow> facts \<Rightarrow>
     write_answer \<Rightarrow> string option \<Rightarrow> (durable_error + sha256_digest) \<times> durable_journal" where
  "durable_append d kind at_epoch_ms job_revision subject facts written synced =
     (if dj_poisoned d then (Inl (DurablePoisoned (dj_path d)), d)
      else case prepare_record (dj_journal d) kind at_epoch_ms job_revision subject facts of
        Inl e \<Rightarrow> (Inl (DurableJournalError e), d)
      | Inr record \<Rightarrow>
          (case record_to_canonical_bytes record of
             Inl e \<Rightarrow> (Inl (DurableJournalError (JournalCbor e)), d)
           | Inr body \<Rightarrow>
               if \<not> (0 < length body \<and> length body \<le> unat MAX_FRAME_BYTES) then (Inl (RecordTooLarge (length body)), d)
               else let frame = frame_bytes body in
                 (case written of
                    WriteFailed message \<Rightarrow> (Inl (DurableIo (dj_path d) message), poison d)
                  | Wrote k \<Rightarrow>
                      let n = min k (length frame);
                          d = d\<lparr>dj_file := (dj_file d)\<lparr>fs_bytes := fs_bytes (dj_file d) @ take n frame\<rparr>\<rparr> in
                      if n \<noteq> length frame then (Inl (DurableIo (dj_path d) (''short journal-frame write: wrote '' @
                        display_nat n @ '' of '' @ display_nat (length frame) @ '' bytes'')), poison d)
                      else
                        let d = d\<lparr>dj_journal := commit_record (dj_journal d) record,
                                  dj_unsynced_records := dj_unsynced_records d + 1\<rparr> in
                        if jr_fsync_policy record = Durable then
                          (case synced of
                             Some message \<Rightarrow> (Inl (DurableIo (dj_path d) message), poison d)
                           | None \<Rightarrow> (Inr (jr_record_digest record),
                               d\<lparr>dj_file := (dj_file d)\<lparr>fs_stable := length (fs_bytes (dj_file d))\<rparr>,
                                 dj_unsynced_records := 0\<rparr>))
                        else (Inr (jr_record_digest record), d))))"

definition durable_sync :: "durable_journal \<Rightarrow> string option \<Rightarrow> (durable_error + unit) \<times> durable_journal" where
  "durable_sync d synced =
     (if dj_poisoned d then (Inl (DurablePoisoned (dj_path d)), d)
      else case synced of
        Some message \<Rightarrow> (Inl (DurableIo (dj_path d) message), poison d)
      | None \<Rightarrow> (Inr (), d\<lparr>dj_file := (dj_file d)\<lparr>fs_stable := length (fs_bytes (dj_file d))\<rparr>,
          dj_unsynced_records := 0\<rparr>))"

section \<open>Replaying frames\<close>

definition frame_body_ok :: "bytes \<Rightarrow> bool" where
  "frame_body_ok body \<longleftrightarrow> 0 < length body \<and> length body \<le> unat MAX_FRAME_BYTES"

definition storable :: "journal_record \<Rightarrow> bool" where
  "storable r \<longleftrightarrow> record_wf r \<and> (\<exists>b. record_to_canonical_bytes r = Inr b \<and> frame_body_ok b)"

definition frame_of :: "journal_record \<Rightarrow> bytes" where
  "frame_of r = frame_bytes (projr (record_to_canonical_bytes r))"

abbreviation frames :: "journal \<Rightarrow> bytes" where
  "frames j \<equiv> concat (map frame_of j)"

text \<open>What an interrupted write leaves: a proper prefix of a frame.\<close>

definition torn_tail :: "bytes \<Rightarrow> bool" where
  "torn_tail p \<longleftrightarrow> p = [] \<or> (\<exists>b k. frame_body_ok b \<and> k < length (frame_bytes b) \<and> p = take k (frame_bytes b))"

lemma unat_MAX_FRAME [simp]: "unat MAX_FRAME_BYTES = 2 ^ 20"
  by (simp add: MAX_FRAME_BYTES_def)

lemma frame_len:
  assumes "frame_body_ok b"
  shows "unat (of_nat (length b) :: u32) = length b" and "(of_nat (length b) :: u32) \<noteq> 0"
    and "\<not> MAX_FRAME_BYTES < (of_nat (length b) :: u32)"
proof -
  have "length b < 2 ^ 32" using assms by (simp add: frame_body_ok_def)
  then show u: "unat (of_nat (length b) :: u32) = length b" by (simp add: unat_of_nat take_bit_nat_eq_self)
  then show "(of_nat (length b) :: u32) \<noteq> 0" using assms by (auto simp: frame_body_ok_def)
  show "\<not> MAX_FRAME_BYTES < (of_nat (length b) :: u32)"
    using u assms by (simp add: word_less_nat_alt frame_body_ok_def)
qed

lemma length_frame [simp]: "length (frame_bytes b) = 4 + length b"
  by (simp add: frame_bytes_def)

lemma replay_done: "replay bs (length bs) j n = Inr (j, n, length bs, 0)"
  by (subst replay.simps) simp

lemma slice_at: "slice (length a) (length a + length b) (a @ b @ c) = b"
  by (simp add: slice_def)

lemma slice_frame:
  "slice (length a) (length a + 4) (a @ frame_bytes b @ c) = to_be_bytes (of_nat (length b) :: u32)"
  "slice (length a + 4) (length a + (4 + length b)) (a @ frame_bytes b @ c) = b"
  by (simp_all add: slice_def frame_bytes_def)

lemma replay_torn:
  assumes "torn_tail p"
  shows "replay (a @ p) (length a) j n = Inr (j, n, length a, length p)"
proof (cases "p = []")
  case True
  then show ?thesis using replay_done [of a] by simp
next
  case False
  with assms obtain b k where b: "frame_body_ok b" "k < 4 + length b" "p = take k (frame_bytes b)"
    by (auto simp: torn_tail_def)
  then have p: "length p = k" by simp
  show ?thesis
  proof (cases "k < 4")
    case True
    with False p show ?thesis by (subst replay.simps) simp
  next
    case short: False
    have "slice (length a) (length a + 4) (a @ p) = to_be_bytes (of_nat (length b) :: u32)"
      using b short by (simp add: slice_def frame_bytes_def)
    with False p short b frame_len [OF b(1)] show ?thesis
      by (subst replay.simps) (simp add: Let_def from_to_be_bytes)
  qed
qed

lemma replay_frame:
  assumes "storable r" and "adopt j (record_norm r) = Inr j'"
  shows "replay (a @ frame_of r @ c) (length a) j n = replay (a @ frame_of r @ c) (length (a @ frame_of r)) j' (Suc n)"
proof -
  from assms(1) obtain b where b: "record_to_canonical_bytes r = Inr b" "frame_body_ok b" "record_wf r"
    by (auto simp: storable_def)
  then have f: "frame_of r = frame_bytes b" by (simp add: frame_of_def)
  have "length b < 2 ^ 64" using b(2) by (simp add: frame_body_ok_def)
  note d = record_decode_encode [OF b(3,1) this]
  show ?thesis unfolding f
    using d assms(2) frame_len [OF b(2)]
    by (subst replay.simps) (simp add: slice_frame from_to_be_bytes Let_def add.assoc)
qed

lemma adopt_norm:
  assumes "record_valid (head_digest j) (length j) r" and "map jr_record_digest k = map jr_record_digest j"
  shows "adopt k (record_norm r) = Inr (k @ [record_norm r])"
proof -
  have "length k = length j" using assms(2) by (metis length_map)
  moreover have "head_digest k = head_digest j"
    using assms(2) calculation by (cases k rule: rev_cases; cases j rule: rev_cases) (auto simp: head_digest_def)
  ultimately show ?thesis using assms(1) check_norm by (simp add: adopt_iff record_valid_def)
qed

lemma replay_frames:
  assumes "journal_verify (j @ rs) = Inr ()" and "\<forall>r \<in> set rs. storable r" and "torn_tail p"
  shows "replay (a @ frames rs @ p) (length a) (map record_norm j) n =
    Inr (map record_norm (j @ rs), n + length rs, length (a @ frames rs), length p)"
  using assms
proof (induction rs arbitrary: a j n)
  case Nil
  then show ?case using replay_torn by simp
next
  case (Cons r rs)
  have v: "journal_verify ((j @ [r]) @ rs) = Inr ()" using Cons.prems(1) by simp
  then have "record_valid (head_digest j) (length j) r"
    by (auto simp: journal_verify_chained chained_append chained_snoc head_digest_def)
  then have "adopt (map record_norm j) (record_norm r) = Inr (map record_norm (j @ [r]))"
    by (simp add: adopt_norm comp_def)
  from replay_frame [OF _ this, of a "frames rs @ p" n] Cons.IH [OF v, of "a @ frame_of r" "Suc n"] Cons.prems(2,3)
  show ?case by simp
qed

text \<open>The records whose frames end within the first \<open>n\<close> bytes after the header.\<close>

fun stable_prefix :: "nat \<Rightarrow> journal \<Rightarrow> journal" where
  "stable_prefix n [] = []"
| "stable_prefix n (r # rs) =
     (if length (frame_of r) \<le> n then r # stable_prefix (n - length (frame_of r)) rs else [])"

lemma stable_prefix_prefix: "prefix (stable_prefix n rs) rs"
  by (induction rs arbitrary: n) auto

lemma stable_prefix_mono: "m \<le> n \<Longrightarrow> prefix (stable_prefix m rs) (stable_prefix n rs)"
  by (induction rs arbitrary: m n) auto

lemma stable_prefix_all: "length (frames rs) \<le> n \<Longrightarrow> stable_prefix n rs = rs"
  by (induction rs arbitrary: n) auto

lemma stable_prefix_append: "prefix (stable_prefix n rs) (stable_prefix n (rs @ ss))"
  by (induction rs arbitrary: n) auto

lemma stable_prefix_again: "m \<le> n \<Longrightarrow> stable_prefix m (stable_prefix n rs) = stable_prefix m rs"
  by (induction rs arbitrary: m n) auto

lemma torn_take: "torn_tail p \<Longrightarrow> torn_tail (take n p)"
proof -
  assume "torn_tail p"
  then consider "p = []" | b k where "frame_body_ok b" "k < length (frame_bytes b)" "p = take k (frame_bytes b)"
    by (auto simp: torn_tail_def)
  then show ?thesis
  proof cases
    case 2
    then have "take n p = take (min n k) (frame_bytes b)" "min n k < length (frame_bytes b)" by (simp_all add: min_def)
    with 2(1) show ?thesis unfolding torn_tail_def by blast
  qed (simp add: torn_tail_def)
qed

lemma take_frames:
  assumes "\<forall>r \<in> set rs. storable r" and "torn_tail q"
  shows "\<exists>p. take n (frames rs @ q) = frames (stable_prefix n rs) @ p \<and> torn_tail p"
  using assms(1)
proof (induction rs arbitrary: n)
  case Nil
  then show ?case using torn_take [OF assms(2)] by simp
next
  case (Cons r rs)
  from Cons.prems obtain b where b: "frame_of r = frame_bytes b" "frame_body_ok b"
    by (auto simp: storable_def frame_of_def)
  show ?case
  proof (cases "n < length (frame_of r)")
    case True
    then have "torn_tail (take n (frame_of r))" using b by (auto simp: torn_tail_def)
    with True show ?thesis by simp
  next
    case False
    with Cons.IH [of "n - length (frame_of r)"] Cons.prems show ?thesis by auto
  qed
qed

section \<open>Records as they come back\<close>

lemma canon_facts_idem [simp]: "canon_facts (canon_facts fs) = canon_facts fs"
  unfolding canon_facts_def by (rule sort_key_id_if_sorted) (rule sorted_sort_key)

lemma record_norm_idem [simp]: "record_norm (record_norm r) = record_norm r"
  by (simp add: record_norm_def)

lemma storable_norm: "storable r \<Longrightarrow> storable (record_norm r)"
  by (auto simp: storable_def record_wf_def facts_wf_def list_all_iff dest: stored_norm)

lemma frame_of_norm: "storable r \<Longrightarrow> frame_of (record_norm r) = frame_of r"
  using stored_norm by (fastforce simp: storable_def frame_of_def)

lemma frames_norm: "\<forall>r \<in> set rs. storable r \<Longrightarrow> frames (map record_norm rs) = frames rs"
  by (induction rs) (auto simp: frame_of_norm)

lemma stable_prefix_norm:
  "\<forall>r \<in> set rs. storable r \<Longrightarrow> stable_prefix n (map record_norm rs) = map record_norm (stable_prefix n rs)"
  by (induction rs arbitrary: n) (auto simp: frame_of_norm)

lemma verify_norm: "journal_verify j = Inr () \<Longrightarrow> journal_verify (map record_norm j) = Inr ()"
proof -
  have "chained record_valid jr_record_digest d n (map record_norm rs)"
    if "chained record_valid jr_record_digest d n rs" for d n rs
    using that by (induction rs arbitrary: d n) (auto simp: record_valid_def intro: check_norm)
  then show "journal_verify j = Inr () \<Longrightarrow> ?thesis" by (simp add: journal_verify_chained)
qed

lemma verify_prefix: "journal_verify j = Inr () \<Longrightarrow> prefix k j \<Longrightarrow> journal_verify k = Inr ()"
  by (auto simp: prefix_def journal_verify_chained chained_append)

section \<open>The file invariant\<close>

definition file_holds :: "file_state \<Rightarrow> journal \<Rightarrow> bytes \<Rightarrow> bool" where
  "file_holds f j p \<longleftrightarrow> journal_verify j = Inr () \<and> (\<forall>r \<in> set j. storable r) \<and> torn_tail p \<and>
     fs_bytes f = MAGIC @ frames j @ p \<and> length MAGIC \<le> fs_stable f \<and> fs_stable f \<le> length (fs_bytes f)"

definition dj_inv :: "durable_journal \<Rightarrow> bool" where
  "dj_inv d \<longleftrightarrow> (\<exists>p. file_holds (dj_file d) (dj_journal d) p \<and> (\<not> dj_poisoned d \<longrightarrow> p = []))"

definition stable_records :: "file_state \<Rightarrow> journal \<Rightarrow> journal" where
  "stable_records f j = stable_prefix (fs_stable f - length MAGIC) j"

text \<open>What a crash may leave: at least the stable bytes, and a prefix of what was written.\<close>

definition crash_file :: "file_state \<Rightarrow> file_state \<Rightarrow> bool" where
  "crash_file f g \<longleftrightarrow> (\<exists>n. fs_stable f \<le> fs_stable g \<and> fs_stable g \<le> n \<and> n \<le> length (fs_bytes f) \<and>
     fs_bytes g = take n (fs_bytes f))"

lemma length_MAGIC [simp]: "length MAGIC = 8"
  by (simp add: MAGIC_def)

lemma MAGIC_nonempty [simp]: "MAGIC \<noteq> []"
  by (simp add: MAGIC_def str_bytes_def)

lemma crash_holds:
  assumes "file_holds f j p" and "crash_file f g"
  shows "\<exists>k q. file_holds g k q \<and> prefix k j \<and> stable_records f j = stable_prefix (fs_stable f - length MAGIC) k"
proof -
  from assms(2) obtain n where n: "fs_stable f \<le> fs_stable g" "fs_stable g \<le> n" "n \<le> length (fs_bytes f)"
    "fs_bytes g = take n (fs_bytes f)" by (auto simp: crash_file_def)
  let ?k = "stable_prefix (n - 8) j"
  obtain q where q: "take (n - 8) (frames j @ p) = frames ?k @ q" "torn_tail q"
    using take_frames [of j p "n - 8"] assms(1) by (auto simp: file_holds_def)
  have "8 \<le> n" using n assms(1) by (simp add: file_holds_def)
  then have "fs_bytes g = MAGIC @ frames ?k @ q" using n(4) q(1) assms(1) by (simp add: file_holds_def)
  moreover have "journal_verify ?k = Inr ()" "\<forall>r \<in> set ?k. storable r"
    using assms(1) verify_prefix [OF _ stable_prefix_prefix] set_mono_prefix [OF stable_prefix_prefix [of "n - 8" j]]
    by (auto simp: file_holds_def)
  moreover have "fs_stable g \<le> length (fs_bytes g)" using n by simp
  ultimately have "file_holds g ?k q" using q(2) n assms(1) by (simp add: file_holds_def)
  moreover have "stable_records f j = stable_prefix (fs_stable f - 8) ?k"
    using n by (simp add: stable_records_def stable_prefix_again)
  ultimately show ?thesis using stable_prefix_prefix by auto
qed

text \<open>Opening such a file, when the operating system reports no error, succeeds and drops only the torn tail.\<close>

lemma open_holds:
  assumes "file_holds f j p" and "\<And>op. io op = None"
  shows "\<exists>d. durable_open io parent path (Some f) =
      Inr (d, \<lparr>rr_records_replayed = length j, rr_torn_tail_bytes = length p, rr_existed = True\<rparr>) \<and>
    dj_journal d = map record_norm j \<and> file_holds (dj_file d) (map record_norm j) [] \<and> \<not> dj_poisoned d \<and>
    prefix (stable_records f j) (stable_records (dj_file d) j)"
proof -
  have f: "journal_verify j = Inr ()" "\<forall>r \<in> set j. storable r" "torn_tail p" "fs_bytes f = MAGIC @ frames j @ p"
    "8 \<le> fs_stable f" "fs_stable f \<le> length (fs_bytes f)" using assms(1) by (auto simp: file_holds_def)
  have r: "replay (fs_bytes f) 8 [] 0 = Inr (map record_norm j, length j, 8 + length (frames j), length p)"
    using replay_frames [of "[]" j p MAGIC 0] f by simp
  have n: "journal_verify (map record_norm j) = Inr ()" "\<forall>r \<in> set (map record_norm j). storable r"
    "frames (map record_norm j) = frames j"
    using f verify_norm storable_norm frames_norm by auto
  let ?g = "if p = [] then f else \<lparr>fs_bytes = MAGIC @ frames j, fs_stable = 8 + length (frames j)\<rparr>"
  have g: "file_holds ?g (map record_norm j) []"
    using f n by (auto simp: file_holds_def torn_tail_def)
  have s: "prefix (stable_records f j) (stable_records ?g j)"
    using stable_prefix_prefix by (simp add: stable_records_def stable_prefix_all)
  have o: "durable_open io parent path (Some f) =
      Inr (\<lparr>dj_path = path, dj_file = ?g, dj_journal = map record_norm j, dj_unsynced_records = 0, dj_poisoned = False\<rparr>,
        \<lparr>rr_records_replayed = length j, rr_torn_tail_bytes = length p, rr_existed = True\<rparr>)"
    using r f(4) by (simp add: durable_open_def io_try_def assms(2) Let_def split: option.split)
  show ?thesis using o g s by simp
qed

lemma open_new:
  assumes "\<And>op. io op = None"
  shows "\<exists>d. durable_open io parent path None =
      Inr (d, \<lparr>rr_records_replayed = 0, rr_torn_tail_bytes = 0, rr_existed = False\<rparr>) \<and> dj_journal d = [] \<and> dj_inv d"
  by (simp add: durable_open_def io_try_def assms Let_def replay.simps dj_inv_def file_holds_def journal_verify_def
      torn_tail_def split: option.split)

section \<open>Operations keep the invariant\<close>

lemma prefix_snoc_stable: "prefix (stable_prefix n j) (stable_prefix m (j @ k))" if "n \<le> m"
  using stable_prefix_mono [OF that] stable_prefix_append prefix_order.trans by blast

text \<open>
  Every way an append can end: nothing written and the journal as it was; a poisoned journal with a torn tail;
  the record in memory and in the file, stable when it had to be; or the same with a failed fsync, poisoned.
\<close>

lemma append_cases:
  assumes "durable_append d kind now revision subject facts w s = (res, d')" and "dj_inv d" and "id_wf subject" and "facts_wf facts"
  obtains (refused) e where "res = Inl e" "d' = d"
  | (torn) e p where "res = Inl e" "dj_journal d' = dj_journal d" "dj_poisoned d'" "fs_stable (dj_file d') = fs_stable (dj_file d)"
      "file_holds (dj_file d') (dj_journal d) p"
  | (written) r where "dj_journal d' = dj_journal d @ [r]" "file_holds (dj_file d') (dj_journal d') []"
      "fs_stable (dj_file d) \<le> fs_stable (dj_file d')" "jr_kind r = kind" "jr_facts r = facts" "jr_subject r = subject"
      "res = Inr (jr_record_digest r) \<longleftrightarrow> \<not> dj_poisoned d'"
      "res = Inr (jr_record_digest r) \<or> (\<exists>e. res = Inl e)"
      "res = Inr (jr_record_digest r) \<Longrightarrow> kind_fsync_policy kind = Durable \<Longrightarrow> fs_stable (dj_file d') = length (fs_bytes (dj_file d'))"
proof (cases "dj_poisoned d")
  case True
  with assms(1) refused show thesis by (auto simp: durable_append_def)
next
  case healthy: False
  show thesis
  proof (cases "\<exists>r body. prepare_record (dj_journal d) kind now revision subject facts = Inr r \<and>
      record_to_canonical_bytes r = Inr body \<and> frame_body_ok body")
    case False
    with assms(1) healthy refused show thesis
      by (auto simp: durable_append_def frame_body_ok_def split: sum.splits if_splits)
  next
    case True
    then obtain r body where r: "prepare_record (dj_journal d) kind now revision subject facts = Inr r"
      "record_to_canonical_bytes r = Inr body" "frame_body_ok body" by blast
    note p = prepare_record_valid [OF r(1)]
    have f: "file_holds (dj_file d) (dj_journal d) []" using assms(2) healthy by (auto simp: dj_inv_def)
    have st: "storable r" using r p(3,4) assms(3,4) by (simp add: storable_def record_wf_def)
    have fr: "frame_of r = frame_bytes body" using r(2) by (simp add: frame_of_def)
    have app: "durable_append d kind now revision subject facts w s =
      (case w of
         WriteFailed message \<Rightarrow> (Inl (DurableIo (dj_path d) message), poison d)
       | Wrote k \<Rightarrow> let n = min k (length (frame_bytes body));
             d1 = d\<lparr>dj_file := (dj_file d)\<lparr>fs_bytes := fs_bytes (dj_file d) @ take n (frame_bytes body)\<rparr>\<rparr>;
             d2 = d1\<lparr>dj_journal := dj_journal d @ [r], dj_unsynced_records := dj_unsynced_records d + 1\<rparr>
           in if n \<noteq> length (frame_bytes body) then (Inl (DurableIo (dj_path d) (''short journal-frame write: wrote '' @
                display_nat n @ '' of '' @ display_nat (length (frame_bytes body)) @ '' bytes'')), poison d1)
              else if kind_fsync_policy kind = Durable then
                (case s of Some message \<Rightarrow> (Inl (DurableIo (dj_path d) message), poison d2)
                 | None \<Rightarrow> (Inr (jr_record_digest r),
                     d2\<lparr>dj_file := (dj_file d2)\<lparr>fs_stable := length (fs_bytes (dj_file d2))\<rparr>, dj_unsynced_records := 0\<rparr>))
              else (Inr (jr_record_digest r), d2))"
      using healthy r p(5) by (simp add: durable_append_def frame_body_ok_def commit_record_def Let_def
          split: write_answer.split option.split)
    show thesis
    proof (cases w)
      case (WriteFailed m)
      show thesis by (rule torn [of _ "[]"]) (use WriteFailed assms(1) app f in \<open>auto simp: poison_def\<close>)
    next
      case (Wrote k)
      show thesis
      proof (cases "length (frame_bytes body) \<le> k")
        case False
        have "torn_tail (take k (frame_bytes body))"
          using False r(3) unfolding torn_tail_def by (intro disjI2 exI [of _ body] exI [of _ k]) simp
        then have "file_holds (dj_file d') (dj_journal d) (take k (frame_bytes body))"
          using Wrote False assms(1) app f by (auto simp: poison_def Let_def min_def file_holds_def split: if_splits)
        then show thesis
          by (rule torn [rotated -1]) (use Wrote False assms(1) app in \<open>auto simp: poison_def Let_def min_def split: if_splits\<close>)
      next
        case True
        have v: "journal_verify (dj_journal d @ [r]) = Inr ()" using f p(1) by (simp add: verify_snoc file_holds_def)
        show thesis
          by (rule written [of r])
            (use Wrote True assms(1) app f st v fr p healthy in
              \<open>auto simp: poison_def Let_def min_def file_holds_def split: if_splits option.splits\<close>)
      qed
    qed
  qed
qed

lemma append_inv:
  assumes "durable_append d kind now revision subject facts w s = (res, d')" and "dj_inv d" and "id_wf subject" and "facts_wf facts"
  shows "dj_inv d' \<and> prefix (stable_records (dj_file d) (dj_journal d)) (stable_records (dj_file d') (dj_journal d'))"
  using assms
proof (cases rule: append_cases)
  case (torn e p)
  then show ?thesis by (auto simp: dj_inv_def stable_records_def)
next
  case (written r)
  then show ?thesis by (auto simp: dj_inv_def stable_records_def intro!: prefix_snoc_stable diff_le_mono)
qed (use assms in simp)

lemma sync_inv:
  assumes "durable_sync d s = (res, d')" and "dj_inv d"
  shows "dj_inv d' \<and> dj_journal d' = dj_journal d \<and>
    prefix (stable_records (dj_file d) (dj_journal d)) (stable_records (dj_file d') (dj_journal d'))"
  using assms
  by (auto simp: durable_sync_def dj_inv_def file_holds_def poison_def stable_records_def
      intro!: stable_prefix_mono split: if_splits option.splits)

lemma durable_append_Inr:
  assumes "durable_append d kind now revision subject facts w s = (Inr h, d')" and "dj_inv d" and "id_wf subject" and "facts_wf facts"
  obtains r where "dj_journal d' = dj_journal d @ [r]" "jr_kind r = kind" "jr_facts r = facts" "jr_subject r = subject"
    "jr_record_digest r = h" "dj_inv d'" "\<not> dj_poisoned d'"
    "kind_fsync_policy kind = Durable \<Longrightarrow> stable_records (dj_file d') (dj_journal d') = dj_journal d'"
  using assms
proof (cases rule: append_cases)
  case (written r)
  show thesis
  proof (rule that)
    show "stable_records (dj_file d') (dj_journal d') = dj_journal d'" if "kind_fsync_policy kind = Durable"
      using written that by (simp add: stable_records_def file_holds_def stable_prefix_all)
  qed (use written in \<open>auto simp: dj_inv_def\<close>)
qed simp_all

section \<open>Lives of a journal\<close>

text \<open>
  A journal runs, or it is down and only its file is left. It runs after \<open>open\<close> created it or replayed the
  file; it goes down at any moment, with any file a crash may leave, and any number of times.
\<close>

datatype journal_life = Running durable_journal | Down file_state

inductive journal_start :: "journal_life \<Rightarrow> bool" where
  start_new: "durable_open io parent path None = Inr (d, report) \<Longrightarrow> journal_start (Running d)"

inductive journal_event :: "journal_life \<Rightarrow> journal_life \<Rightarrow> bool" where
  event_append: "id_wf subject \<Longrightarrow> facts_wf facts \<Longrightarrow>
    durable_append d kind now revision subject facts w s = (res, d') \<Longrightarrow> journal_event (Running d) (Running d')"
| event_sync: "durable_sync d s = (res, d') \<Longrightarrow> journal_event (Running d) (Running d')"
| event_crash: "crash_file (dj_file d) f \<Longrightarrow> journal_event (Running d) (Down f)"
| event_reopen: "durable_open io parent path (Some f) = Inr (d, report) \<Longrightarrow> journal_event (Down f) (Running d)"

inductive_simps journal_event_Running: "journal_event (Running d) t"
inductive_simps journal_event_Down: "journal_event (Down f) t"

interpretation journal_lives: transition_system journal_start journal_event .

text \<open>The records that a state is sure to keep, in the order they come back in.\<close>

fun kept_records :: "journal_life \<Rightarrow> journal \<Rightarrow> bool" where
  "kept_records (Running d) k \<longleftrightarrow> dj_inv d \<and> prefix k (map record_norm (stable_records (dj_file d) (dj_journal d)))"
| "kept_records (Down f) k \<longleftrightarrow> (\<exists>j p. file_holds f j p \<and> prefix k (map record_norm (stable_records f j)))"

lemma io_open_Inr:
  assumes "durable_open io parent path (Some f) = Inr (d, report)"
  shows "durable_open (\<lambda>_. None) parent path (Some f) = Inr (d, report)"
  using assms by (auto simp: durable_open_def io_try_def Let_def split: option.splits if_splits)

lemma kept_step:
  assumes "journal_event x y" and "kept_records x k"
  shows "kept_records y k"
  using assms
proof (cases rule: journal_event.cases)
  case (event_append subject facts d kind now revision w s res d')
  then show ?thesis using assms(2) append_inv map_mono_prefix prefix_order.trans by (metis kept_records.simps(1))
next
  case (event_sync d s res d')
  then show ?thesis using assms(2) sync_inv map_mono_prefix prefix_order.trans by (metis kept_records.simps(1))
next
  case (event_crash d f)
  then obtain p where "file_holds (dj_file d) (dj_journal d) p" using assms(2) by (auto simp: dj_inv_def)
  from crash_holds [OF this event_crash(3)] obtain j q where j: "file_holds f j q"
    "stable_records (dj_file d) (dj_journal d) = stable_prefix (fs_stable (dj_file d) - 8) j" by auto
  have "fs_stable (dj_file d) - 8 \<le> fs_stable f - 8" using event_crash(3) by (auto simp: crash_file_def)
  from stable_prefix_mono [OF this, of j] j(2) have
    "prefix (stable_records (dj_file d) (dj_journal d)) (stable_records f j)" by (simp add: stable_records_def)
  then show ?thesis using event_crash assms(2) j(1) map_mono_prefix prefix_order.trans by (metis kept_records.simps)
next
  case (event_reopen io parent path f d report)
  then obtain j p where j: "file_holds f j p" "prefix k (map record_norm (stable_records f j))" using assms(2) by auto
  from open_holds [OF j(1), of "\<lambda>_. None" parent path] io_open_Inr [OF event_reopen(3)]
  have d: "dj_journal d = map record_norm j" "file_holds (dj_file d) (map record_norm j) []" "\<not> dj_poisoned d"
    "prefix (stable_records f j) (stable_records (dj_file d) j)" by auto
  have "\<forall>r \<in> set j. storable r" using j(1) by (simp add: file_holds_def)
  then have "map record_norm (stable_records (dj_file d) (dj_journal d)) = map record_norm (stable_records (dj_file d) j)"
    using d(1) by (simp add: stable_records_def stable_prefix_norm)
  moreover have "dj_inv d" using d by (auto simp: dj_inv_def)
  ultimately show ?thesis
    using j(2) d(4) event_reopen(2) map_mono_prefix [of "stable_records f j" "stable_records (dj_file d) j" record_norm]
      prefix_order.trans by fastforce
qed

lemma start_kept: "journal_start x \<Longrightarrow> kept_records x []"
proof (induction rule: journal_start.induct)
  case (start_new io parent path d report)
  then have "durable_open (\<lambda>_. None) parent path None = Inr (d, report)"
    by (auto simp: durable_open_def io_try_def Let_def split: option.splits if_splits)
  with open_new [of "\<lambda>_. None" parent path] show ?case by auto
qed

lemma reachable_inv: "journal_lives.reach (Running d) \<Longrightarrow> dj_inv d"
  using journal_lives.reach_invariant [of "Running d" "\<lambda>x. kept_records x []"] start_kept kept_step by auto

section \<open>A healthy journal takes a record\<close>

text \<open>Facts with distinct keys have a canonical encoding, and its length is bounded by their text.\<close>

definition facts_size :: "facts \<Rightarrow> nat" where
  "facts_size fs = sum_list (map (\<lambda>(k, v). 18 + length (as_str k) + length v) fs)"

lemma facts_encode:
  assumes "facts_wf fs" and "distinct (map fst fs)"
  shows "encodes (record_facts_to_cbor fs)"
  unfolding record_facts_to_cbor_def
proof (rule encodes_map)
  show "encodes (fst e) \<and> encodes (snd e)" if "e \<in> set (map (\<lambda>(k, v). (id_to_cbor k, CText v)) fs)" for e
    using that by (auto simp: id_encodes cbor_encodes)
  have "length (as_str k) < 2 ^ 63" if "k \<in> set (map fst fs)" for k
    using that assms(1) by (fastforce simp: facts_wf_def list_all_iff id_wf_def opaque_id_new_iff MAX_ID_LEN_def)
  then have "inj_on (\<lambda>k. projr (encode (id_to_cbor k))) (set (map fst fs))"
    by (intro inj_onI opaque_id.expand encode_text_inject) (simp_all add: id_to_cbor_def)
  with assms(2) have "distinct (map (\<lambda>k. projr (encode (id_to_cbor k))) (map fst fs))"
    by (subst distinct_map) blast
  then show "distinct (map (\<lambda>e. projr (encode (fst e))) (map (\<lambda>(k, v). (id_to_cbor k, CText v)) fs))"
    by (simp add: comp_def case_prod_unfold)
qed

lemma facts_bound: "cbor_bound (record_facts_to_cbor fs) = 9 + facts_size fs"
  by (induction fs) (auto simp: record_facts_to_cbor_def facts_size_def id_to_cbor_def)

lemma record_stores:
  assumes "facts_wf (jr_facts r)" and "distinct (map fst (jr_facts r))" and "id_wf (jr_subject r)" and "facts_size (jr_facts r) \<le> 2 ^ 19"
  shows "\<exists>bs. record_to_canonical_bytes r = Inr bs \<and> frame_body_ok bs"
    and "\<exists>h. record_recompute_digest r = Inr h"
proof -
  note e = facts_encode [OF assms(1,2)]
  have l: "length (record_kind_as_str k) \<le> 100" "length (policy_as_str p) \<le> 100" for k p
    by (cases k; simp) (cases p; simp)
  have "cbor_bound (cbor_map (record_fields r @ [(''recordDigest'', digest_to_cbor (jr_record_digest r))])) \<le> 2 ^ 20"
    using id_bound [OF assms(3)] assms(4) l(1) [of "jr_kind r"] l(2) [of "jr_fsync_policy r"]
    by (simp add: cbor_bound_record record_fields_def facts_bound)
  with encode_length_bound encode_nonempty record_fields_encode(1) [OF e]
  show "\<exists>bs. record_to_canonical_bytes r = Inr bs \<and> frame_body_ok bs"
    unfolding record_to_canonical_bytes_def frame_body_ok_def encodes_def MAX_FRAME_BYTES_def
    by (fastforce intro: order.trans)
  show "\<exists>h. record_recompute_digest r = Inr h"
    using record_fields_encode(2) [OF e] by (auto simp: record_recompute_digest_def digest_canonical_def encodes_def)
qed

lemma append_succeeds:
  assumes "\<not> dj_poisoned d" and "id_wf subject" and "facts_wf facts" and "distinct (map fst facts)" and "facts_size facts \<le> 2 ^ 19"
    and "2 ^ 20 + 4 \<le> n"
  shows "\<exists>h d'. durable_append d kind now revision subject facts (Wrote n) None = (Inr h, d') \<and> \<not> dj_poisoned d'"
proof -
  let ?r = "\<lambda>h. \<lparr>jr_schema_version = SCHEMA_VERSION, jr_sequence = of_nat (length (dj_journal d)) + 1,
        jr_job_revision = revision, jr_kind = kind, jr_fsync_policy = kind_fsync_policy kind,
        jr_at_epoch_ms = now, jr_subject = subject, jr_facts = facts,
        jr_previous_digest = head_digest (dj_journal d), jr_record_digest = h\<rparr>"
  from record_stores(2) [of "?r CHAIN_ORIGIN"] assms obtain h where h: "record_recompute_digest (?r CHAIN_ORIGIN) = Inr h" by auto
  from record_stores(1) [of "?r h"] assms obtain bs where bs: "record_to_canonical_bytes (?r h) = Inr bs" "frame_body_ok bs" by auto
  have p: "prepare_record (dj_journal d) kind now revision subject facts = Inr (?r h)"
    using h by (simp add: prepare_record_def Let_def)
  have "length (frame_bytes bs) \<le> n" using bs(2) assms(6) by (simp add: frame_bytes_def frame_body_ok_def MAX_FRAME_BYTES_def)
  then show ?thesis
    using assms(1) p bs by (simp add: durable_append_def frame_body_ok_def Let_def min_def)
qed

section \<open>An example\<close>

definition ex_open :: durable_journal where
  "ex_open = \<lparr>dj_path = ''j'', dj_file = \<lparr>fs_bytes = MAGIC, fs_stable = 8\<rparr>, dj_journal = [],
     dj_unsynced_records = 0, dj_poisoned = False\<rparr>"

definition ex_appended :: durable_journal where
  "ex_appended = ex_open\<lparr>dj_file := \<lparr>fs_bytes = MAGIC @ frame_of ex_record, fs_stable = 8 + length (frame_of ex_record)\<rparr>,
     dj_journal := [ex_record]\<rparr>"

lemma ex_open_opens:
  "durable_open (\<lambda>_. None) None ''j'' None =
     Inr (ex_open, \<lparr>rr_records_replayed = 0, rr_torn_tail_bytes = 0, rr_existed = False\<rparr>)"
  by (simp add: durable_open_def io_try_def Let_def replay.simps ex_open_def)

lemma ex_open_reach: "journal_lives.reach (Running ex_open)"
  by (rule journal_lives.reach_init) (rule start_new [OF ex_open_opens])

lemma ex_append:
  "durable_append ex_open JobCreated 1000 1 (OpaqueId ''job-1'') ex_facts (Wrote 2000) None =
     (Inr (jr_record_digest ex_record), ex_appended)"
proof -
  obtain bs where bs: "record_to_canonical_bytes ex_record = Inr bs" "bs \<noteq> []" "length bs \<le> 1000"
    using ex_record_stored by blast
  then show ?thesis
    by (simp add: durable_append_def ex_open_def ex_appended_def ex_prepare Let_def frame_of_def commit_record_def
        ex_record_simps)
qed

lemma ex_args_wf: "id_wf (OpaqueId ''job-1'')" "facts_wf ex_facts"
  using ex_record_simps by (simp_all add: record_wf_def)

section \<open>Properties\<close>

text \<open>
  C3. An acknowledged durable record is never lost. After an append of a kind whose policy is durable has returned
  its digest, every later state of the journal, through any further appends and fsyncs that succeed or fail, any
  crashes and any reopenings, still has the whole journal of that moment as its beginning, the new record last
  (records compared as they are stored, with their facts in canonical order).
\<close>

theorem acknowledged_records_survive:
  assumes "journal_lives.reach (Running d)" and "id_wf subject" and "facts_wf facts"
    and "durable_append d kind now revision subject facts w s = (Inr h, d')" and "kind_fsync_policy kind = Durable"
    and "journal_event\<^sup>*\<^sup>* (Running d') (Running e)"
  shows "prefix (map record_norm (dj_journal d')) (map record_norm (dj_journal e)) \<and>
    dj_journal d' \<noteq> [] \<and> jr_record_digest (last (dj_journal d')) = h"
proof -
  from reachable_inv [OF assms(1)] durable_append_Inr [OF assms(4) _ assms(2,3)] obtain r where
    r: "dj_journal d' = dj_journal d @ [r]" "jr_record_digest r = h" "dj_inv d'"
    "stable_records (dj_file d') (dj_journal d') = dj_journal d'" using assms(5) by metis
  then have "kept_records (Running d') (map record_norm (dj_journal d'))" by simp
  from journal_lives.closed_under_rtrancl [OF assms(6), of "\<lambda>x. kept_records x (map record_norm (dj_journal d'))", OF this]
  have "prefix (map record_norm (dj_journal d')) (map record_norm (stable_records (dj_file e) (dj_journal e)))"
    using kept_step by auto
  moreover have "prefix (map record_norm (stable_records (dj_file e) (dj_journal e))) (map record_norm (dj_journal e))"
    unfolding stable_records_def by (intro map_mono_prefix stable_prefix_prefix)
  ultimately show ?thesis using r prefix_order.trans by auto
qed

theorem acknowledged_records_survive_witness:
  "durable_append ex_open JobCreated 1000 1 (OpaqueId ''job-1'') ex_facts (Wrote 2000) None =
     (Inr (jr_record_digest ex_record), ex_appended) \<and>
   prefix (map record_norm (dj_journal ex_appended)) (map record_norm (dj_journal ex_appended)) \<and>
   jr_record_digest (last (dj_journal ex_appended)) = jr_record_digest ex_record"
  using acknowledged_records_survive [OF ex_open_reach ex_args_wf ex_append _ rtranclp.rtrancl_refl] ex_append by simp

text \<open>
  C4. A crash is always recoverable. Whatever file a crash leaves of a reachable journal, opening it succeeds when
  the operating system reports no error. The journal that comes back verifies and is a beginning of the one that ran,
  with at least the records that had become stable; the file is again exactly its header and its frames, the torn
  bytes it reports are the ones it dropped, and opening it once more drops nothing.
\<close>

theorem crash_recovery_total:
  assumes "journal_lives.reach (Running d)" and "crash_file (dj_file d) f" and "\<forall>op. io op = None"
  shows "\<exists>e report k. durable_open io parent path (Some f) = Inr (e, report) \<and>
    prefix (stable_records (dj_file d) (dj_journal d)) k \<and> prefix k (dj_journal d) \<and> dj_journal e = map record_norm k \<and>
    journal_verify (dj_journal e) = Inr () \<and> fs_bytes (dj_file e) = MAGIC @ frames k \<and> \<not> dj_poisoned e \<and>
    length (fs_bytes f) = length (fs_bytes (dj_file e)) + rr_torn_tail_bytes report \<and>
    (\<exists>e' report'. durable_open io parent path (Some (dj_file e)) = Inr (e', report') \<and> \<not> was_torn report' \<and>
      dj_journal e' = dj_journal e)"
proof -
  from reachable_inv [OF assms(1)] obtain p where "file_holds (dj_file d) (dj_journal d) p" by (auto simp: dj_inv_def)
  from crash_holds [OF this assms(2)] obtain k q where k: "file_holds f k q" "prefix k (dj_journal d)"
    "stable_records (dj_file d) (dj_journal d) = stable_prefix (fs_stable (dj_file d) - length MAGIC) k" by blast
  from open_holds [OF k(1), of io parent path] assms(3) obtain e where e: "durable_open io parent path (Some f) =
      Inr (e, \<lparr>rr_records_replayed = length k, rr_torn_tail_bytes = length q, rr_existed = True\<rparr>)"
    "dj_journal e = map record_norm k" "file_holds (dj_file e) (map record_norm k) []" "\<not> dj_poisoned e" by blast
  have fr: "frames (map record_norm k) = frames k" using k(1) frames_norm by (simp add: file_holds_def)
  from open_holds [OF e(3), of io parent path] assms(3) obtain e' where e': "durable_open io parent path (Some (dj_file e)) =
      Inr (e', \<lparr>rr_records_replayed = length k, rr_torn_tail_bytes = 0, rr_existed = True\<rparr>)"
    "dj_journal e' = dj_journal e" using e(2) by auto
  have "prefix (stable_records (dj_file d) (dj_journal d)) k" using k(3) stable_prefix_prefix by simp
  moreover have "fs_bytes (dj_file e) = MAGIC @ frames k" "journal_verify (dj_journal e) = Inr ()"
    using e(2,3) fr by (simp_all add: file_holds_def)
  moreover have "length (fs_bytes f) = length (fs_bytes (dj_file e)) + length q"
    using k(1) calculation(2) by (simp add: file_holds_def)
  ultimately show ?thesis using e k(2) e' by (auto simp: was_torn_def)
qed

theorem crash_recovery_total_witness:
  "\<exists>e report k. durable_open (\<lambda>_. None) None ''j'' (Some \<lparr>fs_bytes = MAGIC, fs_stable = 8\<rparr>) = Inr (e, report) \<and>
     dj_journal e = map record_norm k \<and> prefix k (dj_journal ex_open) \<and> \<not> dj_poisoned e"
proof -
  have "crash_file (dj_file ex_open) \<lparr>fs_bytes = MAGIC, fs_stable = 8\<rparr>"
    by (auto simp: crash_file_def ex_open_def intro!: exI [of _ 8])
  from crash_recovery_total [OF ex_open_reach this, of "\<lambda>_. None" None "''j''"] show ?thesis by blast
qed

end
