(* ===== verification/Job_State.thy ===== *)
theory Job_State
  imports Prelude
begin

text \<open>
  The job state machine (\<open>JobState\<close> of \<open>arkforge-engine/src/lib.rs\<close>): its states, the
  transition table, terminal states and the one state from which an external effect may be dispatched.
\<close>

section \<open>States and transitions\<close>

datatype job_state =
    Planned
  | AwaitingStart
  | Preflight
  | AwaitingPermit
  | StepIntentDurable
  | Dispatching
  | ReceiptDurable
  | Checkpointed
  | RebindWait
  | Postflight
  | Succeeded
  | ConfirmedFailed
  | CancelledSafe
  | OutcomeUnknown
  | Reconciling
  | RecoveryAssessable

fun job_state_as_str :: "job_state \<Rightarrow> string" where
  "job_state_as_str Planned = ''planned''"
| "job_state_as_str AwaitingStart = ''awaitingStart''"
| "job_state_as_str Preflight = ''preflight''"
| "job_state_as_str AwaitingPermit = ''awaitingPermit''"
| "job_state_as_str StepIntentDurable = ''stepIntentDurable''"
| "job_state_as_str Dispatching = ''dispatching''"
| "job_state_as_str ReceiptDurable = ''receiptDurable''"
| "job_state_as_str Checkpointed = ''checkpointed''"
| "job_state_as_str RebindWait = ''rebindWait''"
| "job_state_as_str Postflight = ''postflight''"
| "job_state_as_str Succeeded = ''succeeded''"
| "job_state_as_str ConfirmedFailed = ''confirmedFailed''"
| "job_state_as_str CancelledSafe = ''cancelledSafe''"
| "job_state_as_str OutcomeUnknown = ''outcomeUnknown''"
| "job_state_as_str Reconciling = ''reconciling''"
| "job_state_as_str RecoveryAssessable = ''recoveryAssessable''"

definition is_terminal :: "job_state \<Rightarrow> bool" where
  "is_terminal s \<longleftrightarrow> s \<in> {Succeeded, ConfirmedFailed, CancelledSafe, RecoveryAssessable}"

definition permits_external_dispatch :: "job_state \<Rightarrow> bool" where
  "permits_external_dispatch s \<longleftrightarrow> s = StepIntentDurable"

fun may_transition_to :: "job_state \<Rightarrow> job_state \<Rightarrow> bool" where
  "may_transition_to Planned next \<longleftrightarrow> next = AwaitingStart"
| "may_transition_to AwaitingStart next \<longleftrightarrow> next = Preflight"
| "may_transition_to Preflight next \<longleftrightarrow> next \<in> {AwaitingPermit, CancelledSafe}"
| "may_transition_to AwaitingPermit next \<longleftrightarrow> next \<in> {StepIntentDurable, CancelledSafe}"
| "may_transition_to StepIntentDurable next \<longleftrightarrow> next \<in> {Dispatching, OutcomeUnknown}"
| "may_transition_to Dispatching next \<longleftrightarrow> next \<in> {ReceiptDurable, CancelledSafe, OutcomeUnknown}"
| "may_transition_to ReceiptDurable next \<longleftrightarrow> next \<in> {Checkpointed, OutcomeUnknown}"
| "may_transition_to Checkpointed next \<longleftrightarrow> next \<in> {RebindWait, Preflight, Postflight, ConfirmedFailed, CancelledSafe}"
| "may_transition_to RebindWait next \<longleftrightarrow> next \<in> {Preflight, CancelledSafe, OutcomeUnknown}"
| "may_transition_to Postflight next \<longleftrightarrow> next \<in> {Succeeded, ConfirmedFailed}"
| "may_transition_to OutcomeUnknown next \<longleftrightarrow> next \<in> {Reconciling, RecoveryAssessable}"
| "may_transition_to Reconciling next \<longleftrightarrow> next \<in> {Succeeded, ConfirmedFailed, OutcomeUnknown}"
| "may_transition_to Succeeded next \<longleftrightarrow> False"
| "may_transition_to ConfirmedFailed next \<longleftrightarrow> False"
| "may_transition_to CancelledSafe next \<longleftrightarrow> False"
| "may_transition_to RecoveryAssessable next \<longleftrightarrow> False"

section \<open>Runs\<close>

interpretation job_runs: transition_system "\<lambda>s. s = Planned" may_transition_to .

lemma terminal_stuck: "is_terminal s \<longleftrightarrow> (\<forall>t. \<not> may_transition_to s t)"
  by (cases s) (auto simp: is_terminal_def)

definition after_unknown :: "job_state \<Rightarrow> bool" where
  "after_unknown s \<longleftrightarrow> s \<in> {OutcomeUnknown, Reconciling, Succeeded, ConfirmedFailed, RecoveryAssessable}"

lemma after_unknown_closed: "after_unknown s \<Longrightarrow> may_transition_to s t \<Longrightarrow> after_unknown t"
  by (cases s) (auto simp: after_unknown_def)

text \<open>How far from the end a state is, at worst, along the shortest way out.\<close>

fun next_towards_end :: "job_state \<Rightarrow> job_state" where
  "next_towards_end Planned = AwaitingStart"
| "next_towards_end AwaitingStart = Preflight"
| "next_towards_end StepIntentDurable = OutcomeUnknown"
| "next_towards_end ReceiptDurable = OutcomeUnknown"
| "next_towards_end OutcomeUnknown = RecoveryAssessable"
| "next_towards_end Postflight = ConfirmedFailed"
| "next_towards_end Reconciling = ConfirmedFailed"
| "next_towards_end _ = CancelledSafe"

lemma towards_end:
  "is_terminal s \<or> may_transition_to s (next_towards_end s)"
  "is_terminal s \<or> is_terminal (next_towards_end s) \<or> is_terminal (next_towards_end (next_towards_end s)) \<or>
     is_terminal (next_towards_end (next_towards_end (next_towards_end s)))"
  by (cases s; simp add: is_terminal_def)+

lemma end_reachable: "\<exists>t. is_terminal t \<and> may_transition_to\<^sup>*\<^sup>* s t"
proof -
  have step: "may_transition_to\<^sup>*\<^sup>* s t" if "\<not> is_terminal s" "may_transition_to\<^sup>*\<^sup>* (next_towards_end s) t" for s t
    using that towards_end(1) by (blast intro: converse_rtranclp_into_rtranclp)
  show ?thesis using towards_end(2) [of s] step by (metis rtranclp.rtrancl_refl)
qed

section \<open>Properties\<close>

text \<open>
  C29. No replay: once the outcome of a job is unknown, no run of the state machine dispatches again or passes
  through a permit, and the job can end only as succeeded, confirmed failed or recovery assessable.
\<close>

theorem unknown_outcome_never_dispatches:
  assumes "may_transition_to\<^sup>*\<^sup>* OutcomeUnknown s"
  shows "s \<in> {OutcomeUnknown, Reconciling, Succeeded, ConfirmedFailed, RecoveryAssessable} \<and> \<not> permits_external_dispatch s"
proof -
  have "after_unknown s"
    using job_runs.closed_under_rtrancl [OF assms, of after_unknown] after_unknown_closed by (simp add: after_unknown_def)
  then show ?thesis by (auto simp: after_unknown_def permits_external_dispatch_def)
qed

theorem unknown_outcome_never_dispatches_witness:
  "may_transition_to\<^sup>*\<^sup>* OutcomeUnknown Reconciling \<and> \<not> permits_external_dispatch Reconciling"
proof -
  have r: "may_transition_to\<^sup>*\<^sup>* OutcomeUnknown Reconciling" by (rule r_into_rtranclp) simp
  from unknown_outcome_never_dispatches [OF r] r show ?thesis by blast
qed

text \<open>
  Every job can end: terminal states are exactly the ones without a successor, and from every state a terminal
  one can be reached.
\<close>

theorem every_job_can_end:
  "(is_terminal s \<longleftrightarrow> {t. may_transition_to s t} = {}) \<and> (\<exists>t. is_terminal t \<and> may_transition_to\<^sup>*\<^sup>* s t)"
  using terminal_stuck end_reachable by auto

end
