(* ===== verification/Recovery.thy ===== *)
theory Recovery
  imports Durable Job_State "HOL-Library.AList"
begin

text \<open>
  What a replayed journal says about a job that did not finish (\<open>arkforge-engine/src/recovery.rs\<close>):
  the permit ledger, replayed record by record, and the crash disposition of a job. The ledger's
  \<open>BTreeMap\<close> is an association list; where the code iterates over it in key order, the keys are sorted.
\<close>

section \<open>Facts\<close>

definition JOB_ID :: string where "JOB_ID = ''jobId''"
definition PLAN_ID :: string where "PLAN_ID = ''planId''"
definition STEP_ID :: string where "STEP_ID = ''stepId''"
definition ATTEMPT_ID :: string where "ATTEMPT_ID = ''attemptId''"
definition PERMIT_ID :: string where "PERMIT_ID = ''permitId''"
definition RECEIPT_DIGEST :: string where "RECEIPT_DIGEST = ''receiptDigest''"

definition fact_value :: "facts \<Rightarrow> string \<Rightarrow> string option" where
  "fact_value fs key = map_option snd (find (\<lambda>(k, v). as_str k = key) fs)"

section \<open>The permit ledger\<close>

datatype permit_disposition =
    Unseen
  | AcceptedIntentNotDurable
  | IntentDurable
  | ConsumingOutcomeUnknown
  | Consumed (receipt_digest: string)

type_synonym permit_ledger = "(string \<times> permit_disposition) list"

definition ledger_entry :: "journal_record_kind \<Rightarrow> facts \<Rightarrow> permit_disposition \<Rightarrow> permit_disposition" where
  "ledger_entry kind fs entry =
     (case kind of
        StepPermitAccepted \<Rightarrow> if entry = Unseen then AcceptedIntentNotDurable else entry
      | StepIntentRecorded \<Rightarrow>
          if entry \<in> {Unseen, AcceptedIntentNotDurable, IntentDurable} then IntentDurable else entry
      | PermitConsuming \<Rightarrow> if is_Consumed entry then entry else ConsumingOutcomeUnknown
      | ExternalDispatchStarted \<Rightarrow> if is_Consumed entry then entry else ConsumingOutcomeUnknown
      | SemanticReceiptRecorded \<Rightarrow>
          if is_Consumed entry then entry
          else (case fact_value fs RECEIPT_DIGEST of
                  Some receipt \<Rightarrow> if receipt \<noteq> [] then Consumed receipt else ConsumingOutcomeUnknown
                | None \<Rightarrow> ConsumingOutcomeUnknown)
      | PermitConsumed \<Rightarrow>
          if is_Consumed entry then entry
          else (case fact_value fs RECEIPT_DIGEST of
                  Some receipt \<Rightarrow> if receipt \<noteq> [] then Consumed receipt else ConsumingOutcomeUnknown
                | None \<Rightarrow> ConsumingOutcomeUnknown)
      | _ \<Rightarrow> entry)"

definition ledger_disposition :: "permit_ledger \<Rightarrow> string \<Rightarrow> permit_disposition" where
  "ledger_disposition l permit_id = (case map_of l permit_id of Some d \<Rightarrow> d | None \<Rightarrow> Unseen)"

definition ledger_record :: "permit_ledger \<Rightarrow> journal_record \<Rightarrow> permit_ledger" where
  "ledger_record l r =
     (case fact_value (jr_facts r) PERMIT_ID of
        None \<Rightarrow> l
      | Some permit_id \<Rightarrow>
          AList.update permit_id (ledger_entry (jr_kind r) (jr_facts r) (ledger_disposition l permit_id)) l)"

definition from_records :: "journal_record list \<Rightarrow> permit_ledger" where
  "from_records rs = foldl ledger_record [] rs"

definition from_journal :: "journal \<Rightarrow> permit_ledger" where
  "from_journal j = from_records j"

definition ledger_unresolved :: "permit_ledger \<Rightarrow> string list" where
  "ledger_unresolved l =
     filter (\<lambda>p. ledger_disposition l p \<in> {IntentDurable, ConsumingOutcomeUnknown}) (sort (map fst l))"

section \<open>Crash dispositions\<close>

datatype crash_disposition =
    NoJob
  | SafeToCancel
  | DispatchForbiddenUntilIntentDurable string
  | CrashOutcomeUnknown string
  | ReceiptDurableCheckpointMissing string
  | ReplayFromCheckpoint
  | Concluded job_state

definition permits_external_effect :: "crash_disposition \<Rightarrow> bool" where
  "permits_external_effect d = False"

definition terminal_state :: "string \<Rightarrow> job_state option" where
  "terminal_state t =
     (if t = ''succeeded'' then Some Succeeded
      else if t = ''confirmedFailed'' then Some ConfirmedFailed
      else if t = ''cancelledSafe'' then Some CancelledSafe
      else if t = ''recoveryAssessable'' then Some RecoveryAssessable
      else None)"

text \<open>\<open>iter().find_map(f)\<close>\<close>

fun find_map :: "('a \<Rightarrow> 'b option) \<Rightarrow> 'a list \<Rightarrow> 'b option" where
  "find_map f [] = None"
| "find_map f (x # xs) = (case f x of Some y \<Rightarrow> Some y | None \<Rightarrow> find_map f xs)"

definition is_single_job_journal :: "journal \<Rightarrow> string \<Rightarrow> bool" where
  "is_single_job_journal j job_id =
     (case filter (\<lambda>r. jr_kind r = JobCreated) j of
        [created] \<Rightarrow> (case fact_value (jr_facts created) JOB_ID of
            Some created_job_id \<Rightarrow> created_job_id = job_id
          | None \<Rightarrow> as_str (jr_subject created) = job_id)
      | _ \<Rightarrow> False)"

definition job_records :: "journal \<Rightarrow> string \<Rightarrow> journal_record list" where
  "job_records j job_id = filter (\<lambda>r. case fact_value (jr_facts r) JOB_ID of
     Some record_job_id \<Rightarrow> record_job_id = job_id
   | None \<Rightarrow> as_str (jr_subject r) = job_id \<or> is_single_job_journal j job_id) j"

definition classified_outcome :: "journal_record \<Rightarrow> job_state option" where
  "classified_outcome r =
     (if jr_kind r = OutcomeClassified then Option.bind (fact_value (jr_facts r) ''outcome'') terminal_state else None)"

definition crash_derive :: "journal \<Rightarrow> string \<Rightarrow> crash_disposition" where
  "crash_derive j job_id =
     (let records = job_records j job_id in
      if \<not> list_ex (\<lambda>r. jr_kind r = JobCreated) records then NoJob
      else case find_map classified_outcome records of
        Some state \<Rightarrow> Concluded state
      | None \<Rightarrow>
          let ledger = from_records records in
          (case find_map (\<lambda>r. fact_value (jr_facts r) PERMIT_ID) (rev records) of
             None \<Rightarrow> SafeToCancel
           | Some permit_id \<Rightarrow>
               let checkpointed = list_ex (\<lambda>r. jr_kind r = StepCheckpointed \<and>
                     fact_value (jr_facts r) PERMIT_ID = Some permit_id) records in
               (case ledger_disposition ledger permit_id of
                  Unseen \<Rightarrow> SafeToCancel
                | AcceptedIntentNotDurable \<Rightarrow> DispatchForbiddenUntilIntentDurable permit_id
                | IntentDurable \<Rightarrow> CrashOutcomeUnknown permit_id
                | ConsumingOutcomeUnknown \<Rightarrow> CrashOutcomeUnknown permit_id
                | Consumed _ \<Rightarrow>
                    if checkpointed then ReplayFromCheckpoint else ReceiptDurableCheckpointMissing permit_id)))"

section \<open>One permit at a time\<close>

definition mentions :: "string \<Rightarrow> journal_record \<Rightarrow> bool" where
  "mentions p r \<longleftrightarrow> fact_value (jr_facts r) PERMIT_ID = Some p"

definition permit_step :: "string \<Rightarrow> permit_disposition \<Rightarrow> journal_record \<Rightarrow> permit_disposition" where
  "permit_step p e r = (if mentions p r then ledger_entry (jr_kind r) (jr_facts r) e else e)"

definition permit_state :: "string \<Rightarrow> journal_record list \<Rightarrow> permit_disposition" where
  "permit_state p rs = foldl (permit_step p) Unseen rs"

lemma ledger_disposition_record:
  "ledger_disposition (ledger_record l r) p = permit_step p (ledger_disposition l p) r"
  by (cases "fact_value (jr_facts r) PERMIT_ID")
    (auto simp: ledger_record_def permit_step_def mentions_def ledger_disposition_def update_conv')

lemma ledger_is_permit_state: "ledger_disposition (from_records rs) p = permit_state p rs"
proof -
  have "ledger_disposition (foldl ledger_record l rs) p = foldl (permit_step p) (ledger_disposition l p) rs" for l
    by (induction rs arbitrary: l) (simp_all add: ledger_disposition_record)
  then show ?thesis by (simp add: from_records_def permit_state_def ledger_disposition_def)
qed

lemma permit_state_Nil [simp]: "permit_state p [] = Unseen"
  by (simp add: permit_state_def)

lemma permit_state_snoc [simp]: "permit_state p (rs @ [r]) = permit_step p (permit_state p rs) r"
  by (simp add: permit_state_def)

lemma permit_state_append: "permit_state p (rs @ ss) = foldl (permit_step p) (permit_state p rs) ss"
  by (simp add: permit_state_def)

text \<open>Dispositions only go up, and a receipt is final.\<close>

fun disposition_rank :: "permit_disposition \<Rightarrow> nat" where
  "disposition_rank Unseen = 0"
| "disposition_rank AcceptedIntentNotDurable = 1"
| "disposition_rank IntentDurable = 2"
| "disposition_rank ConsumingOutcomeUnknown = 3"
| "disposition_rank (Consumed _) = 4"

lemma ledger_entry_up: "disposition_rank e \<le> disposition_rank (ledger_entry k fs e)"
  by (cases k; cases e) (auto simp: ledger_entry_def split: option.splits)

lemma ledger_entry_Consumed: "ledger_entry k fs (Consumed d) = Consumed d"
  by (cases k) (simp_all add: ledger_entry_def)

lemma permit_step_up: "disposition_rank e \<le> disposition_rank (permit_step p e r)"
  by (simp add: permit_step_def ledger_entry_up)

lemma permit_state_up: "disposition_rank (permit_state p rs) \<le> disposition_rank (permit_state p (rs @ ss))"
proof (induction ss rule: rev_induct)
  case (snoc s ss)
  then show ?case using permit_step_up [of "permit_state p (rs @ ss)" p s] by (simp flip: append_assoc)
qed simp

lemma permit_state_final: "permit_state p rs = Consumed d \<Longrightarrow> permit_state p (rs @ ss) = Consumed d"
  by (induction ss rule: rev_induct) (auto simp: permit_step_def ledger_entry_Consumed simp flip: append_assoc)

lemma permit_state_prefix: "prefix rs ss \<Longrightarrow> disposition_rank (permit_state p rs) \<le> disposition_rank (permit_state p ss)"
  by (auto simp: prefix_def permit_state_up)

text \<open>Storing a record sorts its facts and changes no lookup, since fact keys are distinct.\<close>

lemma fact_value_map_of: "fact_value fs k = map_of (map (\<lambda>(i, v). (as_str i, v)) fs) k"
  by (induction fs) (auto simp: fact_value_def)

lemma id_as_str_inject: "as_str i = as_str j \<longleftrightarrow> i = j"
  by (cases i; cases j) simp

lemma fact_value_canon:
  assumes "distinct (map fst fs)"
  shows "fact_value (canon_facts fs) k = fact_value fs k"
proof -
  let ?g = "\<lambda>(i, v :: string). (as_str i, v)"
  have d: "distinct (map fst gs)" "distinct (map fst (map ?g gs))" if "mset gs = mset fs" for gs
  proof -
    show g: "distinct (map fst gs)" using assms that mset_eq_imp_distinct_iff [of "map fst gs" "map fst fs"]
      by (metis mset_map)
    have "map fst (map ?g gs) = map as_str (map fst gs)" by (simp add: case_prod_unfold)
    then show "distinct (map fst (map ?g gs))" using g by (simp add: distinct_map inj_on_def id_as_str_inject del: map_map)
  qed
  have "map_of (map ?g (canon_facts fs)) = map_of (map ?g fs)"
    using d(2) [of "canon_facts fs"] d(2) [of fs] by (intro map_of_inject_set [THEN iffD2]) auto
  then show ?thesis by (simp add: fact_value_map_of)
qed

lemma encoded_facts_distinct:
  assumes "encode (record_facts_to_cbor fs) = Inr bs"
  shows "distinct (map fst fs)"
proof -
  from assms obtain ps where ps: "try_map encode_pair (map (\<lambda>(k, v). (id_to_cbor k, CText v)) fs) = Inr ps"
    "encode_entries ps = Inr bs" by (auto simp: record_facts_to_cbor_def encode_map_eq simp del: encode.simps)
  have "distinct (map fst (sort_key fst ps))"
    using encode_entries_Inr(1) [OF ps(2)] by (simp add: strict_sorted_iff)
  then have "distinct (map fst ps)" by (simp add: distinct_map)
  moreover have "map fst ps = map (\<lambda>k. projr (encode (id_to_cbor k))) (map fst fs)"
    using ps(1) by (auto simp: try_map_Inr_iff list_all2_conv_all_nth encode_pair_Inr case_prod_unfold
        intro!: nth_equalityI simp del: encode.simps)
  ultimately show ?thesis by (metis distinct_map)
qed

lemma storable_facts_distinct: "storable r \<Longrightarrow> distinct (map fst (jr_facts r))"
proof -
  assume "storable r"
  then obtain b where b: "encode (cbor_map (record_fields r @ [(''recordDigest'', digest_to_cbor (jr_record_digest r))])) = Inr b"
    by (auto simp: storable_def record_to_canonical_bytes_def)
  from record_field_encodes [OF this, of "''facts''" "record_facts_to_cbor (jr_facts r)"] show ?thesis
    by (auto simp: record_fields_def intro: encoded_facts_distinct simp del: encode.simps)
qed

lemma permit_state_norm:
  assumes "\<forall>r \<in> set rs. storable r"
  shows "permit_state p (map record_norm rs) = permit_state p rs"
  using assms
proof (induction rs rule: rev_induct)
  case (snoc r rs)
  have "fact_value (canon_facts (jr_facts r)) = fact_value (jr_facts r)"
    using snoc.prems storable_facts_distinct fact_value_canon by fastforce
  then have "permit_step p e (record_norm r) = permit_step p e r" for e
    by (simp only: permit_step_def mentions_def ledger_entry_def record_norm_frame)
  with snoc show ?case by simp
qed simp

section \<open>Properties\<close>

text \<open>The receipts that records name for a permit, in order.\<close>

definition named_receipts :: "string \<Rightarrow> journal_record list \<Rightarrow> string list" where
  "named_receipts p rs = concat (map (\<lambda>r.
     if mentions p r \<and> jr_kind r \<in> {SemanticReceiptRecorded, PermitConsumed} then
       (case fact_value (jr_facts r) RECEIPT_DIGEST of Some d \<Rightarrow> if d = [] then [] else [d] | None \<Rightarrow> [])
     else []) rs)"

definition mentioned_as :: "string \<Rightarrow> journal_record_kind set \<Rightarrow> journal_record list \<Rightarrow> bool" where
  "mentioned_as p ks rs \<longleftrightarrow> (\<exists>r \<in> set rs. mentions p r \<and> jr_kind r \<in> ks)"

text \<open>
  C23. The ledger reads a journal correctly whatever the order of its records: a permit is consumed, with the
  first receipt that was named for it, when a receipt was named; otherwise its outcome is unknown when anything says that
  consuming it began; otherwise its intent is durable when an intent was recorded; otherwise it was only accepted, or
  never seen.
\<close>

theorem permit_disposition_table:
  "ledger_disposition (from_journal j) p =
     (case named_receipts p j of
        d # _ \<Rightarrow> Consumed d
      | [] \<Rightarrow>
          if mentioned_as p {PermitConsuming, ExternalDispatchStarted, SemanticReceiptRecorded, PermitConsumed} j
          then ConsumingOutcomeUnknown
          else if mentioned_as p {StepIntentRecorded} j then IntentDurable
          else if mentioned_as p {StepPermitAccepted} j then AcceptedIntentNotDurable
          else Unseen)"
  unfolding from_journal_def ledger_is_permit_state
proof (induction j rule: rev_induct)
  case Nil
  then show ?case by (simp add: named_receipts_def mentioned_as_def)
next
  case (snoc r j)
  have m: "mentioned_as p ks (j @ [r]) \<longleftrightarrow> mentioned_as p ks j \<or> mentions p r \<and> jr_kind r \<in> ks" for ks
    by (auto simp: mentioned_as_def)
  have n: "named_receipts p (j @ [r]) = named_receipts p j @ named_receipts p [r]" by (simp add: named_receipts_def)
  have one: "named_receipts p [r] =
      (if mentions p r \<and> jr_kind r \<in> {SemanticReceiptRecorded, PermitConsumed} then
         (case fact_value (jr_facts r) RECEIPT_DIGEST of Some d \<Rightarrow> if d = [] then [] else [d] | None \<Rightarrow> [])
       else [])" by (simp add: named_receipts_def)
  show ?case
    unfolding permit_state_snoc snoc.IH m n one permit_step_def
    by (cases "jr_kind r"; cases "named_receipts p j"; cases "fact_value (jr_facts r) RECEIPT_DIGEST")
      (simp_all add: ledger_entry_def)
qed


end
