(* ===== verification/Authority_Api.thy ===== *)
theory Authority_Api
  imports Cbor_Fields Flash_Step
begin

text \<open>
  The authority boundary (\<open>arkforge-authority-api/src/lib.rs\<close>): admission snapshots and the
  freshness re-check, permits with the bytes their integrity tag covers, reading a permit back, minting
  and verifying the tag, possible effect sets. The two traits, which are implemented outside this
  crate, and the \<open>Display\<close> texts are not modelled. \<open>VerifiedStepPermit\<close> has no
  constructor but \<open>verify_permit\<close>; it is the permit that function returns.
\<close>

section \<open>Snapshots and freshness\<close>

record step_admission_snapshot =
  sas_captured_at_epoch_ms :: u64
  sas_freshness_deadline_epoch_ms :: u64
  sas_device_facts_digest :: sha256_digest
  sas_transport_session_digest :: "sha256_digest option"
  sas_provider_facts_digest :: sha256_digest
  sas_toolchain_facts_digest :: sha256_digest
  sas_artifact_facts_digest :: sha256_digest

definition snapshot_to_cbor :: "step_admission_snapshot \<Rightarrow> cbor" where
  "snapshot_to_cbor s = cbor_map
     [(''capturedAtEpochMs'', CUnsigned (sas_captured_at_epoch_ms s)),
      (''freshnessDeadlineEpochMs'', CUnsigned (sas_freshness_deadline_epoch_ms s)),
      (''deviceFactsDigest'', digest_to_cbor (sas_device_facts_digest s)),
      (''transportSessionDigest'', opt_cbor digest_to_cbor (sas_transport_session_digest s)),
      (''providerFactsDigest'', digest_to_cbor (sas_provider_facts_digest s)),
      (''toolchainFactsDigest'', digest_to_cbor (sas_toolchain_facts_digest s)),
      (''artifactFactsDigest'', digest_to_cbor (sas_artifact_facts_digest s))]"

definition snapshot_digest :: "step_admission_snapshot \<Rightarrow> cbor_error + sha256_digest" where
  "snapshot_digest s = digest_canonical DomAdmissionSnapshot (snapshot_to_cbor s)"

datatype continuity_break =
    SessionChanged
  | DetachObserved
  | DeviceFactsChanged
  | ProviderFactsChanged
  | ToolchainFactsChanged
  | ArtifactFactsChanged

datatype freshness_verdict =
    Fresh
  | StaleSnapshot u64
  | ContinuityBroken continuity_break

definition verdict_permits_dispatch :: "freshness_verdict \<Rightarrow> bool" where
  "verdict_permits_dispatch v \<longleftrightarrow> (case v of Fresh \<Rightarrow> True | _ \<Rightarrow> False)"

definition is_retryable_without_device_blame :: "freshness_verdict \<Rightarrow> bool" where
  "is_retryable_without_device_blame v \<longleftrightarrow> (case v of StaleSnapshot _ \<Rightarrow> True | _ \<Rightarrow> False)"

record current_facts =
  cf_now_epoch_ms :: u64
  cf_device_facts_digest :: sha256_digest
  cf_transport_session_digest :: "sha256_digest option"
  cf_saw_detach_since_snapshot :: bool
  cf_provider_facts_digest :: sha256_digest
  cf_toolchain_facts_digest :: sha256_digest
  cf_artifact_facts_digest :: sha256_digest

definition evaluate_freshness :: "step_admission_snapshot \<Rightarrow> current_facts \<Rightarrow> freshness_verdict" where
  "evaluate_freshness snapshot current =
     (if cf_saw_detach_since_snapshot current then ContinuityBroken DetachObserved
      else if sas_transport_session_digest snapshot \<noteq> cf_transport_session_digest current then
        ContinuityBroken SessionChanged
      else if sas_device_facts_digest snapshot \<noteq> cf_device_facts_digest current then
        ContinuityBroken DeviceFactsChanged
      else if sas_provider_facts_digest snapshot \<noteq> cf_provider_facts_digest current then
        ContinuityBroken ProviderFactsChanged
      else if sas_toolchain_facts_digest snapshot \<noteq> cf_toolchain_facts_digest current then
        ContinuityBroken ToolchainFactsChanged
      else if sas_artifact_facts_digest snapshot \<noteq> cf_artifact_facts_digest current then
        ContinuityBroken ArtifactFactsChanged
      else if sas_freshness_deadline_epoch_ms snapshot \<le> cf_now_epoch_ms current then
        StaleSnapshot (saturating_sub (cf_now_epoch_ms current) (sas_captured_at_epoch_ms snapshot))
      else Fresh)"

section \<open>Permits\<close>

datatype pairing_epoch = PairingEpoch u64

record permit_integrity_tag =
  pit_epoch :: pairing_epoch
  pit_tag :: sha256_digest

record step_permit =
  sp_permit_id :: permit_id
  sp_authority_namespace :: authority_namespace
  sp_controller_session_id :: controller_session_id
  sp_job_id :: job_id
  sp_plan_id :: plan_id
  sp_plan_digest :: sha256_digest
  sp_step_id :: step_id
  sp_attempt_id :: attempt_id
  sp_public_step_digest :: sha256_digest
  sp_private_action_digest :: sha256_digest
  sp_effect_set_digest :: sha256_digest
  sp_authority_binding :: authority_binding_ref
  sp_admitted_device_facts_digest :: sha256_digest
  sp_issued_at_epoch_ms :: u64
  sp_expires_at_epoch_ms :: u64
  sp_single_use :: bool
  sp_integrity_tag :: permit_integrity_tag

definition permit_body :: "step_permit \<Rightarrow> cbor" where
  "permit_body p = cbor_map
     [(''permitId'', id_to_cbor (sp_permit_id p)),
      (''authorityNamespace'', id_to_cbor (sp_authority_namespace p)),
      (''controllerSessionId'', id_to_cbor (sp_controller_session_id p)),
      (''jobId'', id_to_cbor (sp_job_id p)),
      (''planId'', id_to_cbor (sp_plan_id p)),
      (''planDigest'', digest_to_cbor (sp_plan_digest p)),
      (''stepId'', id_to_cbor (sp_step_id p)),
      (''attemptId'', id_to_cbor (sp_attempt_id p)),
      (''publicStepDigest'', digest_to_cbor (sp_public_step_digest p)),
      (''privateActionDigest'', digest_to_cbor (sp_private_action_digest p)),
      (''effectSetDigest'', digest_to_cbor (sp_effect_set_digest p)),
      (''authorityBinding'', binding_ref_to_cbor (sp_authority_binding p)),
      (''admittedDeviceFactsDigest'', digest_to_cbor (sp_admitted_device_facts_digest p)),
      (''issuedAtEpochMs'', CUnsigned (sp_issued_at_epoch_ms p)),
      (''expiresAtEpochMs'', CUnsigned (sp_expires_at_epoch_ms p)),
      (''singleUse'', CBool (sp_single_use p))]"

definition signing_body :: "step_permit \<Rightarrow> cbor_error + bytes" where
  "signing_body p = encode (permit_body p)"

datatype permit_decode_error =
    PermitNotAMap
  | PermitField string
  | PermitNotCanonical
  | PermitDecodeCbor cbor_error

text \<open>The nested map of the authority binding. Every failure in it names the same field.\<close>

definition decode_binding :: "(cbor \<times> cbor) list \<Rightarrow> permit_decode_error + authority_binding_ref" where
  "decode_binding entries =
     (case cbor_field entries ''authorityBinding'' of
        Some (CMap pairs) \<Rightarrow>
          let bad = (\<lambda>_. PermitField ''authorityBinding'') in
          rbind (id_field bad pairs ''authorityNamespace'') (\<lambda>namespace.
          rbind (id_field bad pairs ''bindingId'') (\<lambda>binding_id.
          rbind (unsigned_field bad pairs ''bindingRevision'') (\<lambda>revision.
          rbind (digest_field bad pairs ''stableIdentityDigest'') (\<lambda>identity.
            Inr \<lparr>abr_authority_namespace = namespace, abr_binding_id = binding_id,
              abr_binding_revision = revision, abr_stable_identity_digest = identity\<rparr>))))
      | _ \<Rightarrow> Inl (PermitField ''authorityBinding''))"

definition void_tag :: permit_integrity_tag where
  "void_tag = \<lparr>pit_epoch = PairingEpoch 0, pit_tag = from_bytes (replicate 32 0)\<rparr>"

definition permit_from_canonical_bytes :: "bytes \<Rightarrow> permit_decode_error + step_permit" where
  "permit_from_canonical_bytes input =
     rbind (map_err PermitDecodeCbor (decode_canonical input)) (\<lambda>value.
     case value of
       CMap entries \<Rightarrow>
         rbind (decode_binding entries) (\<lambda>binding.
         rbind (id_field PermitField entries ''permitId'') (\<lambda>permit_id.
         rbind (id_field PermitField entries ''authorityNamespace'') (\<lambda>namespace.
         rbind (id_field PermitField entries ''controllerSessionId'') (\<lambda>session.
         rbind (id_field PermitField entries ''jobId'') (\<lambda>job.
         rbind (id_field PermitField entries ''planId'') (\<lambda>plan.
         rbind (digest_field PermitField entries ''planDigest'') (\<lambda>plan_digest.
         rbind (id_field PermitField entries ''stepId'') (\<lambda>step.
         rbind (id_field PermitField entries ''attemptId'') (\<lambda>attempt.
         rbind (digest_field PermitField entries ''publicStepDigest'') (\<lambda>public_step.
         rbind (digest_field PermitField entries ''privateActionDigest'') (\<lambda>private_action.
         rbind (digest_field PermitField entries ''effectSetDigest'') (\<lambda>effects.
         rbind (digest_field PermitField entries ''admittedDeviceFactsDigest'') (\<lambda>facts.
         rbind (unsigned_field PermitField entries ''issuedAtEpochMs'') (\<lambda>issued.
         rbind (unsigned_field PermitField entries ''expiresAtEpochMs'') (\<lambda>expires.
         rbind (boolean_field PermitField entries ''singleUse'') (\<lambda>single_use.
         let permit = \<lparr>sp_permit_id = permit_id, sp_authority_namespace = namespace,
           sp_controller_session_id = session, sp_job_id = job, sp_plan_id = plan,
           sp_plan_digest = plan_digest, sp_step_id = step, sp_attempt_id = attempt,
           sp_public_step_digest = public_step, sp_private_action_digest = private_action,
           sp_effect_set_digest = effects, sp_authority_binding = binding,
           sp_admitted_device_facts_digest = facts, sp_issued_at_epoch_ms = issued,
           sp_expires_at_epoch_ms = expires, sp_single_use = single_use, sp_integrity_tag = void_tag\<rparr>
         in rbind (map_err PermitDecodeCbor (signing_body permit)) (\<lambda>reencoded.
           if reencoded \<noteq> input then Inl PermitNotCanonical else Inr permit)))))))))))))))))
     | _ \<Rightarrow> Inl PermitNotAMap)"

section \<open>Tags\<close>

record controller_pairing_secret =
  cps_epoch :: pairing_epoch
  cps_secret :: bytes

definition secret_compute :: "controller_pairing_secret \<Rightarrow> bytes \<Rightarrow> sha256_digest" where
  "secret_compute s body = hmac_sha256 (cps_secret s) body"

definition mint_integrity_tag ::
  "step_permit \<Rightarrow> controller_pairing_secret \<Rightarrow> cbor_error + permit_integrity_tag" where
  "mint_integrity_tag permit secret = rbind (signing_body permit) (\<lambda>body.
     Inr \<lparr>pit_epoch = cps_epoch secret, pit_tag = hmac_sha256 (cps_secret secret) body\<rparr>)"

datatype permit_verification_error =
    IntegrityTagInvalid
  | StalePairingEpoch pairing_epoch pairing_epoch
  | PermitExpired u64 u64
  | ActionMismatch sha256_digest sha256_digest
  | PlanMismatch sha256_digest sha256_digest
  | ContextMismatch string
  | AlreadyConsumed
  | NotSingleUse
  | VerificationCbor cbor_error

record dispatch_intent =
  dp_controller_session_id :: controller_session_id
  dp_job_id :: job_id
  dp_plan_id :: plan_id
  dp_plan_digest :: sha256_digest
  dp_step_id :: step_id
  dp_attempt_id :: attempt_id
  dp_public_step_digest :: sha256_digest
  dp_private_action_digest :: sha256_digest
  dp_effect_set_digest :: sha256_digest
  dp_authority_binding :: authority_binding_ref
  dp_admitted_device_facts_digest :: sha256_digest
  dp_now_epoch_ms :: u64

text \<open>The loop over pairs of a comparison and a field name: the first that fails is the error.\<close>

fun first_mismatch :: "(bool \<times> string) list \<Rightarrow> permit_verification_error + unit" where
  "first_mismatch [] = Inr ()"
| "first_mismatch ((matches, field) # cs) = (if matches then first_mismatch cs else Inl (ContextMismatch field))"

definition verify_permit ::
  "step_permit \<Rightarrow> controller_pairing_secret \<Rightarrow> dispatch_intent \<Rightarrow> bool \<Rightarrow>
     permit_verification_error + step_permit" where
  "verify_permit permit secret intent already_consumed =
     (if already_consumed then Inl AlreadyConsumed
      else if \<not> sp_single_use permit then Inl NotSingleUse
      else if pit_epoch (sp_integrity_tag permit) \<noteq> cps_epoch secret then
        Inl (StalePairingEpoch (pit_epoch (sp_integrity_tag permit)) (cps_epoch secret))
      else
        rbind (map_err VerificationCbor (signing_body permit)) (\<lambda>body.
        if \<not> constant_time_eq (secret_compute secret body) (pit_tag (sp_integrity_tag permit)) then
          Inl IntegrityTagInvalid
        else if sp_expires_at_epoch_ms permit \<le> dp_now_epoch_ms intent then
          Inl (PermitExpired (sp_expires_at_epoch_ms permit) (dp_now_epoch_ms intent))
        else if sp_plan_digest permit \<noteq> dp_plan_digest intent then
          Inl (PlanMismatch (dp_plan_digest intent) (sp_plan_digest permit))
        else if sp_private_action_digest permit \<noteq> dp_private_action_digest intent then
          Inl (ActionMismatch (dp_private_action_digest intent) (sp_private_action_digest permit))
        else if sp_authority_namespace permit \<noteq> abr_authority_namespace (dp_authority_binding intent) then
          Inl (ContextMismatch ''authorityNamespace'')
        else
          rbind (first_mismatch
            [(sp_controller_session_id permit = dp_controller_session_id intent, ''controllerSessionId''),
             (sp_job_id permit = dp_job_id intent, ''jobId''),
             (sp_plan_id permit = dp_plan_id intent, ''planId''),
             (sp_step_id permit = dp_step_id intent, ''stepId''),
             (sp_attempt_id permit = dp_attempt_id intent, ''attemptId''),
             (sp_public_step_digest permit = dp_public_step_digest intent, ''publicStepDigest''),
             (sp_effect_set_digest permit = dp_effect_set_digest intent, ''effectSetDigest''),
             (sp_authority_binding permit = dp_authority_binding intent, ''authorityBinding''),
             (sp_admitted_device_facts_digest permit = dp_admitted_device_facts_digest intent,
              ''admittedDeviceFactsDigest'')])
            (\<lambda>_. Inr permit)))"

section \<open>Control actions and possible effects\<close>

datatype managed_device_control_action = EnterUpdater | RebootToNormal | ReadProductFacts | ReadBuildFacts

fun control_as_str :: "managed_device_control_action \<Rightarrow> string" where
  "control_as_str EnterUpdater = ''enter-updater''"
| "control_as_str RebootToNormal = ''reboot-to-normal''"
| "control_as_str ReadProductFacts = ''read-product-facts''"
| "control_as_str ReadBuildFacts = ''read-build-facts''"

definition control_parse :: "string \<Rightarrow> managed_device_control_action option" where
  "control_parse v =
     (if v = ''enter-updater'' then Some EnterUpdater
      else if v = ''reboot-to-normal'' then Some RebootToNormal
      else if v = ''read-product-facts'' then Some ReadProductFacts
      else if v = ''read-build-facts'' then Some ReadBuildFacts
      else None)"

datatype effect_set_completeness = Bounded | Unbounded

record possible_effect_set =
  pes_effects :: effect_set
  pes_completeness :: effect_set_completeness
  pes_source_action_ids :: "action_id list"

definition possible_to_cbor :: "possible_effect_set \<Rightarrow> cbor" where
  "possible_to_cbor p = cbor_map
     [(''effects'', effect_set_to_cbor (pes_effects p)),
      (''completeness'', CText (case pes_completeness p of Bounded \<Rightarrow> ''bounded'' | Unbounded \<Rightarrow> ''unbounded'')),
      (''sourceActionIds'', CArray (map id_to_cbor (pes_source_action_ids p)))]"

declare snapshot_to_cbor_def [to_cbor_defs]
  permit_body_def [to_cbor_defs]
  possible_to_cbor_def [to_cbor_defs]

section \<open>Lemmas\<close>

interpretation control: vocabulary control_as_str control_parse
proof
  show "control_parse (control_as_str k) = Some k" for k by (cases k) (simp_all add: control_parse_def)
qed (auto simp: control_parse_def split: if_splits)

definition binding_ref_wf :: "authority_binding_ref \<Rightarrow> bool" where
  "binding_ref_wf b \<longleftrightarrow> id_wf (abr_authority_namespace b) \<and> id_wf (abr_binding_id b)"

definition permit_wf :: "step_permit \<Rightarrow> bool" where
  "permit_wf p \<longleftrightarrow> id_wf (sp_permit_id p) \<and> id_wf (sp_authority_namespace p) \<and>
     id_wf (sp_controller_session_id p) \<and> id_wf (sp_job_id p) \<and> id_wf (sp_plan_id p) \<and>
     id_wf (sp_step_id p) \<and> id_wf (sp_attempt_id p) \<and> binding_ref_wf (sp_authority_binding p)"

lemma binding_ref_encodes [cbor_encodes]: "encodes (binding_ref_to_cbor b)"
  unfolding binding_ref_to_cbor_def by (rule encodes_record) (auto simp: cbor_encodes)

lemma permit_encodes: "encodes (permit_body p)"
  unfolding permit_body_def by (rule encodes_record) (auto simp: cbor_encodes)

lemma binding_ref_bound: "binding_ref_wf b \<Longrightarrow> cbor_bound (binding_ref_to_cbor b) \<le> 500"
  using id_bound [of "abr_authority_namespace b"] id_bound [of "abr_binding_id b"]
  by (simp add: binding_ref_wf_def binding_ref_to_cbor_def cbor_bound_record)

lemma permit_bound: "permit_wf p \<Longrightarrow> cbor_bound (permit_body p) < 2 ^ 64"
proof -
  assume w: "permit_wf p"
  note b = id_bound [of "sp_permit_id p"] id_bound [of "sp_authority_namespace p"]
    id_bound [of "sp_controller_session_id p"] id_bound [of "sp_job_id p"] id_bound [of "sp_plan_id p"]
    id_bound [of "sp_step_id p"] id_bound [of "sp_attempt_id p"]
  have "cbor_bound (permit_body p) \<le> 3000"
    using w b binding_ref_bound [of "sp_authority_binding p"]
    by (simp add: permit_wf_def permit_body_def cbor_bound_record)
  also have "(3000 :: nat) < 2 ^ 64" by simp
  finally show ?thesis .
qed

lemma signing_body_total: "permit_wf p \<Longrightarrow> \<exists>bs. signing_body p = Inr bs \<and> length bs < 2 ^ 64"
  unfolding signing_body_def by (rule encodes_bound [OF permit_encodes permit_bound])

lemma permit_decodes:
  assumes "permit_wf p" and "signing_body p = Inr bs"
  shows "decode_canonical bs = Inr (canon (permit_body p))"
proof (rule encode_canonD)
  show "encode (permit_body p) = Inr bs" using assms(2) by (simp add: signing_body_def)
  show "length bs < 2 ^ 64" using signing_body_total [OF assms(1)] assms(2) by simp
  show "cbor_texts_wf (permit_body p)"
    using assms(1) by (simp add: permit_wf_def binding_ref_wf_def permit_body_def binding_ref_to_cbor_def ascii_string_wf
        byte_of_char_def)
  show "cbor_depth (permit_body p) \<le> MAX_DEPTH"
    by (simp add: permit_body_def binding_ref_to_cbor_def MAX_DEPTH_def)
qed

lemma decode_binding_canon:
  assumes "distinct (map fst fs)" and "map_of fs ''authorityBinding'' = Some (binding_ref_to_cbor b)" and "binding_ref_wf b"
  shows "decode_binding (canon_entries fs) = Inr b"
proof -
  have "cbor_field (canon_entries fs) ''authorityBinding'' = Some (canon (binding_ref_to_cbor b))"
    using cbor_field_canon [OF assms(1)] assms(2) by simp
  then show ?thesis
    using assms(3)
    by (simp add: decode_binding_def binding_ref_to_cbor_def canon_record_entries field_canon binding_ref_wf_def)
qed

lemma permit_body_untagged [simp]: "permit_body (p\<lparr>sp_integrity_tag := t\<rparr>) = permit_body p"
  by (simp add: permit_body_def)

lemma signing_body_untagged [simp]: "signing_body (p\<lparr>sp_integrity_tag := t\<rparr>) = signing_body p"
  by (simp add: signing_body_def)

lemma permit_decode_encode:
  assumes "permit_wf p" and "signing_body p = Inr bs"
  shows "permit_from_canonical_bytes bs = Inr (p\<lparr>sp_integrity_tag := void_tag\<rparr>)"
proof -
  obtain fs where fs: "permit_body p = cbor_map fs" "distinct (map fst fs)"
    "map_of fs ''authorityBinding'' = Some (binding_ref_to_cbor (sp_authority_binding p))"
    "map_of fs ''permitId'' = Some (id_to_cbor (sp_permit_id p))"
    "map_of fs ''authorityNamespace'' = Some (id_to_cbor (sp_authority_namespace p))"
    "map_of fs ''controllerSessionId'' = Some (id_to_cbor (sp_controller_session_id p))"
    "map_of fs ''jobId'' = Some (id_to_cbor (sp_job_id p))"
    "map_of fs ''planId'' = Some (id_to_cbor (sp_plan_id p))"
    "map_of fs ''planDigest'' = Some (digest_to_cbor (sp_plan_digest p))"
    "map_of fs ''stepId'' = Some (id_to_cbor (sp_step_id p))"
    "map_of fs ''attemptId'' = Some (id_to_cbor (sp_attempt_id p))"
    "map_of fs ''publicStepDigest'' = Some (digest_to_cbor (sp_public_step_digest p))"
    "map_of fs ''privateActionDigest'' = Some (digest_to_cbor (sp_private_action_digest p))"
    "map_of fs ''effectSetDigest'' = Some (digest_to_cbor (sp_effect_set_digest p))"
    "map_of fs ''admittedDeviceFactsDigest'' = Some (digest_to_cbor (sp_admitted_device_facts_digest p))"
    "map_of fs ''issuedAtEpochMs'' = Some (CUnsigned (sp_issued_at_epoch_ms p))"
    "map_of fs ''expiresAtEpochMs'' = Some (CUnsigned (sp_expires_at_epoch_ms p))"
    "map_of fs ''singleUse'' = Some (CBool (sp_single_use p))"
    by (rule that [OF permit_body_def]) simp_all
  note f = field_canon [OF fs(2)] decode_binding_canon [OF fs(2,3)]
  have d: "decode_canonical bs = Inr (CMap (canon_entries fs))"
    using permit_decodes [OF assms] fs(1) by (simp add: canon_record_entries)
  have s: "signing_body (p\<lparr>sp_integrity_tag := void_tag\<rparr>) = Inr bs" using assms(2) by simp
  show ?thesis
    unfolding permit_from_canonical_bytes_def d
    using assms(1) s by (cases p) (simp add: f fs permit_wf_def)
qed

lemma id_field_wf: "id_field err es k = Inr i \<Longrightarrow> id_wf i"
  by (auto simp: id_field_def map_err_Inr_iff dest: opaque_id_new_wf)

lemma permit_decode_sound:
  assumes "permit_from_canonical_bytes bs = Inr p"
  shows "signing_body p = Inr bs \<and> permit_wf p \<and> sp_integrity_tag p = void_tag"
proof -
  have b: "binding_ref_wf b" if "decode_binding es = Inr b" for es b
    using that by (auto simp: decode_binding_def Let_def binding_ref_wf_def dest: id_field_wf
        split: option.splits cbor.splits)
  obtain v where v: "decode_canonical bs = Inr v"
    using assms by (cases "decode_canonical bs") (simp_all add: permit_from_canonical_bytes_def)
  then obtain es where "v = CMap es"
    using assms by (cases v) (simp_all add: permit_from_canonical_bytes_def)
  with v assms show ?thesis
    by (auto simp: permit_from_canonical_bytes_def permit_wf_def Let_def dest: b id_field_wf split: if_splits)
qed

lemma first_mismatch_Inr [simp]: "first_mismatch cs = Inr () \<longleftrightarrow> list_all fst cs"
  by (induction cs rule: first_mismatch.induct) auto

text \<open>The intent that a permit authorizes, field by field.\<close>

definition permit_authorizes :: "step_permit \<Rightarrow> dispatch_intent \<Rightarrow> bool" where
  "permit_authorizes p d \<longleftrightarrow>
     sp_plan_digest p = dp_plan_digest d \<and> sp_private_action_digest p = dp_private_action_digest d \<and>
     sp_authority_namespace p = abr_authority_namespace (dp_authority_binding d) \<and>
     sp_controller_session_id p = dp_controller_session_id d \<and> sp_job_id p = dp_job_id d \<and>
     sp_plan_id p = dp_plan_id d \<and> sp_step_id p = dp_step_id d \<and> sp_attempt_id p = dp_attempt_id d \<and>
     sp_public_step_digest p = dp_public_step_digest d \<and> sp_effect_set_digest p = dp_effect_set_digest d \<and>
     sp_authority_binding p = dp_authority_binding d \<and>
     sp_admitted_device_facts_digest p = dp_admitted_device_facts_digest d \<and>
     dp_now_epoch_ms d < sp_expires_at_epoch_ms p"

lemma verify_permit_iff:
  "verify_permit p s d consumed = Inr v \<longleftrightarrow> v = p \<and> \<not> consumed \<and> sp_single_use p \<and>
     mint_integrity_tag p s = Inr (sp_integrity_tag p) \<and> permit_authorizes p d"
proof -
  have tag: "mint_integrity_tag p s = Inr (sp_integrity_tag p) \<longleftrightarrow>
      (\<exists>body. signing_body p = Inr body \<and> pit_epoch (sp_integrity_tag p) = cps_epoch s \<and>
        secret_compute s body = pit_tag (sp_integrity_tag p))"
    by (cases "signing_body p"; cases "sp_integrity_tag p") (auto simp: mint_integrity_tag_def secret_compute_def)
  show ?thesis
    unfolding tag verify_permit_def permit_authorizes_def
    by (cases "signing_body p") (auto simp: constant_time_eq_iff not_le)
qed

lemma permit_body_inject:
  "canon (permit_body p) = canon (permit_body q) \<longleftrightarrow> p\<lparr>sp_integrity_tag := void_tag\<rparr> = q\<lparr>sp_integrity_tag := void_tag\<rparr>"
  unfolding permit_body_def
  by (subst canon_record_iff, simp, simp, cases p; cases q) (simp add: cbor_inject)

section \<open>An example permit\<close>

definition ex_binding :: authority_binding_ref where
  "ex_binding = \<lparr>abr_authority_namespace = OpaqueId ''n'', abr_binding_id = OpaqueId ''b'',
     abr_binding_revision = 3, abr_stable_identity_digest = 9\<rparr>"

definition ex_permit :: step_permit where
  "ex_permit = \<lparr>sp_permit_id = OpaqueId ''permit-1'', sp_authority_namespace = OpaqueId ''n'',
     sp_controller_session_id = OpaqueId ''s'', sp_job_id = OpaqueId ''job-1'', sp_plan_id = OpaqueId ''p'',
     sp_plan_digest = 1, sp_step_id = OpaqueId ''step-1'', sp_attempt_id = OpaqueId ''a'',
     sp_public_step_digest = 2, sp_private_action_digest = 3, sp_effect_set_digest = 4,
     sp_authority_binding = ex_binding, sp_admitted_device_facts_digest = 5, sp_issued_at_epoch_ms = 1000,
     sp_expires_at_epoch_ms = 2000, sp_single_use = True, sp_integrity_tag = void_tag\<rparr>"

definition ex_secret :: controller_pairing_secret where
  "ex_secret = \<lparr>cps_epoch = PairingEpoch 7, cps_secret = [1, 2, 3]\<rparr>"

definition ex_intent :: dispatch_intent where
  "ex_intent = \<lparr>dp_controller_session_id = OpaqueId ''s'', dp_job_id = OpaqueId ''job-1'',
     dp_plan_id = OpaqueId ''p'', dp_plan_digest = 1, dp_step_id = OpaqueId ''step-1'',
     dp_attempt_id = OpaqueId ''a'', dp_public_step_digest = 2, dp_private_action_digest = 3,
     dp_effect_set_digest = 4, dp_authority_binding = ex_binding, dp_admitted_device_facts_digest = 5,
     dp_now_epoch_ms = 1500\<rparr>"

lemma ex_permit_wf: "permit_wf ex_permit"
  by (simp add: permit_wf_def binding_ref_wf_def ex_permit_def ex_binding_def id_wfI id_char_defs)

lemma ex_mint: "\<exists>t. mint_integrity_tag ex_permit ex_secret = Inr t"
  using signing_body_total [OF ex_permit_wf] by (auto simp: mint_integrity_tag_def)

section \<open>Properties\<close>

text \<open>
  A permit is the bytes the authority signed. Reading accepts a byte string for a permit exactly when
  the permit has well-formed identifiers, its tag is still void, and the string is its signing body; every
  well-formed permit has a signing body, and its tag is the only part that does not travel in it.
\<close>

theorem permit_round_trip:
  "(permit_from_canonical_bytes bs = Inr p \<longleftrightarrow>
      permit_wf p \<and> sp_integrity_tag p = void_tag \<and> signing_body p = Inr bs) \<and>
   (permit_wf q \<longrightarrow> (\<exists>cs. signing_body q = Inr cs \<and>
      permit_from_canonical_bytes cs = Inr (q\<lparr>sp_integrity_tag := void_tag\<rparr>)))"
proof (intro conjI iffI impI)
  assume h: "permit_wf p \<and> sp_integrity_tag p = void_tag \<and> signing_body p = Inr bs"
  then have "p\<lparr>sp_integrity_tag := void_tag\<rparr> = p" by (cases p) simp
  then show "permit_from_canonical_bytes bs = Inr p" using permit_decode_encode [of p bs] h by simp
qed (use permit_decode_sound permit_decode_encode signing_body_total in blast)+

theorem permit_round_trip_witness:
  "\<exists>cs. signing_body ex_permit = Inr cs \<and>
     permit_from_canonical_bytes cs = Inr (ex_permit\<lparr>sp_integrity_tag := void_tag\<rparr>)"
  using permit_round_trip [of undefined undefined ex_permit] ex_permit_wf by blast

text \<open>
  C25. Verification is exact: a permit verifies if and only if it was not consumed, is single use, carries
  the tag that the current secret mints for it, and describes the pending dispatch in every field before it
  expires; the verified permit is that permit.
\<close>

theorem verify_permit_exact:
  "verify_permit p s d consumed = Inr v \<longleftrightarrow> v = p \<and> \<not> consumed \<and> sp_single_use p \<and>
     mint_integrity_tag p s = Inr (sp_integrity_tag p) \<and> permit_authorizes p d"
  by (rule verify_permit_iff)

text \<open>
  C26. A tag cannot be moved. If two permits with well-formed identifiers verify under one secret with one tag,
  they agree in every signed field, or their signing bodies are an HMAC collision under that secret: an
  explicit SHA-256 collision of the inner or the outer hash.
\<close>

theorem permit_tag_binds:
  assumes "verify_permit p s d False = Inr p" and "verify_permit q s e False = Inr q"
    and "pit_tag (sp_integrity_tag p) = pit_tag (sp_integrity_tag q)" and "permit_wf p"
  shows "p = q \<or> (\<exists>x y. signing_body p = Inr x \<and> signing_body q = Inr y \<and> hmac_collides (cps_secret s) x y)"
proof -
  from assms(1,2) have m: "mint_integrity_tag p s = Inr (sp_integrity_tag p)" "mint_integrity_tag q s = Inr (sp_integrity_tag q)"
    by (simp_all add: verify_permit_iff)
  from m obtain x y where x: "signing_body p = Inr x" and y: "signing_body q = Inr y"
    by (cases "signing_body p"; cases "signing_body q") (auto simp: mint_integrity_tag_def)
  with m have tags: "sp_integrity_tag p = \<lparr>pit_epoch = cps_epoch s, pit_tag = hmac_sha256 (cps_secret s) x\<rparr>"
    "sp_integrity_tag q = \<lparr>pit_epoch = cps_epoch s, pit_tag = hmac_sha256 (cps_secret s) y\<rparr>"
    by (simp_all add: mint_integrity_tag_def)
  with assms(3) have "x = y \<or> hmac_collides (cps_secret s) x y" by (simp add: hmac_inject)
  moreover have "p = q" if "x = y"
  proof -
    have "canon (permit_body p) = canon (permit_body q)"
      using x y that signing_body_total [OF assms(4)] by (intro encode_inject [of _ x]) (simp_all add: signing_body_def)
    then have "p\<lparr>sp_integrity_tag := void_tag\<rparr> = q\<lparr>sp_integrity_tag := void_tag\<rparr>" by (simp add: permit_body_inject)
    moreover have "sp_integrity_tag p = sp_integrity_tag q" using tags that by simp
    ultimately show ?thesis by (cases p; cases q) simp
  qed
  ultimately show ?thesis using x y by blast
qed

theorem permit_tag_binds_witness:
  "\<exists>t. let p = ex_permit\<lparr>sp_integrity_tag := t\<rparr> in
     verify_permit p ex_secret ex_intent False = Inr p \<and>
     (p = p \<or> (\<exists>x y. signing_body p = Inr x \<and> signing_body p = Inr y \<and> hmac_collides (cps_secret ex_secret) x y))"
proof -
  obtain t where t: "mint_integrity_tag ex_permit ex_secret = Inr t" using ex_mint by blast
  let ?p = "ex_permit\<lparr>sp_integrity_tag := t\<rparr>"
  have v: "verify_permit ?p ex_secret ex_intent False = Inr ?p"
    using t by (simp add: verify_permit_iff mint_integrity_tag_def permit_authorizes_def)
      (simp add: ex_permit_def ex_intent_def ex_binding_def)
  have w: "permit_wf ?p" using ex_permit_wf by (simp add: permit_wf_def)
  from permit_tag_binds [OF v v refl w] v show ?thesis unfolding Let_def by blast
qed

text \<open>
  Freshness puts continuity first. A dispatch is permitted exactly when nothing changed and the deadline
  has not passed, and a snapshot is called stale, the verdict that may be retried without blaming the
  device, exactly when nothing changed and the deadline has passed.
\<close>

theorem freshness_decides:
  "(let unchanged = (\<not> cf_saw_detach_since_snapshot c \<and>
          sas_transport_session_digest s = cf_transport_session_digest c \<and>
          sas_device_facts_digest s = cf_device_facts_digest c \<and>
          sas_provider_facts_digest s = cf_provider_facts_digest c \<and>
          sas_toolchain_facts_digest s = cf_toolchain_facts_digest c \<and>
          sas_artifact_facts_digest s = cf_artifact_facts_digest c);
        v = evaluate_freshness s c
    in (verdict_permits_dispatch v \<longleftrightarrow> unchanged \<and> cf_now_epoch_ms c < sas_freshness_deadline_epoch_ms s) \<and>
       (is_retryable_without_device_blame v \<longleftrightarrow> unchanged \<and> sas_freshness_deadline_epoch_ms s \<le> cf_now_epoch_ms c))"
  by (auto simp: Let_def evaluate_freshness_def verdict_permits_dispatch_def is_retryable_without_device_blame_def)

end
