(* ===== verification/Step_Engine.thy ===== *)
theory Step_Engine
  imports Recovery Authority_Api
begin

text \<open>
  Permit consumption (\<open>arkforge-engine/src/step.rs\<close>): the one path from an authority's permit to an
  effect. \<open>admit_step\<close> checks the permit against the ledger of the durable journal, verifies it and
  makes the intent durable; \<open>begin_dispatch\<close> consumes the admission, \<open>record_receipt\<close> the
  dispatch, \<open>checkpoint\<close> the completed step. Rust moves each token by value; in the model of a whole life a
  token is taken out of the state when it is used. Each operation takes one answer of the operating system for each
  append it makes.
\<close>

section \<open>Tokens and errors\<close>

datatype engine_step_error =
    StepAlreadyConsumed string string
  | StepOutcomeUnknown string
  | IntentAlreadyRecorded string
  | StepVerification permit_verification_error
  | StepJournal durable_error
  | UnusableIdentifier string
  | DuplicateFactKey string

record step_context =
  sc_job_id :: string
  sc_plan_id :: string
  sc_step_id :: string
  sc_attempt_id :: string
  sc_permit_id :: string

record admitted_step =
  ad_permit :: step_permit
  ad_intent_digest :: sha256_digest

record dispatch_in_flight =
  df_context :: step_context
  df_intent_digest :: sha256_digest
  df_dispatch_digest :: sha256_digest

record completed_step =
  cs_context :: step_context
  cs_receipt_digest :: sha256_digest
  cs_receipt_record_digest :: sha256_digest

definition context_from_permit :: "step_permit \<Rightarrow> step_context" where
  "context_from_permit p = \<lparr>sc_job_id = as_str (sp_job_id p), sc_plan_id = as_str (sp_plan_id p),
     sc_step_id = as_str (sp_step_id p), sc_attempt_id = as_str (sp_attempt_id p), sc_permit_id = as_str (sp_permit_id p)\<rparr>"

definition step_identifier :: "string \<Rightarrow> engine_step_error + opaque_id" where
  "step_identifier v = map_err (\<lambda>_. UnusableIdentifier v) (opaque_id_new v)"

definition context_facts :: "step_context \<Rightarrow> engine_step_error + facts" where
  "context_facts c = try_map (\<lambda>(k, v). rbind (step_identifier k) (\<lambda>i. Inr (i, v)))
     [(JOB_ID, sc_job_id c), (PLAN_ID, sc_plan_id c), (STEP_ID, sc_step_id c), (ATTEMPT_ID, sc_attempt_id c),
      (PERMIT_ID, sc_permit_id c)]"

definition context_facts_with_receipt :: "step_context \<Rightarrow> sha256_digest \<Rightarrow> engine_step_error + facts" where
  "context_facts_with_receipt c receipt = rbind (context_facts c) (\<lambda>fs.
     rbind (step_identifier RECEIPT_DIGEST) (\<lambda>i. Inr (fs @ [(i, to_hex receipt)])))"

fun extend_unique :: "string list \<Rightarrow> facts \<Rightarrow> (string \<times> string) list \<Rightarrow> engine_step_error + facts" where
  "extend_unique seen fs [] = Inr fs"
| "extend_unique seen fs ((name, v) # extra) = rbind (step_identifier name) (\<lambda>i.
     if as_str i \<in> set seen then Inl (DuplicateFactKey (as_str i))
     else extend_unique (as_str i # seen) (fs @ [(i, v)]) extra)"

definition extend_unique_facts :: "facts \<Rightarrow> (string \<times> string) list \<Rightarrow> engine_step_error + facts" where
  "extend_unique_facts fs extra = extend_unique (map (\<lambda>(k, v). as_str k) fs) fs extra"

section \<open>The operations\<close>

type_synonym io_answer = "write_answer \<times> string option"

text \<open>\<open>journal.append(kind, now, 1, subject(step_id)?, facts?)?\<close>\<close>

definition write_step ::
  "durable_journal \<Rightarrow> journal_record_kind \<Rightarrow> u64 \<Rightarrow> string \<Rightarrow> engine_step_error + facts \<Rightarrow> io_answer \<Rightarrow>
     (engine_step_error + sha256_digest) \<times> durable_journal" where
  "write_step d kind now step_id facts io =
     (case rbind (step_identifier step_id) (\<lambda>s. rbind facts (\<lambda>fs. Inr (s, fs))) of
        Inl e \<Rightarrow> (Inl e, d)
      | Inr (s, fs) \<Rightarrow> (case durable_append d kind now 1 s fs (fst io) (snd io) of (r, d') \<Rightarrow> (map_err StepJournal r, d')))"

definition admit_step ::
  "durable_journal \<Rightarrow> step_permit \<Rightarrow> controller_pairing_secret \<Rightarrow> dispatch_intent \<Rightarrow> io_answer \<Rightarrow> io_answer \<Rightarrow>
     (engine_step_error + admitted_step) \<times> durable_journal" where
  "admit_step d permit secret intent io1 io2 =
     (let permit_id = as_str (sp_permit_id permit) in
      case ledger_disposition (from_journal (dj_journal d)) permit_id of
        Consumed receipt \<Rightarrow> (Inl (StepAlreadyConsumed permit_id receipt), d)
      | ConsumingOutcomeUnknown \<Rightarrow> (Inl (StepOutcomeUnknown permit_id), d)
      | IntentDurable \<Rightarrow> (Inl (IntentAlreadyRecorded permit_id), d)
      | AcceptedIntentNotDurable \<Rightarrow> (Inl (IntentAlreadyRecorded permit_id), d)
      | Unseen \<Rightarrow>
          (case verify_permit permit secret intent False of
             Inl e \<Rightarrow> (Inl (StepVerification e), d)
           | Inr verified \<Rightarrow>
               let c = context_from_permit verified in
               (case write_step d StepPermitAccepted (dp_now_epoch_ms intent) (sc_step_id c) (context_facts c) io1 of
                  (Inl e, d) \<Rightarrow> (Inl e, d)
                | (Inr _, d) \<Rightarrow>
                    (case write_step d StepIntentRecorded (dp_now_epoch_ms intent) (sc_step_id c) (context_facts c) io2 of
                       (Inl e, d) \<Rightarrow> (Inl e, d)
                     | (Inr digest, d) \<Rightarrow> (Inr \<lparr>ad_permit = verified, ad_intent_digest = digest\<rparr>, d)))))"

definition begin_dispatch_with_facts ::
  "durable_journal \<Rightarrow> admitted_step \<Rightarrow> u64 \<Rightarrow> (string \<times> string) list \<Rightarrow> io_answer \<Rightarrow> io_answer \<Rightarrow>
     (engine_step_error + dispatch_in_flight) \<times> durable_journal" where
  "begin_dispatch_with_facts d step now extra io1 io2 =
     (let c = context_from_permit (ad_permit step) in
      case rbind (context_facts c) (\<lambda>fs. extend_unique_facts fs extra) of
        Inl e \<Rightarrow> (Inl e, d)
      | Inr fs \<Rightarrow>
          (case write_step d PermitConsuming now (sc_step_id c) (Inr fs) io1 of
             (Inl e, d) \<Rightarrow> (Inl e, d)
           | (Inr _, d) \<Rightarrow>
               (case write_step d ExternalDispatchStarted now (sc_step_id c) (Inr fs) io2 of
                  (Inl e, d) \<Rightarrow> (Inl e, d)
                | (Inr digest, d) \<Rightarrow> (Inr \<lparr>df_context = c, df_intent_digest = ad_intent_digest step,
                    df_dispatch_digest = digest\<rparr>, d))))"

definition begin_dispatch ::
  "durable_journal \<Rightarrow> admitted_step \<Rightarrow> u64 \<Rightarrow> io_answer \<Rightarrow> io_answer \<Rightarrow>
     (engine_step_error + dispatch_in_flight) \<times> durable_journal" where
  "begin_dispatch d step now io1 io2 = begin_dispatch_with_facts d step now [] io1 io2"

definition record_transport_evidence ::
  "durable_journal \<Rightarrow> dispatch_in_flight \<Rightarrow> u64 \<Rightarrow> (string \<times> string) list \<Rightarrow> io_answer \<Rightarrow>
     (engine_step_error + unit) \<times> durable_journal" where
  "record_transport_evidence d flight now facts io =
     (let c = df_context flight in
      case rbind (context_facts c) (\<lambda>fs. extend_unique_facts fs facts) of
        Inl e \<Rightarrow> (Inl e, d)
      | Inr entries \<Rightarrow>
          (case write_step d TransportEvidenceRecorded now (sc_step_id c) (Inr entries) io of
             (Inl e, d) \<Rightarrow> (Inl e, d)
           | (Inr _, d) \<Rightarrow> (Inr (), d)))"

definition record_receipt_with_facts ::
  "durable_journal \<Rightarrow> dispatch_in_flight \<Rightarrow> sha256_digest \<Rightarrow> (string \<times> string) list \<Rightarrow> u64 \<Rightarrow> io_answer \<Rightarrow> io_answer \<Rightarrow>
     (engine_step_error + completed_step) \<times> durable_journal" where
  "record_receipt_with_facts d flight receipt extra now io1 io2 =
     (let c = df_context flight in
      case rbind (context_facts_with_receipt c receipt) (\<lambda>fs. extend_unique_facts fs extra) of
        Inl e \<Rightarrow> (Inl e, d)
      | Inr semantic_facts \<Rightarrow>
          (case write_step d SemanticReceiptRecorded now (sc_step_id c) (Inr semantic_facts) io1 of
             (Inl e, d) \<Rightarrow> (Inl e, d)
           | (Inr record_digest, d) \<Rightarrow>
               (case write_step d PermitConsumed now (sc_step_id c) (context_facts_with_receipt c receipt) io2 of
                  (Inl e, d) \<Rightarrow> (Inl e, d)
                | (Inr _, d) \<Rightarrow> (Inr \<lparr>cs_context = c, cs_receipt_digest = receipt,
                    cs_receipt_record_digest = record_digest\<rparr>, d))))"

definition record_receipt ::
  "durable_journal \<Rightarrow> dispatch_in_flight \<Rightarrow> sha256_digest \<Rightarrow> u64 \<Rightarrow> io_answer \<Rightarrow> io_answer \<Rightarrow>
     (engine_step_error + completed_step) \<times> durable_journal" where
  "record_receipt d flight receipt now io1 io2 = record_receipt_with_facts d flight receipt [] now io1 io2"

definition step_checkpoint ::
  "durable_journal \<Rightarrow> completed_step \<Rightarrow> u64 \<Rightarrow> io_answer \<Rightarrow> (engine_step_error + sha256_digest) \<times> durable_journal" where
  "step_checkpoint d completed now io =
     (let c = cs_context completed in
      write_step d StepCheckpointed now (sc_step_id c) (context_facts_with_receipt c (cs_receipt_digest completed)) io)"

section \<open>Facts of a step\<close>

lemma key_ids:
  "opaque_id_new JOB_ID = Inr (OpaqueId JOB_ID)" "opaque_id_new PLAN_ID = Inr (OpaqueId PLAN_ID)"
  "opaque_id_new STEP_ID = Inr (OpaqueId STEP_ID)" "opaque_id_new ATTEMPT_ID = Inr (OpaqueId ATTEMPT_ID)"
  "opaque_id_new PERMIT_ID = Inr (OpaqueId PERMIT_ID)" "opaque_id_new RECEIPT_DIGEST = Inr (OpaqueId RECEIPT_DIGEST)"
  by (simp_all add: opaque_id_new_iff JOB_ID_def PLAN_ID_def STEP_ID_def ATTEMPT_ID_def PERMIT_ID_def RECEIPT_DIGEST_def
      MAX_ID_LEN_def id_char_defs)

lemma key_names [simp]:
  "JOB_ID \<noteq> PERMIT_ID" "PLAN_ID \<noteq> PERMIT_ID" "STEP_ID \<noteq> PERMIT_ID" "ATTEMPT_ID \<noteq> PERMIT_ID" "PERMIT_ID \<noteq> RECEIPT_DIGEST"
  by (simp_all add: JOB_ID_def PLAN_ID_def STEP_ID_def ATTEMPT_ID_def PERMIT_ID_def RECEIPT_DIGEST_def)

definition base_facts :: "step_context \<Rightarrow> facts" where
  "base_facts c = [(OpaqueId JOB_ID, sc_job_id c), (OpaqueId PLAN_ID, sc_plan_id c), (OpaqueId STEP_ID, sc_step_id c),
     (OpaqueId ATTEMPT_ID, sc_attempt_id c), (OpaqueId PERMIT_ID, sc_permit_id c)]"

lemma context_facts_eq: "context_facts c = Inr (base_facts c)"
  by (simp add: context_facts_def base_facts_def step_identifier_def key_ids)

lemma context_receipt_eq:
  "context_facts_with_receipt c receipt = Inr (base_facts c @ [(OpaqueId RECEIPT_DIGEST, to_hex receipt)])"
  by (simp add: context_facts_with_receipt_def context_facts_eq step_identifier_def key_ids)

lemma fact_value_base [simp]: "fact_value (base_facts c @ fs) PERMIT_ID = Some (sc_permit_id c)"
  by (simp add: fact_value_def base_facts_def)

lemma extend_unique_Inr:
  assumes "extend_unique seen fs extra = Inr gs"
  shows "\<exists>xs. gs = fs @ xs \<and> map snd xs = map snd extra \<and> list_all (\<lambda>(k, v). id_wf k) xs \<and>
    distinct (map (\<lambda>(k, v). as_str k) xs) \<and> set seen \<inter> set (map (\<lambda>(k, v). as_str k) xs) = {}"
  using assms
proof (induction seen fs extra rule: extend_unique.induct)
  case (2 seen fs name v extra)
  from "2.prems" obtain i where i: "opaque_id_new name = Inr i" "as_str i \<notin> set seen"
    "extend_unique (as_str i # seen) (fs @ [(i, v)]) extra = Inr gs"
    by (auto simp: step_identifier_def split: if_splits)
  from "2.IH" [of i] i obtain xs where "gs = (fs @ [(i, v)]) @ xs" "map snd xs = map snd extra"
    "list_all (\<lambda>(k, v). id_wf k) xs" "distinct (map (\<lambda>(k, v). as_str k) xs)"
    "set (as_str i # seen) \<inter> set (map (\<lambda>(k, v). as_str k) xs) = {}"
    by (auto simp: step_identifier_def)
  with i opaque_id_new_wf [OF i(1)] show ?case by (intro exI [of _ "(i, v) # xs"]) auto
qed simp

definition extra_wf :: "(string \<times> string) list \<Rightarrow> bool" where
  "extra_wf extra \<longleftrightarrow> list_all (\<lambda>(k, v). string_wf v) extra"

definition context_wf :: "step_context \<Rightarrow> bool" where
  "context_wf c \<longleftrightarrow> list_all string_wf [sc_job_id c, sc_plan_id c, sc_step_id c, sc_attempt_id c, sc_permit_id c]"

lemma key_ids_wf: "id_wf (OpaqueId JOB_ID)" "id_wf (OpaqueId PLAN_ID)" "id_wf (OpaqueId STEP_ID)"
  "id_wf (OpaqueId ATTEMPT_ID)" "id_wf (OpaqueId PERMIT_ID)" "id_wf (OpaqueId RECEIPT_DIGEST)"
  using key_ids by (simp_all add: id_wf_def)

lemma hex_bytes_ascii: "list_all (\<lambda>c. byte_of_char c < 0x80) (hex_bytes bs)"
proof -
  have "byte_of_char (hex_nibble v) < 0x80" if "v < 16" for v
    using that by (simp add: hex_nibble_def) unat_arith
  then show ?thesis by (induction bs) (simp_all add: nibble_high_lt nibble_low_lt)
qed

lemma to_hex_wf: "string_wf (to_hex d)"
  by (simp add: to_hex_def ascii_string_wf hex_bytes_ascii)

lemma base_facts_wf: "context_wf c \<Longrightarrow> facts_wf (base_facts c)"
  by (simp add: context_wf_def facts_wf_def base_facts_def key_ids_wf)

lemma extend_wf:
  assumes "extend_unique_facts fs extra = Inr gs" and "facts_wf fs" and "extra_wf extra"
  shows "facts_wf gs \<and> (\<exists>xs. gs = fs @ xs)"
proof -
  from extend_unique_Inr [OF assms(1) [unfolded extend_unique_facts_def]] obtain xs where
    xs: "gs = fs @ xs" "map snd xs = map snd extra" "list_all (\<lambda>(k, v). id_wf k) xs" by blast
  have "\<forall>v \<in> set (map snd xs). string_wf v" using assms(3) unfolding xs(2) by (auto simp: extra_wf_def list_all_iff)
  then have "facts_wf xs" using xs(3) by (fastforce simp: facts_wf_def list_all_iff)
  with xs(1) assms(2) show ?thesis by (auto simp: facts_wf_def)
qed

section \<open>What the operations do to the journal\<close>

definition grows :: "durable_journal \<Rightarrow> durable_journal \<Rightarrow> bool" where
  "grows d e \<longleftrightarrow> dj_inv e \<and> prefix (dj_journal d) (dj_journal e) \<and>
     prefix (stable_records (dj_file d) (dj_journal d)) (stable_records (dj_file e) (dj_journal e))"

lemma grows_refl: "dj_inv d \<Longrightarrow> grows d d"
  by (simp add: grows_def)

lemma grows_trans: "grows d e \<Longrightarrow> grows e f \<Longrightarrow> grows d f"
  unfolding grows_def using prefix_order.trans by blast

lemma grows_inv: "grows d e \<Longrightarrow> dj_inv e"
  by (simp add: grows_def)

lemma append_grows:
  assumes "durable_append d kind now revision subject facts w s = (res, d')" and "dj_inv d" and "id_wf subject" and "facts_wf facts"
  shows "grows d d'"
proof -
  have "prefix (dj_journal d) (dj_journal d')" using assms by (cases rule: append_cases) auto
  with append_inv [OF assms] show ?thesis by (simp add: grows_def)
qed

lemma write_step_grows:
  assumes "write_step d kind now step_id facts io = (res, d')" and "dj_inv d" and "\<And>fs. facts = Inr fs \<Longrightarrow> facts_wf fs"
  shows "grows d d'"
proof (cases "rbind (step_identifier step_id) (\<lambda>s. rbind facts (\<lambda>fs. Inr (s, fs)))")
  case (Inl e)
  with assms(1) have "d' = d" by (simp add: write_step_def)
  with assms(2) grows_refl show ?thesis by simp
next
  case (Inr p)
  then obtain s fs where p: "p = (s, fs)" "step_identifier step_id = Inr s" "facts = Inr fs" by auto
  then have "id_wf s" using opaque_id_new_wf by (auto simp: step_identifier_def)
  then show ?thesis
    using assms Inr p append_grows [of d kind now 1 s fs "fst io" "snd io" _ d']
    by (auto simp: write_step_def split: prod.splits)
qed

lemma write_step_Inr:
  assumes "write_step d kind now step_id (Inr fs) io = (Inr h, d')" and "dj_inv d" and "facts_wf fs"
  obtains r where "dj_journal d' = dj_journal d @ [r]" "jr_kind r = kind" "jr_facts r = fs"
    "kind_fsync_policy kind = Durable \<Longrightarrow> stable_records (dj_file d') (dj_journal d') = dj_journal d'"
proof -
  from assms(1) obtain s where s: "step_identifier step_id = Inr s"
    "durable_append d kind now 1 s fs (fst io) (snd io) = (Inr h, d')"
    by (cases "step_identifier step_id") (auto simp: write_step_def split: prod.splits)
  from s(1) have "id_wf s" using opaque_id_new_wf by (auto simp: step_identifier_def)
  from durable_append_Inr [OF s(2) assms(2) this assms(3)] that show thesis by metis
qed

lemma context_permit_wf: "permit_wf p \<Longrightarrow> context_wf (context_from_permit p)"
  by (simp add: permit_wf_def context_wf_def context_from_permit_def id_wf_string)

lemma context_permit_id [simp]: "sc_permit_id (context_from_permit p) = as_str (sp_permit_id p)"
  by (simp add: context_from_permit_def)

lemma admit_grows:
  assumes "admit_step d permit secret intent io1 io2 = (res, d')" and "dj_inv d" and "permit_wf permit"
  shows "grows d d'"
proof -
  have w: "facts_wf fs" if "context_facts (context_from_permit permit) = Inr fs" for fs
    using that base_facts_wf [OF context_permit_wf [OF assms(3)]] by (simp add: context_facts_eq)
  show ?thesis
    using assms(1,2) grows_refl
    by (auto simp: admit_step_def Let_def verify_permit_iff dest!: write_step_grows [OF _ _ w] dest: grows_inv intro: grows_trans
        split: permit_disposition.splits sum.splits prod.splits)
qed

lemma admit_Inr:
  assumes "admit_step d permit secret intent io1 io2 = (Inr a, d')" and "dj_inv d" and "permit_wf permit"
  shows "permit_state (as_str (sp_permit_id permit)) (dj_journal d) = Unseen"
    and "ad_permit a = permit" and "verify_permit permit secret intent False = Inr permit"
    and "permit_state (as_str (sp_permit_id permit)) (dj_journal d') = IntentDurable"
proof -
  let ?c = "context_from_permit permit" and ?p = "as_str (sp_permit_id permit)"
  have w: "facts_wf (base_facts ?c)" by (rule base_facts_wf [OF context_permit_wf [OF assms(3)]])
  from assms(1) show u: "permit_state ?p (dj_journal d) = Unseen"
    by (auto simp: admit_step_def Let_def from_journal_def ledger_is_permit_state split: permit_disposition.splits)
  from assms(1) u obtain v where "verify_permit permit secret intent False = Inr v"
    by (cases "verify_permit permit secret intent False")
      (auto simp: admit_step_def Let_def from_journal_def ledger_is_permit_state)
  then show v: "verify_permit permit secret intent False = Inr permit" by (simp add: verify_permit_iff)
  obtain x d1 y where d1: "write_step d StepPermitAccepted (dp_now_epoch_ms intent) (sc_step_id ?c) (Inr (base_facts ?c)) io1 = (Inr x, d1)"
    and d2: "write_step d1 StepIntentRecorded (dp_now_epoch_ms intent) (sc_step_id ?c) (Inr (base_facts ?c)) io2 = (Inr y, d')"
    and a: "a = \<lparr>ad_permit = permit, ad_intent_digest = y\<rparr>"
    using assms(1) u v
    by (auto simp: admit_step_def Let_def from_journal_def ledger_is_permit_state context_facts_eq split: sum.splits prod.splits)
  show "ad_permit a = permit" using a by simp
  from write_step_Inr [OF d1 assms(2) w] obtain r1 where r1: "dj_journal d1 = dj_journal d @ [r1]"
    "jr_kind r1 = StepPermitAccepted" "jr_facts r1 = base_facts ?c" by metis
  have "dj_inv d1" using write_step_grows [OF d1 assms(2)] w by (simp add: grows_def)
  from write_step_Inr [OF d2 this w] obtain r2 where r2: "dj_journal d' = dj_journal d1 @ [r2]"
    "jr_kind r2 = StepIntentRecorded" "jr_facts r2 = base_facts ?c" by metis
  have m: "mentions ?p r1" "mentions ?p r2" using r1 r2 fact_value_base [of ?c "[]"] by (simp_all add: mentions_def)
  have "permit_state ?p (dj_journal d1) = AcceptedIntentNotDurable"
    using r1 u m(1) by (simp add: permit_step_def ledger_entry_def)
  then show "permit_state ?p (dj_journal d') = IntentDurable"
    using r2 m(2) by (simp add: permit_step_def ledger_entry_def)
qed

lemma receipt_facts_wf: "context_wf c \<Longrightarrow> facts_wf (base_facts c @ [(OpaqueId RECEIPT_DIGEST, to_hex receipt)])"
  using base_facts_wf by (simp add: facts_wf_def key_ids_wf to_hex_wf)

lemma step_facts_wf:
  assumes "context_wf c" and "extra_wf extra"
  shows "extend_unique_facts (base_facts c) extra = Inr gs \<Longrightarrow> facts_wf gs \<and> (\<exists>xs. gs = base_facts c @ xs)"
    and "extend_unique_facts (base_facts c @ [(OpaqueId RECEIPT_DIGEST, to_hex receipt)]) extra = Inr gs \<Longrightarrow>
      facts_wf gs \<and> (\<exists>xs. gs = (base_facts c @ [(OpaqueId RECEIPT_DIGEST, to_hex receipt)]) @ xs)"
  using extend_wf [OF _ base_facts_wf [OF assms(1)] assms(2)] extend_wf [OF _ receipt_facts_wf [OF assms(1)] assms(2)]
  by blast+

text \<open>Every operation is at most two writes in a row.\<close>

lemma write_grows:
  "write_step d k now s (Inr fs) io = (res, d') \<Longrightarrow> dj_inv d \<Longrightarrow> facts_wf fs \<Longrightarrow> grows d d'"
  by (erule write_step_grows) simp_all

lemma two_writes_grow:
  assumes "(case write_step d k now s (Inr fs) io of (Inl e, d) \<Rightarrow> (Inl e, d)
      | (Inr x, d) \<Rightarrow> (case write_step d l now s (Inr gs) io' of (Inl e, d) \<Rightarrow> (Inl e, d) | (Inr y, d) \<Rightarrow> (Inr (g x y), d))) = (res, d')"
    and "dj_inv d" and "facts_wf fs" and "facts_wf gs"
  shows "grows d d'"
proof -
  obtain r1 d1 where w1: "write_step d k now s (Inr fs) io = (r1, d1)" by fastforce
  obtain r2 d2 where w2: "write_step d1 l now s (Inr gs) io' = (r2, d2)" by fastforce
  have g1: "grows d d1" by (rule write_grows [OF w1 assms(2,3)])
  have g2: "grows d1 d2" by (rule write_grows [OF w2 grows_inv [OF g1] assms(4)])
  have "d' = d1 \<or> d' = d2" using assms(1) w1 w2 by (cases r1; cases r2) simp_all
  with g1 g2 grows_trans show ?thesis by blast
qed

lemma dispatch_grows:
  assumes "begin_dispatch_with_facts d a now extra io1 io2 = (res, d')" and "dj_inv d" and "permit_wf (ad_permit a)" and "extra_wf extra"
  shows "grows d d'"
proof (cases "extend_unique_facts (base_facts (context_from_permit (ad_permit a))) extra")
  case (Inl e)
  then show ?thesis
    using assms(1) grows_refl [OF assms(2)] unfolding begin_dispatch_with_facts_def Let_def context_facts_eq by simp
next
  case (Inr gs)
  then have "facts_wf gs" using step_facts_wf(1) [OF context_permit_wf [OF assms(3)] assms(4)] by blast
  then show ?thesis
    using assms(1) Inr unfolding begin_dispatch_with_facts_def Let_def context_facts_eq
    by (auto elim!: two_writes_grow [OF _ assms(2)])
qed

lemma evidence_grows:
  assumes "record_transport_evidence d f now extra io = (res, d')" and "dj_inv d" and "context_wf (df_context f)" and "extra_wf extra"
  shows "grows d d'"
proof (cases "extend_unique_facts (base_facts (df_context f)) extra")
  case (Inl e)
  then show ?thesis
    using assms(1) grows_refl [OF assms(2)] unfolding record_transport_evidence_def Let_def context_facts_eq
    by (auto simp: write_step_def split: sum.splits)
next
  case (Inr gs)
  then have "facts_wf gs" using step_facts_wf(1) [OF assms(3,4)] by blast
  then show ?thesis
    using assms(1) Inr unfolding record_transport_evidence_def Let_def context_facts_eq
    by (auto elim!: write_grows [OF _ assms(2)] split: prod.splits sum.splits)
qed

lemma receipt_grows:
  assumes "record_receipt_with_facts d f receipt extra now io1 io2 = (res, d')" and "dj_inv d" and "context_wf (df_context f)" and "extra_wf extra"
  shows "grows d d'"
proof (cases "extend_unique_facts (base_facts (df_context f) @ [(OpaqueId RECEIPT_DIGEST, to_hex receipt)]) extra")
  case (Inl e)
  then show ?thesis
    using assms(1) grows_refl [OF assms(2)] unfolding record_receipt_with_facts_def Let_def context_receipt_eq by simp
next
  case (Inr gs)
  then have "facts_wf gs" using step_facts_wf(2) [OF assms(3,4)] by blast
  then show ?thesis
    using assms(1) Inr receipt_facts_wf [OF assms(3)] unfolding record_receipt_with_facts_def Let_def context_receipt_eq
    by (auto elim!: two_writes_grow [OF _ assms(2)])
qed

lemma checkpoint_grows:
  assumes "step_checkpoint d c now io = (res, d')" and "dj_inv d" and "context_wf (cs_context c)"
  shows "grows d d'"
  using write_step_grows [OF assms(1) [unfolded step_checkpoint_def Let_def context_receipt_eq] assms(2)]
    receipt_facts_wf [OF assms(3)] by simp

lemma dispatch_Inr:
  assumes "begin_dispatch_with_facts d a now extra io1 io2 = (Inr f, d')" and "dj_inv d" and "permit_wf (ad_permit a)" and "extra_wf extra"
  shows "3 \<le> disposition_rank (permit_state (as_str (sp_permit_id (ad_permit a))) (stable_records (dj_file d') (dj_journal d')))"
    and "df_context f = context_from_permit (ad_permit a)"
proof -
  let ?c = "context_from_permit (ad_permit a)" and ?p = "as_str (sp_permit_id (ad_permit a))"
  obtain fs where fs: "extend_unique_facts (base_facts ?c) extra = Inr fs"
    using assms(1) by (cases "extend_unique_facts (base_facts ?c) extra")
      (simp_all add: begin_dispatch_with_facts_def Let_def context_facts_eq)
  from step_facts_wf(1) [OF context_permit_wf [OF assms(3)] assms(4) fs] obtain xs where
    w: "facts_wf fs" "fs = base_facts ?c @ xs" by blast
  obtain x d1 y where d1: "write_step d PermitConsuming now (sc_step_id ?c) (Inr fs) io1 = (Inr x, d1)"
    and d2: "write_step d1 ExternalDispatchStarted now (sc_step_id ?c) (Inr fs) io2 = (Inr y, d')"
    and f: "df_context f = ?c"
    using assms(1) fs by (auto simp: begin_dispatch_with_facts_def Let_def context_facts_eq split: sum.splits prod.splits)
  have "dj_inv d1" using write_step_grows [OF d1 assms(2)] w by (simp add: grows_def)
  from write_step_Inr [OF d2 this w(1)] obtain r where r: "dj_journal d' = dj_journal d1 @ [r]"
    "jr_kind r = ExternalDispatchStarted" "jr_facts r = fs" "stable_records (dj_file d') (dj_journal d') = dj_journal d'"
    by (metis kind_fsync_policy.simps(12))
  have "mentions ?p r" using r(3) w(2) by (simp add: mentions_def)
  then have "permit_state ?p (dj_journal d') = ledger_entry ExternalDispatchStarted fs (permit_state ?p (dj_journal d1))"
    using r by (simp add: permit_step_def)
  then show "3 \<le> disposition_rank (permit_state ?p (stable_records (dj_file d') (dj_journal d')))"
    using r(4) by (cases "permit_state ?p (dj_journal d1)") (simp_all add: ledger_entry_def)
  show "df_context f = ?c" by (rule f)
qed

section \<open>Lives of an engine\<close>

text \<open>
  The journal, the tokens in memory, and every permit under which an external dispatch was begun, over all lives of
  the journal. A crash loses the tokens. Other parts of the daemon append records of their own, of any kind.
\<close>

record engine_world =
  ew_life :: journal_life
  ew_admitted :: "admitted_step list"
  ew_in_flight :: "dispatch_in_flight list"
  ew_completed :: "completed_step list"
  ew_dispatched :: "step_permit list"

inductive engine_start :: "engine_world \<Rightarrow> bool" where
  "journal_start x \<Longrightarrow> engine_start \<lparr>ew_life = x, ew_admitted = [], ew_in_flight = [], ew_completed = [], ew_dispatched = []\<rparr>"

inductive engine_event :: "engine_world \<Rightarrow> engine_world \<Rightarrow> bool" where
  ev_admit: "ew_life w = Running d \<Longrightarrow> permit_wf permit \<Longrightarrow> admit_step d permit secret intent io1 io2 = (Inr a, d') \<Longrightarrow>
    engine_event w (w\<lparr>ew_life := Running d', ew_admitted := a # ew_admitted w\<rparr>)"
| ev_admit_failed: "ew_life w = Running d \<Longrightarrow> permit_wf permit \<Longrightarrow> admit_step d permit secret intent io1 io2 = (Inl e, d') \<Longrightarrow>
    engine_event w (w\<lparr>ew_life := Running d'\<rparr>)"
| ev_dispatch: "ew_life w = Running d \<Longrightarrow> a \<in> set (ew_admitted w) \<Longrightarrow> extra_wf extra \<Longrightarrow>
    begin_dispatch_with_facts d a now extra io1 io2 = (Inr f, d') \<Longrightarrow>
    engine_event w (w\<lparr>ew_life := Running d', ew_admitted := remove1 a (ew_admitted w),
      ew_in_flight := f # ew_in_flight w, ew_dispatched := ad_permit a # ew_dispatched w\<rparr>)"
| ev_dispatch_failed: "ew_life w = Running d \<Longrightarrow> a \<in> set (ew_admitted w) \<Longrightarrow> extra_wf extra \<Longrightarrow>
    begin_dispatch_with_facts d a now extra io1 io2 = (Inl e, d') \<Longrightarrow>
    engine_event w (w\<lparr>ew_life := Running d', ew_admitted := remove1 a (ew_admitted w)\<rparr>)"
| ev_evidence: "ew_life w = Running d \<Longrightarrow> f \<in> set (ew_in_flight w) \<Longrightarrow> extra_wf extra \<Longrightarrow>
    record_transport_evidence d f now extra io = (res, d') \<Longrightarrow> engine_event w (w\<lparr>ew_life := Running d'\<rparr>)"
| ev_receipt: "ew_life w = Running d \<Longrightarrow> f \<in> set (ew_in_flight w) \<Longrightarrow> extra_wf extra \<Longrightarrow>
    record_receipt_with_facts d f receipt extra now io1 io2 = (Inr c, d') \<Longrightarrow>
    engine_event w (w\<lparr>ew_life := Running d', ew_in_flight := remove1 f (ew_in_flight w), ew_completed := c # ew_completed w\<rparr>)"
| ev_receipt_failed: "ew_life w = Running d \<Longrightarrow> f \<in> set (ew_in_flight w) \<Longrightarrow> extra_wf extra \<Longrightarrow>
    record_receipt_with_facts d f receipt extra now io1 io2 = (Inl e, d') \<Longrightarrow>
    engine_event w (w\<lparr>ew_life := Running d', ew_in_flight := remove1 f (ew_in_flight w)\<rparr>)"
| ev_checkpoint: "ew_life w = Running d \<Longrightarrow> c \<in> set (ew_completed w) \<Longrightarrow> step_checkpoint d c now io = (res, d') \<Longrightarrow>
    engine_event w (w\<lparr>ew_life := Running d', ew_completed := remove1 c (ew_completed w)\<rparr>)"
| ev_other: "ew_life w = Running d \<Longrightarrow> id_wf subject \<Longrightarrow> facts_wf facts \<Longrightarrow>
    durable_append d kind now revision subject facts wa s = (res, d') \<Longrightarrow> engine_event w (w\<lparr>ew_life := Running d'\<rparr>)"
| ev_sync: "ew_life w = Running d \<Longrightarrow> durable_sync d s = (res, d') \<Longrightarrow> engine_event w (w\<lparr>ew_life := Running d'\<rparr>)"
| ev_crash: "ew_life w = Running d \<Longrightarrow> crash_file (dj_file d) f \<Longrightarrow>
    engine_event w (w\<lparr>ew_life := Down f, ew_admitted := [], ew_in_flight := [], ew_completed := []\<rparr>)"
| ev_reopen: "ew_life w = Down f \<Longrightarrow> durable_open io parent path (Some f) = Inr (d, report) \<Longrightarrow>
    engine_event w (w\<lparr>ew_life := Running d\<rparr>)"

interpretation engine_lives: transition_system engine_start engine_event .

abbreviation permit_key :: "step_permit \<Rightarrow> string" where
  "permit_key p \<equiv> as_str (sp_permit_id p)"

definition dispatched_kept :: "journal_life \<Rightarrow> step_permit list \<Rightarrow> bool" where
  "dispatched_kept x ps \<longleftrightarrow> (\<exists>k. kept_records x k \<and> (\<forall>p \<in> set ps. 3 \<le> disposition_rank (permit_state (permit_key p) k)))"

definition admitted_seen :: "journal_life \<Rightarrow> admitted_step list \<Rightarrow> bool" where
  "admitted_seen x as \<longleftrightarrow> (\<forall>a \<in> set as. \<exists>d. x = Running d \<and>
     2 \<le> disposition_rank (permit_state (permit_key (ad_permit a)) (dj_journal d)))"

definition permit_verified :: "step_permit \<Rightarrow> bool" where
  "permit_verified p \<longleftrightarrow> permit_wf p \<and> (\<exists>secret intent. verify_permit p secret intent False = Inr p)"

definition engine_inv :: "engine_world \<Rightarrow> bool" where
  "engine_inv w \<longleftrightarrow> dispatched_kept (ew_life w) (ew_dispatched w) \<and> admitted_seen (ew_life w) (ew_admitted w) \<and>
     distinct (map permit_key (map ad_permit (ew_admitted w) @ ew_dispatched w)) \<and>
     (\<forall>p \<in> set (map ad_permit (ew_admitted w) @ ew_dispatched w). permit_verified p) \<and>
     (\<forall>f \<in> set (ew_in_flight w). context_wf (df_context f)) \<and> (\<forall>c \<in> set (ew_completed w). context_wf (cs_context c))"

lemma kept_rank:
  assumes "kept_records (Running d) k"
  shows "disposition_rank (permit_state p k) \<le> disposition_rank (permit_state p (dj_journal d))"
proof -
  have "\<forall>r \<in> set (dj_journal d). storable r" using assms by (auto simp: dj_inv_def file_holds_def)
  moreover have "prefix k (map record_norm (dj_journal d))"
    using assms prefix_order.trans [OF _ map_mono_prefix [OF stable_prefix_prefix]] by (auto simp: stable_records_def)
  ultimately show ?thesis using permit_state_prefix permit_state_norm by metis
qed

lemma dispatched_kept_inv: "dispatched_kept (Running d) ps \<Longrightarrow> dj_inv d"
  by (auto simp: dispatched_kept_def)

lemma engine_inv_journal: "engine_inv w \<Longrightarrow> ew_life w = Running d \<Longrightarrow> dj_inv d"
  using dispatched_kept_inv by (auto simp: engine_inv_def)

lemma engine_inv_contexts:
  "engine_inv w \<Longrightarrow> f \<in> set (ew_in_flight w) \<Longrightarrow> context_wf (df_context f)"
  "engine_inv w \<Longrightarrow> c \<in> set (ew_completed w) \<Longrightarrow> context_wf (cs_context c)"
  by (simp_all add: engine_inv_def)

lemma dispatched_kept_event: "dispatched_kept x ps \<Longrightarrow> journal_event x y \<Longrightarrow> dispatched_kept y ps"
  unfolding dispatched_kept_def using kept_step by blast

lemma dispatched_kept_grows: "dispatched_kept (Running d) ps \<Longrightarrow> grows d d' \<Longrightarrow> dispatched_kept (Running d') ps"
  unfolding dispatched_kept_def grows_def using map_mono_prefix prefix_order.trans by (metis kept_records.simps(1))

lemma admitted_seen_grows:
  "admitted_seen (Running d) as \<Longrightarrow> prefix (dj_journal d) (dj_journal d') \<Longrightarrow> admitted_seen (Running d') as"
  unfolding admitted_seen_def using permit_state_prefix order_trans by (metis journal_life.inject(1))

lemma dispatched_seen:
  "dispatched_kept (Running d) ps \<Longrightarrow> p \<in> set ps \<Longrightarrow> 3 \<le> disposition_rank (permit_state (permit_key p) (dj_journal d))"
  unfolding dispatched_kept_def using kept_rank order_trans by blast

text \<open>A dispatch has put the permit into the stable part of the journal before it returns.\<close>

lemma dispatched_kept_dispatch:
  assumes "begin_dispatch_with_facts d a now extra io1 io2 = (Inr f, d')" and "permit_wf (ad_permit a)" and "extra_wf extra"
    and "dispatched_kept (Running d) ps"
  shows "dispatched_kept (Running d') (ad_permit a # ps)"
proof -
  have inv: "dj_inv d" by (rule dispatched_kept_inv [OF assms(4)])
  have g: "grows d d'" by (rule dispatch_grows [OF assms(1) inv assms(2,3)])
  let ?s = "stable_records (dj_file d') (dj_journal d')"
  have st: "\<forall>r \<in> set ?s. storable r"
    using grows_inv [OF g] set_mono_prefix [OF stable_prefix_prefix]
    by (fastforce simp: dj_inv_def file_holds_def stable_records_def)
  obtain k where k: "kept_records (Running d') k" "\<forall>p \<in> set ps. 3 \<le> disposition_rank (permit_state (permit_key p) k)"
    using dispatched_kept_grows [OF assms(4) g] by (auto simp: dispatched_kept_def)
  have "disposition_rank (permit_state p k) \<le> disposition_rank (permit_state p (map record_norm ?s))" for p
    using k(1) permit_state_prefix by simp
  then have "\<forall>p \<in> set ps. 3 \<le> disposition_rank (permit_state (permit_key p) (map record_norm ?s))"
    using k(2) order_trans by blast
  moreover have "3 \<le> disposition_rank (permit_state (permit_key (ad_permit a)) (map record_norm ?s))"
    using dispatch_Inr(1) [OF assms(1) inv assms(2,3)] permit_state_norm [OF st] by simp
  ultimately show ?thesis
    using grows_inv [OF g] unfolding dispatched_kept_def by (intro exI [of _ "map record_norm ?s"]) simp
qed

lemma remove_admitted:
  assumes "a \<in> set as" and "distinct (map permit_key (map ad_permit as @ ps))"
  shows "distinct (map permit_key (map ad_permit (remove1 a as) @ ad_permit a # ps))"
proof -
  have "mset (map permit_key (map ad_permit (remove1 a as) @ ad_permit a # ps)) = mset (map permit_key (map ad_permit as @ ps))"
    using assms(1) by (simp add: image_mset_Diff)
  then show ?thesis using assms(2) distinct_count_atmost_1 by (metis mset_eq_imp_distinct_iff)
qed

lemma engine_inv_quiet:
  assumes "engine_inv w" and "ew_life w = Running d" and "grows d d'"
  shows "engine_inv (w\<lparr>ew_life := Running d'\<rparr>)"
  using assms dispatched_kept_grows admitted_seen_grows by (auto simp: engine_inv_def grows_def)

lemma engine_inv_admit:
  assumes "engine_inv w" and "ew_life w = Running d" and "permit_wf permit" and "admit_step d permit secret intent io1 io2 = (Inr a, d')"
  shows "engine_inv (w\<lparr>ew_life := Running d', ew_admitted := a # ew_admitted w\<rparr>)"
proof -
  have inv: "dj_inv d" by (rule engine_inv_journal [OF assms(1,2)])
  note a = admit_Inr [OF assms(4) inv assms(3)]
  have "engine_inv (w\<lparr>ew_life := Running d'\<rparr>)" by (rule engine_inv_quiet [OF assms(1,2) admit_grows [OF assms(4) inv assms(3)]])
  moreover have "permit_key permit \<noteq> permit_key p" if p: "p \<in> set (ew_dispatched w)" for p
  proof -
    have "dispatched_kept (Running d) (ew_dispatched w)" using assms(1,2) by (simp add: engine_inv_def)
    from dispatched_seen [OF this p] a(1) show ?thesis by auto
  qed
  moreover have "permit_key permit \<noteq> permit_key (ad_permit b)" if b: "b \<in> set (ew_admitted w)" for b
  proof -
    have "admitted_seen (Running d) (ew_admitted w)" using assms(1,2) by (simp add: engine_inv_def)
    then have "2 \<le> disposition_rank (permit_state (permit_key (ad_permit b)) (dj_journal d))"
      using b by (auto simp: admitted_seen_def)
    with a(1) show ?thesis by auto
  qed
  moreover have "permit_verified permit" using assms(3) a(3) by (auto simp: permit_verified_def)
  ultimately show ?thesis using a(2,4) by (auto simp: engine_inv_def admitted_seen_def)
qed

lemma engine_inv_dispatch:
  assumes "engine_inv w" and "ew_life w = Running d" and "a \<in> set (ew_admitted w)" and "extra_wf extra"
    and "begin_dispatch_with_facts d a now extra io1 io2 = (res, d')"
  shows "engine_inv (w\<lparr>ew_life := Running d', ew_admitted := remove1 a (ew_admitted w)\<rparr>)"
    and "res = Inr f \<Longrightarrow> engine_inv (w\<lparr>ew_life := Running d', ew_admitted := remove1 a (ew_admitted w),
      ew_in_flight := f # ew_in_flight w, ew_dispatched := ad_permit a # ew_dispatched w\<rparr>)"
proof -
  have k: "dispatched_kept (Running d) (ew_dispatched w)" using assms(1,2) by (simp add: engine_inv_def)
  have inv: "dj_inv d" by (rule dispatched_kept_inv [OF k])
  have pv: "permit_verified (ad_permit a)" using assms(1,3) by (auto simp: engine_inv_def)
  then have pw: "permit_wf (ad_permit a)" by (simp add: permit_verified_def)
  have q: "engine_inv (w\<lparr>ew_life := Running d'\<rparr>)"
    by (rule engine_inv_quiet [OF assms(1,2) dispatch_grows [OF assms(5) inv pw assms(4)]])
  have r: "set (remove1 a (ew_admitted w)) \<subseteq> set (ew_admitted w)" by (rule set_remove1_subset)
  have di: "distinct (map permit_key (map ad_permit (remove1 a (ew_admitted w)) @ ad_permit a # ew_dispatched w))"
    by (rule remove_admitted [OF assms(3)]) (use assms(1) in \<open>simp add: engine_inv_def\<close>)
  show "engine_inv (w\<lparr>ew_life := Running d', ew_admitted := remove1 a (ew_admitted w)\<rparr>)"
    using q r di by (auto simp: engine_inv_def admitted_seen_def)
  assume f: "res = Inr f"
  note d = assms(5) [unfolded f]
  show "engine_inv (w\<lparr>ew_life := Running d', ew_admitted := remove1 a (ew_admitted w),
      ew_in_flight := f # ew_in_flight w, ew_dispatched := ad_permit a # ew_dispatched w\<rparr>)"
    using q r di pv dispatched_kept_dispatch [OF d pw assms(4) k] dispatch_Inr(2) [OF d inv pw assms(4)] context_permit_wf [OF pw]
    by (auto simp: engine_inv_def admitted_seen_def)
qed

lemma receipt_context: "record_receipt_with_facts d f receipt extra now io1 io2 = (Inr c, d') \<Longrightarrow> cs_context c = df_context f"
  by (auto simp: record_receipt_with_facts_def Let_def split: sum.splits prod.splits)

lemma engine_inv_event:
  assumes "engine_event w w'" and "engine_inv w"
  shows "engine_inv w'"
  using assms(1)
proof cases
  case (ev_admit d permit secret intent io1 io2 a d')
  then show ?thesis using engine_inv_admit [OF assms(2)] by simp
next
  case (ev_admit_failed d permit secret intent io1 io2 e d')
  then have "dj_inv d" using engine_inv_journal [OF assms(2)] by simp
  with ev_admit_failed show ?thesis using engine_inv_quiet [OF assms(2)] admit_grows by simp
next
  case (ev_dispatch d a extra now io1 io2 f d')
  then show ?thesis using engine_inv_dispatch(2) [OF assms(2)] by blast
next
  case (ev_dispatch_failed d a extra now io1 io2 e d')
  then show ?thesis using engine_inv_dispatch(1) [OF assms(2)] by blast
next
  case (ev_evidence d f extra now io res d')
  then have "grows d d'"
    using evidence_grows engine_inv_journal [OF assms(2)] engine_inv_contexts [OF assms(2)] by blast
  with ev_evidence engine_inv_quiet [OF assms(2)] show ?thesis by simp
next
  case (ev_receipt d f extra receipt now io1 io2 c d')
  then have "grows d d'"
    using receipt_grows engine_inv_journal [OF assms(2)] engine_inv_contexts [OF assms(2)] by blast
  with ev_receipt engine_inv_quiet [OF assms(2)] receipt_context [OF ev_receipt(5)] set_remove1_subset [of f "ew_in_flight w"]
    assms(2) show ?thesis by (auto simp: engine_inv_def)
next
  case (ev_receipt_failed d f extra receipt now io1 io2 e d')
  then have "grows d d'"
    using receipt_grows engine_inv_journal [OF assms(2)] engine_inv_contexts [OF assms(2)] by blast
  with ev_receipt_failed engine_inv_quiet [OF assms(2)] set_remove1_subset [of f "ew_in_flight w"]
  show ?thesis by (auto simp: engine_inv_def)
next
  case (ev_checkpoint d c now io res d')
  then have "grows d d'"
    using checkpoint_grows engine_inv_journal [OF assms(2)] engine_inv_contexts [OF assms(2)] by blast
  with ev_checkpoint engine_inv_quiet [OF assms(2)] set_remove1_subset [of c "ew_completed w"]
  show ?thesis by (auto simp: engine_inv_def)
next
  case (ev_other d subject facts kind now revision wa s res d')
  then have "grows d d'"
    using append_grows engine_inv_journal [OF assms(2)] engine_inv_contexts [OF assms(2)] by blast
  with ev_other engine_inv_quiet [OF assms(2)] show ?thesis by simp
next
  case (ev_sync d s res d')
  then have "grows d d'" using sync_inv [OF _ engine_inv_journal [OF assms(2)], of d s res d'] by (metis grows_def prefix_order.refl)
  with ev_sync engine_inv_quiet [OF assms(2)] show ?thesis by simp
next
  case (ev_crash d f)
  then show ?thesis
    using assms(2) dispatched_kept_event [OF _ event_crash, of d] by (auto simp: engine_inv_def admitted_seen_def)
next
  case (ev_reopen f io parent path d report)
  then show ?thesis
    using assms(2) dispatched_kept_event [OF _ event_reopen, of f] by (auto simp: engine_inv_def admitted_seen_def)
qed

lemma engine_inv_start: "engine_start w \<Longrightarrow> engine_inv w"
  by (auto elim!: engine_start.cases dest!: start_kept simp: engine_inv_def dispatched_kept_def admitted_seen_def)

lemma engine_reach_inv: "engine_lives.reach w \<Longrightarrow> engine_inv w"
  using engine_lives.reach_invariant engine_inv_start engine_inv_event by blast

section \<open>A step runs to its checkpoint\<close>

abbreviation healthy :: "durable_journal \<Rightarrow> bool" where
  "healthy d \<equiv> dj_inv d \<and> \<not> dj_poisoned d"

abbreviation good_io :: "io_answer \<Rightarrow> bool" where
  "good_io io \<equiv> \<exists>n. io = (Wrote n, None) \<and> 2 ^ 20 + 4 \<le> n"

definition context_ids :: "step_context \<Rightarrow> bool" where
  "context_ids c \<longleftrightarrow>
     list_all (\<lambda>s. id_wf (OpaqueId s)) [sc_job_id c, sc_plan_id c, sc_step_id c, sc_attempt_id c, sc_permit_id c]"

lemma permit_context_ids: "permit_wf p \<Longrightarrow> context_ids (context_from_permit p)"
  by (simp add: permit_wf_def context_ids_def context_from_permit_def)

lemma context_ids_wf: "context_ids c \<Longrightarrow> context_wf c"
  using id_wf_string by (fastforce simp: context_ids_def context_wf_def)

lemma base_facts_small:
  assumes "context_ids c" and "facts_size fs \<le> 1000"
  shows "facts_size (base_facts c @ fs) \<le> 2 ^ 19"
proof -
  have l: "length s \<le> 128" if "id_wf (OpaqueId s)" for s
    using that by (simp add: id_wf_def opaque_id_new_iff MAX_ID_LEN_def)
  have "length (sc_job_id c) + length (sc_plan_id c) + length (sc_step_id c) + length (sc_attempt_id c) + length (sc_permit_id c) \<le> 640"
    using assms(1) l [of "sc_job_id c"] l [of "sc_plan_id c"] l [of "sc_step_id c"] l [of "sc_attempt_id c"] l [of "sc_permit_id c"]
    by (simp add: context_ids_def)
  with assms(2) show ?thesis
    by (simp add: facts_size_def base_facts_def JOB_ID_def PLAN_ID_def STEP_ID_def ATTEMPT_ID_def PERMIT_ID_def)
qed

lemma base_facts_distinct: "distinct (map fst (base_facts c @ [(OpaqueId RECEIPT_DIGEST, r)]))" "distinct (map fst (base_facts c))"
  by (simp_all add: base_facts_def JOB_ID_def PLAN_ID_def STEP_ID_def ATTEMPT_ID_def PERMIT_ID_def RECEIPT_DIGEST_def)

lemma to_hex_length: "length (to_hex d) = 64"
  by (simp add: to_hex_def)

lemma receipt_small: "facts_size [(OpaqueId RECEIPT_DIGEST, to_hex d)] \<le> 1000"
  by (simp add: facts_size_def RECEIPT_DIGEST_def to_hex_length)

lemma write_succeeds:
  assumes "healthy d" and "good_io io" and "context_ids c" and "facts_wf fs" and "distinct (map fst fs)" and "facts_size fs \<le> 2 ^ 19"
  obtains h d' r where "write_step d k now (sc_step_id c) (Inr fs) io = (Inr h, d')" "healthy d'"
    "dj_journal d' = dj_journal d @ [r]" "jr_kind r = k" "jr_facts r = fs"
proof -
  have s: "id_wf (OpaqueId (sc_step_id c))" using assms(3) by (simp add: context_ids_def)
  then have i: "step_identifier (sc_step_id c) = Inr (OpaqueId (sc_step_id c))" by (simp add: step_identifier_def id_wf_def)
  obtain n where n: "io = (Wrote n, None)" "2 ^ 20 + 4 \<le> n" using assms(2) by blast
  from append_succeeds [OF conjunct2 [OF assms(1)] s assms(4-6) n(2), of k now 1] obtain h d' where
    a: "durable_append d k now 1 (OpaqueId (sc_step_id c)) fs (Wrote n) None = (Inr h, d')" "\<not> dj_poisoned d'" by blast
  then have w: "write_step d k now (sc_step_id c) (Inr fs) io = (Inr h, d')" using i n(1) by (simp add: write_step_def)
  from write_step_Inr [OF w conjunct1 [OF assms(1)] assms(4)] obtain r where
    r: "dj_journal d' = dj_journal d @ [r]" "jr_kind r = k" "jr_facts r = fs" by metis
  have "dj_inv d'" using write_grows [OF w conjunct1 [OF assms(1)] assms(4)] by (rule grows_inv)
  with that w r a(2) show thesis by blast
qed

text \<open>The writes of the operations: the facts of a context, and those with the receipt.\<close>

lemma base_write:
  assumes "healthy d" and "good_io io" and "context_ids c"
  obtains h d' r where "write_step d k now (sc_step_id c) (Inr (base_facts c)) io = (Inr h, d')" "healthy d'"
    "dj_journal d' = dj_journal d @ [r]" "jr_facts r = base_facts c"
    "permit_state (sc_permit_id c) (dj_journal d') = ledger_entry k (base_facts c) (permit_state (sc_permit_id c) (dj_journal d))"
proof -
  have "facts_size (base_facts c) \<le> 2 ^ 19" using base_facts_small [OF assms(3), of "[]"] by (simp add: facts_size_def)
  from write_succeeds [OF assms base_facts_wf [OF context_ids_wf [OF assms(3)]] base_facts_distinct(2) this] obtain h d' r where
    w: "write_step d k now (sc_step_id c) (Inr (base_facts c)) io = (Inr h, d')" "healthy d'"
    "dj_journal d' = dj_journal d @ [r]" "jr_kind r = k" "jr_facts r = base_facts c" by blast
  have "mentions (sc_permit_id c) r" using w(5) fact_value_base [of c "[]"] by (simp add: mentions_def)
  with w that show thesis by (simp add: permit_step_def)
qed

lemma receipt_write:
  assumes "healthy d" and "good_io io" and "context_ids c"
  obtains h d' where "write_step d k now (sc_step_id c) (Inr (base_facts c @ [(OpaqueId RECEIPT_DIGEST, to_hex receipt)])) io = (Inr h, d')"
    "healthy d'" "permit_state (sc_permit_id c) (dj_journal d') =
      ledger_entry k (base_facts c @ [(OpaqueId RECEIPT_DIGEST, to_hex receipt)]) (permit_state (sc_permit_id c) (dj_journal d))"
proof -
  from write_succeeds [OF assms receipt_facts_wf [OF context_ids_wf [OF assms(3)]] base_facts_distinct(1)
      base_facts_small [OF assms(3) receipt_small]]
  obtain h d' r where w: "write_step d k now (sc_step_id c) (Inr (base_facts c @ [(OpaqueId RECEIPT_DIGEST, to_hex receipt)])) io = (Inr h, d')"
    "healthy d'" "dj_journal d' = dj_journal d @ [r]" "jr_kind r = k"
    "jr_facts r = base_facts c @ [(OpaqueId RECEIPT_DIGEST, to_hex receipt)]" by blast
  have "mentions (sc_permit_id c) r" using w(5) by (simp add: mentions_def)
  with w that show thesis by (simp add: permit_step_def)
qed

lemma admit_succeeds:
  assumes "healthy d" and "good_io io1" and "good_io io2" and "permit_wf permit"
    and "permit_state (permit_key permit) (dj_journal d) = Unseen" and "verify_permit permit secret intent False = Inr permit"
  obtains a d' rs where "admit_step d permit secret intent io1 io2 = (Inr a, d')" "healthy d'" "ad_permit a = permit"
    "permit_state (permit_key permit) (dj_journal d') = IntentDurable"
    "dj_journal d' = dj_journal d @ rs" "\<forall>r \<in> set rs. jr_facts r = base_facts (context_from_permit permit)"
proof -
  note c = permit_context_ids [OF assms(4)]
  from base_write [OF assms(1,2) c, of StepPermitAccepted "dp_now_epoch_ms intent"] obtain h d1 r1 where
    d1: "write_step d StepPermitAccepted (dp_now_epoch_ms intent) (sc_step_id (context_from_permit permit))
      (Inr (base_facts (context_from_permit permit))) io1 = (Inr h, d1)" "healthy d1"
    "dj_journal d1 = dj_journal d @ [r1]" "jr_facts r1 = base_facts (context_from_permit permit)" by metis
  from base_write [OF d1(2) assms(3) c, of StepIntentRecorded "dp_now_epoch_ms intent"] obtain h' d2 r2 where
    d2: "write_step d1 StepIntentRecorded (dp_now_epoch_ms intent) (sc_step_id (context_from_permit permit))
      (Inr (base_facts (context_from_permit permit))) io2 = (Inr h', d2)" "healthy d2"
    "dj_journal d2 = dj_journal d1 @ [r2]" "jr_facts r2 = base_facts (context_from_permit permit)" by metis
  have a: "admit_step d permit secret intent io1 io2 = (Inr \<lparr>ad_permit = permit, ad_intent_digest = h'\<rparr>, d2)"
    using assms(5,6) d1(1) d2(1)
    by (simp add: admit_step_def Let_def from_journal_def ledger_is_permit_state context_facts_eq)
  show thesis
    by (rule that [OF a d2(2), of "[r1, r2]"]) (use admit_Inr [OF a conjunct1 [OF assms(1)] assms(4)] d1 d2 in auto)
qed

lemma dispatch_succeeds:
  assumes "healthy d" and "good_io io1" and "good_io io2" and "permit_wf (ad_permit a)"
    and "permit_state (permit_key (ad_permit a)) (dj_journal d) = IntentDurable"
  obtains f d' rs where "begin_dispatch d a now io1 io2 = (Inr f, d')" "healthy d'" "df_context f = context_from_permit (ad_permit a)"
    "permit_state (permit_key (ad_permit a)) (dj_journal d') = ConsumingOutcomeUnknown"
    "dj_journal d' = dj_journal d @ rs" "\<forall>r \<in> set rs. jr_facts r = base_facts (context_from_permit (ad_permit a))"
proof -
  let ?c = "context_from_permit (ad_permit a)"
  note c = permit_context_ids [OF assms(4)]
  obtain h d1 r1 where
    d1: "write_step d PermitConsuming now (sc_step_id ?c) (Inr (base_facts ?c)) io1 = (Inr h, d1)" "healthy d1"
    "dj_journal d1 = dj_journal d @ [r1]" "jr_facts r1 = base_facts ?c" and s1: "permit_state (sc_permit_id ?c) (dj_journal d1) =
      ledger_entry PermitConsuming (base_facts ?c) (permit_state (sc_permit_id ?c) (dj_journal d))"
    by (rule base_write [OF assms(1,2) c, of PermitConsuming now])
  obtain h' d2 r2 where
    d2: "write_step d1 ExternalDispatchStarted now (sc_step_id ?c) (Inr (base_facts ?c)) io2 = (Inr h', d2)" "healthy d2"
    "dj_journal d2 = dj_journal d1 @ [r2]" "jr_facts r2 = base_facts ?c" and s2: "permit_state (sc_permit_id ?c) (dj_journal d2) =
      ledger_entry ExternalDispatchStarted (base_facts ?c) (permit_state (sc_permit_id ?c) (dj_journal d1))"
    by (rule base_write [OF d1(2) assms(3) c, of ExternalDispatchStarted now])
  have s: "permit_state (permit_key (ad_permit a)) (dj_journal d2) = ConsumingOutcomeUnknown"
    using s1 s2 assms(5) by (simp add: ledger_entry_def del: permit_state_snoc)
  have "begin_dispatch d a now io1 io2 =
      (Inr \<lparr>df_context = ?c, df_intent_digest = ad_intent_digest a, df_dispatch_digest = h'\<rparr>, d2)"
    using d1(1) d2(1) by (simp add: begin_dispatch_def begin_dispatch_with_facts_def Let_def context_facts_eq extend_unique_facts_def)
  then show thesis by (rule that [of _ d2 "[r1, r2]"]) (use d1(3,4) d2(2-4) s in auto)
qed

lemma receipt_succeeds:
  assumes "healthy d" and "good_io io1" and "good_io io2" and "context_ids (df_context f)"
    and "permit_state (sc_permit_id (df_context f)) (dj_journal d) = ConsumingOutcomeUnknown"
  obtains c d' where "record_receipt d f receipt now io1 io2 = (Inr c, d')" "healthy d'" "cs_context c = df_context f"
    "cs_receipt_digest c = receipt" "permit_state (sc_permit_id (df_context f)) (dj_journal d') = Consumed (to_hex receipt)"
proof -
  let ?c = "df_context f" and ?fs = "base_facts (df_context f) @ [(OpaqueId RECEIPT_DIGEST, to_hex receipt)]"
  have v: "fact_value ?fs RECEIPT_DIGEST = Some (to_hex receipt)" "to_hex receipt \<noteq> []"
    using to_hex_length [of receipt]
    by (auto simp: fact_value_def base_facts_def JOB_ID_def PLAN_ID_def STEP_ID_def ATTEMPT_ID_def PERMIT_ID_def RECEIPT_DIGEST_def)
  from receipt_write [OF assms(1,2,4), of SemanticReceiptRecorded now receipt] obtain h d1 where
    d1: "write_step d SemanticReceiptRecorded now (sc_step_id ?c) (Inr ?fs) io1 = (Inr h, d1)" "healthy d1"
    "permit_state (sc_permit_id ?c) (dj_journal d1) = Consumed (to_hex receipt)" using assms(5) v by (auto simp: ledger_entry_def)
  from receipt_write [OF d1(2) assms(3,4), of PermitConsumed now receipt] obtain h' d2 where
    d2: "write_step d1 PermitConsumed now (sc_step_id ?c) (Inr ?fs) io2 = (Inr h', d2)" "healthy d2"
    "permit_state (sc_permit_id ?c) (dj_journal d2) = Consumed (to_hex receipt)" using d1(3) by (auto simp: ledger_entry_def)
  have "record_receipt d f receipt now io1 io2 =
      (Inr \<lparr>cs_context = ?c, cs_receipt_digest = receipt, cs_receipt_record_digest = h\<rparr>, d2)"
    using d1(1) d2(1) by (simp add: record_receipt_def record_receipt_with_facts_def Let_def context_receipt_eq extend_unique_facts_def)
  with that d2(2,3) show thesis by simp
qed

lemma checkpoint_succeeds:
  assumes "healthy d" and "good_io io" and "context_ids (cs_context c)"
    and "permit_state (sc_permit_id (cs_context c)) (dj_journal d) = Consumed x"
  obtains h d' where "step_checkpoint d c now io = (Inr h, d')" "healthy d'"
    "permit_state (sc_permit_id (cs_context c)) (dj_journal d') = Consumed x"
proof -
  from receipt_write [OF assms(1-3), of StepCheckpointed now "cs_receipt_digest c"] obtain h d' where
    "write_step d StepCheckpointed now (sc_step_id (cs_context c))
      (Inr (base_facts (cs_context c) @ [(OpaqueId RECEIPT_DIGEST, to_hex (cs_receipt_digest c))])) io = (Inr h, d')"
    "healthy d'" "permit_state (sc_permit_id (cs_context c)) (dj_journal d') = Consumed x"
    using assms(4) by (auto simp: ledger_entry_def)
  with that show thesis by (simp add: step_checkpoint_def Let_def context_receipt_eq)
qed

section \<open>Examples\<close>

lemma ex_verified: "\<exists>p. permit_wf p \<and> permit_key p = ''permit-1'' \<and> verify_permit p ex_secret ex_intent False = Inr p"
proof -
  obtain t where t: "mint_integrity_tag ex_permit ex_secret = Inr t" using ex_mint by blast
  let ?p = "ex_permit\<lparr>sp_integrity_tag := t\<rparr>"
  have "verify_permit ?p ex_secret ex_intent False = Inr ?p"
    using t by (simp add: verify_permit_iff mint_integrity_tag_def permit_authorizes_def)
      (simp add: ex_permit_def ex_intent_def ex_binding_def)
  moreover have "permit_wf ?p" using ex_permit_wf by (simp add: permit_wf_def)
  ultimately show ?thesis by (intro exI [of _ ?p]) (simp add: ex_permit_def)
qed

lemma ex_open_healthy: "healthy ex_open"
  using reachable_inv [OF ex_open_reach] by (simp add: ex_open_def)

abbreviation ex_io :: io_answer where
  "ex_io \<equiv> (Wrote (2 ^ 20 + 4), None)"

lemma ex_dispatched:
  obtains w d p where "engine_lives.reach w" "ew_life w = Running d" "ew_dispatched w = [p]"
    "permit_state (permit_key p) (dj_journal d) = ConsumingOutcomeUnknown"
    "\<forall>r \<in> set (dj_journal d). jr_facts r = base_facts (context_from_permit p)" "permit_key p = ''permit-1''"
proof -
  obtain p where p: "permit_wf p" "permit_key p = ''permit-1''" "verify_permit p ex_secret ex_intent False = Inr p"
    using ex_verified by blast
  have u: "permit_state (permit_key p) (dj_journal ex_open) = Unseen" by (simp add: ex_open_def)
  obtain a d1 rs where a: "admit_step ex_open p ex_secret ex_intent ex_io ex_io = (Inr a, d1)" "healthy d1" "ad_permit a = p"
    "permit_state (permit_key p) (dj_journal d1) = IntentDurable" "dj_journal d1 = dj_journal ex_open @ rs"
    "\<forall>r \<in> set rs. jr_facts r = base_facts (context_from_permit p)"
    by (rule admit_succeeds [OF ex_open_healthy _ _ p(1) u p(3), of ex_io ex_io]) auto
  obtain f d2 qs where f: "begin_dispatch d1 a 1 ex_io ex_io = (Inr f, d2)" "healthy d2"
    "permit_state (permit_key p) (dj_journal d2) = ConsumingOutcomeUnknown" "dj_journal d2 = dj_journal d1 @ qs"
    "\<forall>r \<in> set qs. jr_facts r = base_facts (context_from_permit p)"
    by (rule dispatch_succeeds [of d1 ex_io ex_io a 1]) (use a p in auto)
  let ?w0 = "\<lparr>ew_life = Running ex_open, ew_admitted = [], ew_in_flight = [], ew_completed = [], ew_dispatched = []\<rparr>"
  let ?w1 = "?w0\<lparr>ew_life := Running d1, ew_admitted := [a]\<rparr>"
  let ?w2 = "?w1\<lparr>ew_life := Running d2, ew_admitted := remove1 a [a], ew_in_flight := [f], ew_dispatched := [ad_permit a]\<rparr>"
  have "journal_start (Running ex_open)" by (rule start_new [OF ex_open_opens])
  then have r0: "engine_lives.reach ?w0" by (intro engine_lives.reach_init engine_start.intros)
  have e1: "engine_event ?w0 ?w1" using ev_admit [of ?w0 ex_open p ex_secret ex_intent ex_io ex_io a d1] p a by simp
  have e2: "engine_event ?w1 ?w2"
    using ev_dispatch [of ?w1 d1 a "[]" 1 ex_io ex_io f d2] f by (simp add: begin_dispatch_def extra_wf_def)
  have "engine_lives.reach ?w2" using engine_lives.reach_step [OF engine_lives.reach_step [OF r0 e1] e2] .
  then show thesis
    by (rule that [of ?w2 d2 p]) (use a f p in \<open>auto simp: ex_open_def\<close>)
qed

definition ex_accepted :: durable_journal where
  "ex_accepted = ex_open\<lparr>dj_journal := [ex_record\<lparr>jr_kind := StepPermitAccepted, jr_facts := [(OpaqueId PERMIT_ID, ''permit-1'')]\<rparr>]\<rparr>"

section \<open>Properties\<close>

text \<open>
  C1. No permit is dispatched twice. Over every life of an engine, through any sequence of admissions, dispatches,
  receipts, checkpoints and foreign records, with writes and fsyncs that fail, crashes that lose everything in memory
  and any unsynced bytes, and reopenings, the permits under which an external dispatch was begun have pairwise
  different identifiers, and each of them verified, unconsumed, against a dispatch intent and a pairing secret.
\<close>

theorem permit_dispatched_at_most_once:
  assumes "engine_lives.reach w"
  shows "distinct (map permit_key (ew_dispatched w)) \<and>
    (\<forall>p \<in> set (ew_dispatched w). \<exists>secret intent. verify_permit p secret intent False = Inr p)"
  using engine_reach_inv [OF assms] by (auto simp: engine_inv_def permit_verified_def)

theorem permit_dispatched_at_most_once_witness:
  "\<exists>w. engine_lives.reach w \<and> map permit_key (ew_dispatched w) = [''permit-1''] \<and> distinct (map permit_key (ew_dispatched w))"
proof -
  obtain w p where w: "engine_lives.reach w" "ew_dispatched w = [p]" "permit_key p = ''permit-1''" by (rule ex_dispatched)
  from permit_dispatched_at_most_once [OF w(1)] w show ?thesis by (intro exI [of _ w]) simp
qed

text \<open>
  C2. A fresh permit runs its step to the end. On a healthy journal, whose writes and fsyncs the operating system
  performs, a well-formed permit that the journal has not seen and that verifies for the intent is admitted,
  dispatched, given its receipt and checkpointed: each of the four operations returns its token, and the ledger read
  from the journal afterwards says that the permit is consumed by exactly that receipt.
\<close>

theorem fresh_permit_completes:
  assumes "dj_inv d" and "\<not> dj_poisoned d" and "permit_wf permit"
    and "ledger_disposition (from_journal (dj_journal d)) (permit_key permit) = Unseen"
    and "verify_permit permit secret intent False = Inr permit"
    and "io = (Wrote n, None)" and "unat MAX_FRAME_BYTES + 4 \<le> n"
  shows "\<exists>a d1 f d2 c d3 h d4. admit_step d permit secret intent io io = (Inr a, d1) \<and> begin_dispatch d1 a now io io = (Inr f, d2) \<and>
    record_receipt d2 f receipt now io io = (Inr c, d3) \<and> step_checkpoint d3 c now io = (Inr h, d4) \<and>
    ledger_disposition (from_journal (dj_journal d4)) (permit_key permit) = Consumed (to_hex receipt)"
proof -
  have io: "good_io io" using assms(6,7) by (simp add: MAX_FRAME_BYTES_def)
  have u: "permit_state (permit_key permit) (dj_journal d) = Unseen"
    using assms(4) by (simp add: from_journal_def ledger_is_permit_state)
  obtain a d1 where a: "admit_step d permit secret intent io io = (Inr a, d1)" "healthy d1" "ad_permit a = permit"
    "permit_state (permit_key permit) (dj_journal d1) = IntentDurable"
    by (rule admit_succeeds [OF conjI [OF assms(1,2)] io io assms(3) u assms(5)])
  obtain f d2 where f: "begin_dispatch d1 a now io io = (Inr f, d2)" "healthy d2" "df_context f = context_from_permit permit"
    "permit_state (permit_key permit) (dj_journal d2) = ConsumingOutcomeUnknown"
    by (rule dispatch_succeeds [OF a(2) io io, of a now]) (use a assms(3) in auto)
  have ids: "context_ids (df_context f)" using f(3) permit_context_ids [OF assms(3)] by simp
  obtain c d3 where c: "record_receipt d2 f receipt now io io = (Inr c, d3)" "healthy d3" "cs_context c = df_context f"
    "permit_state (permit_key permit) (dj_journal d3) = Consumed (to_hex receipt)"
    by (rule receipt_succeeds [OF f(2) io io ids, of receipt now]) (use f in auto)
  obtain h d4 where h: "step_checkpoint d3 c now io = (Inr h, d4)"
    "permit_state (permit_key permit) (dj_journal d4) = Consumed (to_hex receipt)"
    by (rule checkpoint_succeeds [OF c(2) io, of c "to_hex receipt" now]) (use c f ids in auto)
  then show ?thesis using a(1) f(1) c(1) h(1) unfolding from_journal_def ledger_is_permit_state by blast
qed

theorem fresh_permit_completes_witness:
  "\<exists>p a d1 f d2 c d3 h d4. verify_permit p ex_secret ex_intent False = Inr p \<and>
     admit_step ex_open p ex_secret ex_intent ex_io ex_io = (Inr a, d1) \<and> begin_dispatch d1 a 1 ex_io ex_io = (Inr f, d2) \<and>
     record_receipt d2 f 5 1 ex_io ex_io = (Inr c, d3) \<and> step_checkpoint d3 c 1 ex_io = (Inr h, d4) \<and>
     ledger_disposition (from_journal (dj_journal d4)) (permit_key p) = Consumed (to_hex 5)"
proof -
  obtain p where p: "permit_wf p" "verify_permit p ex_secret ex_intent False = Inr p" using ex_verified by blast
  have u: "ledger_disposition (from_journal (dj_journal ex_open)) (permit_key p) = Unseen"
    by (simp add: from_journal_def ledger_is_permit_state ex_open_def)
  have "unat MAX_FRAME_BYTES + 4 \<le> 2 ^ 20 + 4" by (simp add: MAX_FRAME_BYTES_def)
  from fresh_permit_completes [OF conjunct1 [OF ex_open_healthy] conjunct2 [OF ex_open_healthy] p(1) u p(2) refl this, of 1 5]
  show ?thesis using p(2) by (elim exE conjE) (intro exI conjI, assumption+)
qed

text \<open>
  C33. A permit whose acceptance was recorded and whose intent was not is refused for good. The ledger calls it
  accepted with an intent that is not durable; the journal has no intent record of it; and admission answers
  that its intent is already recorded, whatever the intent and the secret, and writes nothing.
\<close>

theorem accepted_permit_refused:
  assumes "ledger_disposition (from_journal (dj_journal d)) (permit_key permit) = AcceptedIntentNotDurable"
  shows "admit_step d permit secret intent io1 io2 = (Inl (IntentAlreadyRecorded (permit_key permit)), d) \<and>
    \<not> list_ex (\<lambda>r. jr_kind r = StepIntentRecorded \<and> mentions (permit_key permit) r) (dj_journal d)"
proof
  show "admit_step d permit secret intent io1 io2 = (Inl (IntentAlreadyRecorded (permit_key permit)), d)"
    using assms by (simp add: admit_step_def)
  have "2 \<le> disposition_rank (permit_state p j)" if "list_ex (\<lambda>r. jr_kind r = StepIntentRecorded \<and> mentions p r) j" for p j
  proof -
    from that obtain xs r ys where j: "j = (xs @ [r]) @ ys" "jr_kind r = StepIntentRecorded" "mentions p r"
      by (auto simp: list_ex_iff dest!: split_list)
    have "2 \<le> disposition_rank (permit_state p (xs @ [r]))"
      using j(2,3) by (cases "permit_state p xs") (simp_all add: permit_step_def ledger_entry_def)
    then show ?thesis using permit_state_up [of p "xs @ [r]" ys] j(1) by simp
  qed
  from this [of "permit_key permit" "dj_journal d"]
  show "\<not> list_ex (\<lambda>r. jr_kind r = StepIntentRecorded \<and> mentions (permit_key permit) r) (dj_journal d)"
    using assms by (auto simp: from_journal_def ledger_is_permit_state)
qed

theorem accepted_permit_refused_witness:
  "admit_step ex_accepted ex_permit ex_secret ex_intent ex_io ex_io = (Inl (IntentAlreadyRecorded ''permit-1''), ex_accepted)"
proof -
  have "mentions ''permit-1'' (ex_record\<lparr>jr_kind := StepPermitAccepted, jr_facts := [(OpaqueId PERMIT_ID, ''permit-1'')]\<rparr>)"
    by (simp add: mentions_def fact_value_def)
  then have "ledger_disposition (from_journal (dj_journal ex_accepted)) (permit_key ex_permit) = AcceptedIntentNotDurable"
    by (simp add: from_journal_def ledger_is_permit_state permit_state_def ex_accepted_def permit_step_def ledger_entry_def ex_permit_def)
  from accepted_permit_refused [OF this, of ex_secret ex_intent ex_io ex_io] show ?thesis by (simp add: ex_permit_def)
qed

end
