(* ===== verification/Superseding.thy ===== *)
theory Superseding
  imports Recovery Authority_Api Projection
begin

text \<open>
  \<open>crates/arkforge-engine/src/superseding.rs\<close>: what unresolved actions may have done, what read-only observations
  establish, and whether a superseding recovery could be offered. \<open>RecoveryDeclaration\<close> comes from
  \<open>crates/arkforge-core/src/profile.rs\<close>. The main results say exactly which effects the conservative union holds
  and what an eligible assessment covers.
\<close>

section \<open>Possible effects\<close>

datatype effect_bound = NoEffect | PersistentBound persistent_effect | EffectUnbounded

definition effect_of :: "private_action_record \<Rightarrow> effect_bound" where
  "effect_of a =
     (case pa_effect_class a of
        ReadOnly \<Rightarrow> NoEffect
      | Transient \<Rightarrow> NoEffect
      | Mutating \<Rightarrow> NoEffect
      | Destructive \<Rightarrow>
          (case (pa_declared_target a, pa_declared_range a) of
             (Some (TPartition part), Some rng) \<Rightarrow>
               (case pa_content_digest a of
                  Some content \<Rightarrow> PersistentBound (WritePartition part rng content)
                | None \<Rightarrow> PersistentBound (ErasePartition part rng))
           | (Some (TRawRegion region), Some rng) \<Rightarrow>
               (case pa_content_digest a of
                  Some content \<Rightarrow> PersistentBound (WriteRawRegion region rng content)
                | None \<Rightarrow> EffectUnbounded)
           | _ \<Rightarrow> EffectUnbounded))"

definition step_of_record :: "string \<Rightarrow> journal_record \<Rightarrow> string option" where
  "step_of_record permit_id r =
     (if list_ex (\<lambda>(k, v). as_str k = PERMIT_ID \<and> v = permit_id) (jr_facts r) then fact_value (jr_facts r) STEP_ID else None)"

definition step_for_permit :: "journal \<Rightarrow> string \<Rightarrow> string option" where
  "step_for_permit j permit_id = find_map (step_of_record permit_id) j"

text \<open>The loop over the actions of a step, and the loop over the unresolved permits.\<close>

type_synonym effect_union = "persistent_effect list \<times> action_id list \<times> effect_set_completeness"

definition consider_action :: "effect_union \<Rightarrow> private_action_record \<Rightarrow> effect_union" where
  "consider_action u a =
     (case u of (persistent, ids, completeness) \<Rightarrow>
        (case effect_of a of
           NoEffect \<Rightarrow> (persistent, ids @ [pa_action_id a], completeness)
         | PersistentBound e \<Rightarrow> (if e \<in> set persistent then persistent else persistent @ [e], ids @ [pa_action_id a], completeness)
         | EffectUnbounded \<Rightarrow> (persistent, ids @ [pa_action_id a], Unbounded)))"

definition consider_permit :: "journal \<Rightarrow> stored_provider_plan \<Rightarrow> effect_union \<Rightarrow> string \<Rightarrow> effect_union" where
  "consider_permit j plan u permit_id =
     (case u of (persistent, ids, completeness) \<Rightarrow>
        (case step_for_permit j permit_id of
           None \<Rightarrow> (persistent, ids, Unbounded)
         | Some step_id \<Rightarrow>
             let actions = filter (\<lambda>a. as_str (pa_step_id a) = step_id) (spp_actions plan) in
             if actions = [] then (persistent, ids, Unbounded) else foldl consider_action u actions))"

definition possible_effects :: "journal \<Rightarrow> stored_provider_plan \<Rightarrow> data_impact \<Rightarrow> possible_effect_set" where
  "possible_effects j plan declared_data_impact =
     (let unresolved = ledger_unresolved (from_journal j);
          (persistent, source_action_ids, completeness) = foldl (consider_permit j plan) ([], [], Bounded) unresolved;
          data_impact = (if persistent = [] \<and> completeness = Bounded then
            \<lparr>di_userdata = Preserved, di_calibration = Preserved, di_non_volatile_config = Preserved, di_secure_storage = Preserved\<rparr>
            else declared_data_impact)
      in \<lparr>pes_effects = \<lparr>es_persistent = persistent, es_transient = [], es_data_impact = data_impact\<rparr>,
          pes_completeness = completeness, pes_source_action_ids = source_action_ids\<rparr>)"

section \<open>Reconciling\<close>

datatype effect_observation = Present | Absent | Indeterminate

datatype reconcile_verdict =
    ReconcileSucceeded
  | ConfirmedNotExecuted
  | ConfirmedPartial nat nat
  | StillUnknown string

definition reconcile :: "(persistent_effect \<times> effect_observation) list \<Rightarrow> reconcile_verdict" where
  "reconcile observations =
     (if observations = [] then StillUnknown ''no declared effect was observed''
      else
        let indeterminate = length (filter (\<lambda>(_, x). x = Indeterminate) observations) in
        if 0 < indeterminate then
          StillUnknown (display_nat indeterminate @ '' of '' @ display_nat (length observations) @
            '' declared effects could not be observed; the read face does not reach them (architecture.md 16.4)'')
        else
          let present = length (filter (\<lambda>(_, x). x = Present) observations);
              absent = length observations - present in
          if absent = 0 then ReconcileSucceeded
          else if present = 0 then ConfirmedNotExecuted
          else ConfirmedPartial present absent)"

section \<open>Superseding recovery\<close>

record recovery_declaration =
  rd_supports_complete_overwrite :: bool
  rd_version :: version
  rd_covered_effects :: "opaque_id list"
  rd_unsupported_states :: "string list"

datatype recovery_blocker =
    EffectsUnbounded
  | NoPublishedCoverage "string list"
  | EffectOutsideCoverage "string list"
  | NothingToRecover

datatype superseding_recovery_assessment =
    Eligible "persistent_effect list"
  | Ineligible recovery_blocker

definition covered :: "persistent_effect \<Rightarrow> recovery_declaration \<Rightarrow> bool" where
  "covered e recovery =
     (case effect_partition e of
        None \<Rightarrow> False
      | Some part \<Rightarrow> list_ex (\<lambda>c. as_str c = as_str part) (rd_covered_effects recovery))"

definition describe_effect :: "persistent_effect \<Rightarrow> string" where
  "describe_effect e = (case effect_partition e of Some part \<Rightarrow> as_str part | None \<Rightarrow> ''<non-partition effect>'')"

definition assess_superseding_recovery :: "possible_effect_set \<Rightarrow> recovery_declaration \<Rightarrow> superseding_recovery_assessment" where
  "assess_superseding_recovery possible recovery =
     (if pes_completeness possible = Unbounded then Ineligible EffectsUnbounded
      else if es_persistent (pes_effects possible) = [] then Ineligible NothingToRecover
      else if \<not> rd_supports_complete_overwrite recovery then
        Ineligible (NoPublishedCoverage (rd_unsupported_states recovery))
      else
        let uncovered = map describe_effect (filter (\<lambda>e. \<not> covered e recovery) (es_persistent (pes_effects possible))) in
        if uncovered \<noteq> [] then Ineligible (EffectOutsideCoverage uncovered)
        else Eligible (es_persistent (pes_effects possible)))"

fun blocker_id :: "recovery_blocker \<Rightarrow> opaque_id" where
  "blocker_id EffectsUnbounded = OpaqueId ''REC-B01''"
| "blocker_id (NoPublishedCoverage _) = OpaqueId ''REC-B02''"
| "blocker_id (EffectOutsideCoverage _) = OpaqueId ''REC-B03''"
| "blocker_id NothingToRecover = OpaqueId ''REC-B04''"

section \<open>What the union holds\<close>

text \<open>The actions that the journal leaves open: those of the step of an unresolved permit.\<close>

definition unresolved_permits :: "journal \<Rightarrow> string set" where
  "unresolved_permits j = {p. ledger_disposition (from_journal j) p \<in> {IntentDurable, ConsumingOutcomeUnknown}}"

definition open_actions :: "journal \<Rightarrow> stored_provider_plan \<Rightarrow> string set \<Rightarrow> private_action_record set" where
  "open_actions j plan ps =
     {a \<in> set (spp_actions plan). \<exists>p \<in> ps. step_for_permit j p = Some (as_str (pa_step_id a))}"

definition step_known :: "journal \<Rightarrow> stored_provider_plan \<Rightarrow> string \<Rightarrow> bool" where
  "step_known j plan p \<longleftrightarrow> (\<exists>a \<in> set (spp_actions plan). step_for_permit j p = Some (as_str (pa_step_id a)))"

definition union_holds :: "effect_union \<Rightarrow> private_action_record set \<Rightarrow> bool \<Rightarrow> bool" where
  "union_holds u as known \<longleftrightarrow>
     (case u of (persistent, ids, completeness) \<Rightarrow>
        distinct persistent \<and> set persistent = {e. \<exists>a \<in> as. effect_of a = PersistentBound e} \<and> set ids = pa_action_id ` as \<and>
        (completeness = Bounded \<longleftrightarrow> known \<and> (\<forall>a \<in> as. effect_of a \<noteq> EffectUnbounded)))"

lemma consider_action_holds:
  "union_holds u as known \<Longrightarrow> union_holds (consider_action u a) (insert a as) known"
  by (cases u; cases "effect_of a") (auto simp: union_holds_def consider_action_def)

lemma consider_actions_hold:
  "union_holds u as known \<Longrightarrow> union_holds (foldl consider_action u xs) (as \<union> set xs) known"
proof (induction xs arbitrary: u as)
  case (Cons x xs)
  from Cons.IH [OF consider_action_holds [OF Cons.prems, of x]] show ?case by simp
qed simp

lemma union_unbounded: "union_holds (p, i, c) as known \<Longrightarrow> union_holds (p, i, Unbounded) as False"
  by (simp add: union_holds_def)

lemma open_actions_insert:
  "open_actions j plan (insert p ps) = open_actions j plan ps \<union>
     {a \<in> set (spp_actions plan). step_for_permit j p = Some (as_str (pa_step_id a))}"
  by (auto simp: open_actions_def)

lemma consider_permit_holds:
  assumes "union_holds u (open_actions j plan ps) known"
  shows "union_holds (consider_permit j plan u p) (open_actions j plan (insert p ps)) (known \<and> step_known j plan p)"
proof -
  obtain x i c where u: "u = (x, i, c)" by (cases u)
  show ?thesis
  proof (cases "step_known j plan p")
    case False
    then have "consider_permit j plan u p = (x, i, Unbounded)"
      by (auto simp: consider_permit_def u step_known_def filter_empty_conv Let_def split: option.split)
    moreover have "open_actions j plan (insert p ps) = open_actions j plan ps"
      using False by (auto simp: open_actions_insert step_known_def)
    ultimately show ?thesis using assms False u union_unbounded by auto
  next
    case True
    then obtain s where s: "step_for_permit j p = Some s" by (auto simp: step_known_def)
    let ?as = "filter (\<lambda>a. as_str (pa_step_id a) = s) (spp_actions plan)"
    have "?as \<noteq> []" using True s by (auto simp: step_known_def filter_empty_conv)
    then have "consider_permit j plan u p = foldl consider_action u ?as"
      using s by (simp add: consider_permit_def u Let_def)
    moreover have "open_actions j plan (insert p ps) = open_actions j plan ps \<union> set ?as"
      using s by (auto simp: open_actions_insert)
    ultimately show ?thesis using consider_actions_hold [OF assms, of ?as] True by simp
  qed
qed

lemma consider_permits_hold:
  assumes "union_holds u (open_actions j plan ps) known"
  shows "union_holds (foldl (consider_permit j plan) u xs) (open_actions j plan (ps \<union> set xs)) (known \<and> (\<forall>p \<in> set xs. step_known j plan p))"
  using assms
proof (induction xs arbitrary: u ps known)
  case (Cons x xs)
  from Cons.IH [OF consider_permit_holds [OF Cons.prems, of x]] show ?case by (simp add: conj_assoc)
qed simp

lemma set_unresolved: "set (ledger_unresolved (from_journal j)) = unresolved_permits j"
proof -
  have "p \<in> fst ` set (from_journal j)" if "ledger_disposition (from_journal j) p \<noteq> Unseen" for p
    using that by (force simp: ledger_disposition_def split: option.splits dest!: map_of_SomeD)
  then show ?thesis by (auto simp: ledger_unresolved_def unresolved_permits_def)
qed

lemma possible_effects_holds:
  "union_holds (es_persistent (pes_effects (possible_effects j plan di)), pes_source_action_ids (possible_effects j plan di),
     pes_completeness (possible_effects j plan di)) (open_actions j plan (unresolved_permits j)) (\<forall>p \<in> unresolved_permits j. step_known j plan p)"
proof -
  have "union_holds ([], [], Bounded) (open_actions j plan {}) True" by (simp add: union_holds_def open_actions_def)
  from consider_permits_hold [OF this, of "ledger_unresolved (from_journal j)"] show ?thesis
    by (auto simp: possible_effects_def Let_def set_unresolved split: prod.splits)
qed

section \<open>Examples\<close>

text \<open>A journal that ends with a permit being consumed for the step \<open>s1\<close>.\<close>

definition ex_open_record :: journal_record where
  "ex_open_record = ex_record\<lparr>jr_kind := PermitConsuming,
     jr_facts := [(OpaqueId PERMIT_ID, ''permit-1''), (OpaqueId STEP_ID, ''s1'')]\<rparr>"

lemma ex_open_step: "step_for_permit [ex_open_record] ''permit-1'' = Some ''s1''"
  by (simp add: step_for_permit_def step_of_record_def ex_open_record_def fact_value_def PERMIT_ID_def STEP_ID_def)

lemma ex_ledger: "ledger_unresolved (from_journal [ex_open_record]) = [''permit-1'']"
  by (simp add: ledger_unresolved_def from_journal_def from_records_def ledger_record_def ex_open_record_def fact_value_def
      ledger_entry_def ledger_disposition_def)

lemma ex_unresolved: "unresolved_permits [ex_open_record] = {''permit-1''}"
  using set_unresolved [of "[ex_open_record]"] by (simp add: ex_ledger)

section \<open>Properties\<close>

text \<open>
  C7. The union of possible effects is exact. It holds, without repetition, the effects of exactly those actions that
  belong to the step of a permit whose intent is durable and whose receipt is missing, and it names exactly those
  actions; it is bounded if and only if every such permit names a step of the plan and every such action has an
  effect that can be named; and it reports the data preserved only when it is bounded and empty.
\<close>

theorem possible_effects_exact:
  "let u = possible_effects j plan di; open_as = {a \<in> set (spp_actions plan). \<exists>p. ledger_disposition (from_journal j) p \<in>
       {IntentDurable, ConsumingOutcomeUnknown} \<and> step_for_permit j p = Some (as_str (pa_step_id a))} in
   distinct (es_persistent (pes_effects u)) \<and>
   set (es_persistent (pes_effects u)) = {e. \<exists>a. a \<in> open_as \<and> effect_of a = PersistentBound e} \<and>
   set (pes_source_action_ids u) = pa_action_id ` open_as \<and>
   (pes_completeness u = Bounded \<longleftrightarrow>
      {p. ledger_disposition (from_journal j) p \<in> {IntentDurable, ConsumingOutcomeUnknown}} \<subseteq>
        {p. \<exists>a. a \<in> open_as \<and> step_for_permit j p = Some (as_str (pa_step_id a))} \<and>
      open_as \<inter> {a. effect_of a = EffectUnbounded} = {}) \<and>
   es_data_impact (pes_effects u) =
     (if es_persistent (pes_effects u) = [] \<and> pes_completeness u = Bounded then es_data_impact read_only else di)"
proof -
  let ?u = "possible_effects j plan di"
  have o: "{a \<in> set (spp_actions plan). \<exists>p. ledger_disposition (from_journal j) p \<in> {IntentDurable, ConsumingOutcomeUnknown} \<and>
      step_for_permit j p = Some (as_str (pa_step_id a))} = open_actions j plan (unresolved_permits j)"
    by (auto simp: open_actions_def unresolved_permits_def)
  have k: "(\<forall>p \<in> unresolved_permits j. step_known j plan p) \<longleftrightarrow>
      unresolved_permits j \<subseteq> {p. \<exists>a. a \<in> open_actions j plan (unresolved_permits j) \<and> step_for_permit j p = Some (as_str (pa_step_id a))}"
    unfolding step_known_def open_actions_def by blast
  have d: "es_data_impact (pes_effects ?u) =
      (if es_persistent (pes_effects ?u) = [] \<and> pes_completeness ?u = Bounded then es_data_impact read_only else di)"
    by (simp add: possible_effects_def Let_def read_only_def split: prod.splits)
  have b: "(\<forall>a \<in> open_actions j plan (unresolved_permits j). effect_of a \<noteq> EffectUnbounded) \<longleftrightarrow>
      open_actions j plan (unresolved_permits j) \<inter> {a. effect_of a = EffectUnbounded} = {}" by blast
  show ?thesis
    using possible_effects_holds [of j plan di, unfolded union_holds_def prod.case k b] d
    unfolding Let_def o unresolved_permits_def [symmetric] Bex_def by blast
qed

text \<open>
  C8. An eligible recovery covers every uncertainty. When the assessment of what a journal leaves open is eligible, the
  profile publishes complete-overwrite coverage, something is open, and every action of every unresolved step either
  changes nothing that persists or changes a partition that the recovery covers; the assessment lists all of these
  effects.
\<close>

theorem eligible_covers_uncertainty:
  assumes "assess_superseding_recovery (possible_effects j plan di) recovery = Eligible effects"
    and "ledger_disposition (from_journal j) p \<in> {IntentDurable, ConsumingOutcomeUnknown}"
  shows "rd_supports_complete_overwrite recovery \<and> effects \<noteq> [] \<and>
    (\<exists>a \<in> set (spp_actions plan). step_for_permit j p = Some (as_str (pa_step_id a))) \<and>
    (\<forall>a \<in> set (spp_actions plan). step_for_permit j p = Some (as_str (pa_step_id a)) \<longrightarrow> effect_of a = NoEffect \<or>
      (\<exists>e part. effect_of a = PersistentBound e \<and> e \<in> set effects \<and> effect_partition e = Some part \<and>
        part \<in> set (rd_covered_effects recovery)))"
proof -
  let ?u = "possible_effects j plan di"
  from assms(1) have e: "pes_completeness ?u = Bounded" "effects = es_persistent (pes_effects ?u)" "effects \<noteq> []"
    "rd_supports_complete_overwrite recovery" "\<forall>e \<in> set effects. covered e recovery"
    by (auto simp: assess_superseding_recovery_def Let_def filter_empty_conv split: if_splits)
      (cases "pes_completeness ?u"; simp)
  have p: "p \<in> unresolved_permits j" using assms(2) by (simp add: unresolved_permits_def)
  note h = possible_effects_holds [of j plan di, unfolded union_holds_def prod.case]
  have "effect_of a = NoEffect \<or> (\<exists>e part. effect_of a = PersistentBound e \<and> e \<in> set effects \<and> effect_partition e = Some part \<and>
        part \<in> set (rd_covered_effects recovery))"
    if a: "a \<in> set (spp_actions plan)" "step_for_permit j p = Some (as_str (pa_step_id a))" for a
  proof -
    have open_a: "a \<in> open_actions j plan (unresolved_permits j)" using a p by (auto simp: open_actions_def)
    then have "effect_of a \<noteq> EffectUnbounded" using h e(1) by blast
    moreover have "\<exists>part. effect_partition x = Some part \<and> part \<in> set (rd_covered_effects recovery)" "x \<in> set effects"
      if "effect_of a = PersistentBound x" for x
    proof -
      show x: "x \<in> set effects" using h e(2) open_a that by blast
      show "\<exists>part. effect_partition x = Some part \<and> part \<in> set (rd_covered_effects recovery)"
        using bspec [OF e(5) x] by (auto simp: covered_def list_ex_iff as_str_eq_iff split: option.splits)
    qed
    ultimately show ?thesis by (cases "effect_of a") auto
  qed
  then show ?thesis using e h p unfolding step_known_def by blast
qed

theorem eligible_covers_uncertainty_witness:
  "assess_superseding_recovery (possible_effects [ex_open_record] \<lparr>spp_actions = [ex_action Destructive]\<rparr> all_unknown)
     \<lparr>rd_supports_complete_overwrite = True, rd_version = \<lparr>ver_major = 1, ver_minor = 0, ver_patch = 0\<rparr>,
       rd_covered_effects = [OpaqueId ''boot''], rd_unsupported_states = []\<rparr> =
     Eligible [WritePartition (OpaqueId ''boot'') ex_range 7] \<and>
   effect_of (ex_action Destructive) = PersistentBound (WritePartition (OpaqueId ''boot'') ex_range 7)"
proof -
  let ?plan = "\<lparr>spp_actions = [ex_action Destructive]\<rparr>" and ?r = "\<lparr>rd_supports_complete_overwrite = True,
    rd_version = \<lparr>ver_major = 1, ver_minor = 0, ver_patch = 0\<rparr>, rd_covered_effects = [OpaqueId ''boot''], rd_unsupported_states = []\<rparr>"
  have e: "effect_of (ex_action Destructive) = PersistentBound (WritePartition (OpaqueId ''boot'') ex_range 7)"
    by (simp add: effect_of_def ex_action_def)
  have k: "as_str (pa_step_id (ex_action Destructive)) = ''s1''" by (simp add: ex_action_def)
  have a: "assess_superseding_recovery (possible_effects [ex_open_record] ?plan all_unknown) ?r =
      Eligible [WritePartition (OpaqueId ''boot'') ex_range 7]"
    by (simp add: possible_effects_def ex_ledger consider_permit_def ex_open_step k consider_action_def e
        assess_superseding_recovery_def covered_def)
  have "ledger_disposition (from_journal [ex_open_record]) ''permit-1'' \<in> {IntentDurable, ConsumingOutcomeUnknown}"
    using ex_unresolved by (auto simp: unresolved_permits_def)
  from eligible_covers_uncertainty [OF a this] a e show ?thesis by simp
qed

text \<open>
  Reconciling decides by all observations. It reports success exactly when something was observed and all of it was
  present, not executed exactly when something was observed and all of it was absent, partial with the two counts when
  everything was observed and both occurred, and otherwise that the outcome is still unknown.
\<close>

theorem reconcile_decides:
  "let seen = snd ` set observations in
   (reconcile observations = ReconcileSucceeded \<longleftrightarrow> seen = {Present}) \<and>
   (reconcile observations = ConfirmedNotExecuted \<longleftrightarrow> seen = {Absent}) \<and>
   (reconcile observations = ConfirmedPartial n m \<longleftrightarrow> seen = {Present, Absent} \<and>
      n = length (filter (\<lambda>x. x = Present) (map snd observations)) \<and>
      m = length (filter (\<lambda>x. x = Absent) (map snd observations))) \<and>
   ((\<exists>reason. reconcile observations = StillUnknown reason) \<longleftrightarrow> observations = [] \<or> Indeterminate \<in> seen)"
proof -
  let ?n = "\<lambda>x. length (filter (\<lambda>y. y = x) (map snd observations))"
  have c: "length (filter (\<lambda>(_, y). y = x) observations) = ?n x" for x by (simp add: filter_map comp_def case_prod_unfold)
  have s: "0 < ?n x \<longleftrightarrow> x \<in> snd ` set observations" for x by (auto simp: filter_empty_conv)
  have l: "length observations = ?n Present + ?n Absent + ?n Indeterminate"
  proof (induction observations)
    case (Cons x xs)
    then show ?case by (cases "snd x") auto
  qed simp
  have r: "reconcile observations = (if observations = [] then StillUnknown ''no declared effect was observed''
      else if 0 < ?n Indeterminate then StillUnknown (display_nat (?n Indeterminate) @ '' of '' @ display_nat (length observations) @
            '' declared effects could not be observed; the read face does not reach them (architecture.md 16.4)'')
      else if ?n Absent = 0 then ReconcileSucceeded else if ?n Present = 0 then ConfirmedNotExecuted
      else ConfirmedPartial (?n Present) (?n Absent))"
    using l unfolding reconcile_def Let_def c by auto
  have e: "snd ` set observations = {x. 0 < ?n x}" using s by auto
  have all_x: "(\<forall>x. P x) \<longleftrightarrow> P Present \<and> P Absent \<and> P Indeterminate" for P by (metis effect_observation.exhaust)
  have n: "observations = [] \<longleftrightarrow> ?n Present = 0 \<and> ?n Absent = 0 \<and> ?n Indeterminate = 0" using l by auto
  have i: "{x. 0 < ?n x} = {Present} \<longleftrightarrow> 0 < ?n Present \<and> ?n Absent = 0 \<and> ?n Indeterminate = 0"
    "{x. 0 < ?n x} = {Absent} \<longleftrightarrow> ?n Present = 0 \<and> 0 < ?n Absent \<and> ?n Indeterminate = 0"
    "{x. 0 < ?n x} = {Present, Absent} \<longleftrightarrow> 0 < ?n Present \<and> 0 < ?n Absent \<and> ?n Indeterminate = 0"
    unfolding set_eq_iff all_x by simp_all
  show ?thesis unfolding Let_def r e i n by auto
qed

text \<open>
  C34. An understated action hides its write. There is a plan whose projection is accepted and whose only step writes a
  partition, and a journal that leaves this step open, such that the union of possible effects is bounded, empty and
  says that all data is preserved: the accepted action calls itself read-only.
\<close>

theorem understated_action_hides_write:
  "\<exists>steps plan es d j. validate_projection steps plan es = Some (Inr d) \<and> map ps_kind steps = [KWriteTarget] \<and>
     map (Some \<circ> as_str \<circ> ps_step_id) steps = map (step_for_permit j) (ledger_unresolved (from_journal j)) \<and>
     pes_completeness (possible_effects j plan di) = Bounded \<and> es_persistent (pes_effects (possible_effects j plan di)) = [] \<and>
     es_data_impact (pes_effects (possible_effects j plan di)) = es_data_impact read_only"
proof -
  let ?plan = "\<lparr>spp_actions = [ex_action ReadOnly]\<rparr>" and ?j = "[ex_open_record]"
  obtain d where d: "validate_projection [ex_step ReadOnly] ?plan ex_effects = Some (Inr d)" using ex_projection by blast
  have k: "as_str (pa_step_id (ex_action ReadOnly)) = ''s1''" "effect_of (ex_action ReadOnly) = NoEffect"
    by (simp_all add: ex_action_def effect_of_def)
  have p: "possible_effects ?j ?plan di = \<lparr>pes_effects = \<lparr>es_persistent = [], es_transient = [], es_data_impact = es_data_impact read_only\<rparr>,
      pes_completeness = Bounded, pes_source_action_ids = [pa_action_id (ex_action ReadOnly)]\<rparr>"
    by (simp add: possible_effects_def ex_ledger consider_permit_def ex_open_step k consider_action_def read_only_def)
  have "map ps_kind [ex_step ReadOnly] = [KWriteTarget]" "as_str (ps_step_id (ex_step ReadOnly)) = ''s1''"
    by (simp_all add: ex_step_def)
  with d p show ?thesis
    by (intro exI [of _ "[ex_step ReadOnly]"] exI [of _ ?plan] exI [of _ ex_effects] exI [of _ d] exI [of _ ?j])
      (simp add: ex_ledger ex_open_step)
qed

end
