(* ===== verification/Plan_Codec.thy ===== *)
theory Plan_Codec
  imports Plan Cbor_Fields
begin

text \<open>
  \<open>crates/arkforge-engine/src/plan_codec.rs\<close>: the private storage form of a sealed plan. Writing validates the plan first;
  reading decodes every field, seals the plan again and accepts only what it would write back as the same bytes. The
  errors of the source are texts; a text that it writes itself is \<open>CodecText\<close>, one that comes from printing another
  error keeps that error. \<^term>\<open>None\<close> is an abort, as in \<open>Projection\<close>.
\<close>

section \<open>Readers of single values\<close>

datatype codec_error =
    CodecText string
  | CodecCbor cbor_error
  | CodecId id_error
  | CodecEffect effect_error
  | CodecPlan plan_error
  | CodecProjection projection_error
  | CodecIntRange

record stored_plan =
  st_envelope :: flash_plan_envelope
  st_private_plan :: stored_provider_plan

definition MAX_BYTES :: u64 where
  "MAX_BYTES = 8 * 1024 * 1024"

fun codec_map :: "cbor \<Rightarrow> codec_error + (cbor \<times> cbor) list" where
  "codec_map (CMap items) = Inr items"
| "codec_map _ = Inl (CodecText ''expected map'')"

fun codec_array :: "cbor \<Rightarrow> codec_error + cbor list" where
  "codec_array (CArray items) = Inr items"
| "codec_array _ = Inl (CodecText ''expected array'')"

definition codec_field :: "cbor \<Rightarrow> string \<Rightarrow> codec_error + cbor" where
  "codec_field value key =
     rbind (codec_map value) (\<lambda>items. ok_or (map_option snd (find (\<lambda>(name, v). name = CText key) items))
       (CodecText (''missing sealed field '' @ key)))"

definition codec_list :: "(cbor \<Rightarrow> codec_error + 'a) \<Rightarrow> cbor \<Rightarrow> codec_error + 'a list" where
  "codec_list dec value = rbind (codec_array value) (try_map dec)"

fun codec_text :: "cbor \<Rightarrow> codec_error + string" where
  "codec_text (CText text) = Inr text"
| "codec_text _ = Inl (CodecText ''expected text'')"

fun codec_byte_string :: "cbor \<Rightarrow> codec_error + bytes" where
  "codec_byte_string (CBytes bs) = Inr bs"
| "codec_byte_string _ = Inl (CodecText ''expected bytes'')"

fun codec_uint :: "cbor \<Rightarrow> codec_error + u64" where
  "codec_uint (CUnsigned n) = Inr n"
| "codec_uint _ = Inl (CodecText ''expected unsigned integer'')"

definition codec_u32 :: "cbor \<Rightarrow> codec_error + u32" where
  "codec_u32 value = rbind (codec_uint value) (\<lambda>n. if unat n < 2 ^ 32 then Inr (ucast n) else Inl CodecIntRange)"

fun codec_boolean :: "cbor \<Rightarrow> codec_error + bool" where
  "codec_boolean (CBool b) = Inr b"
| "codec_boolean _ = Inl (CodecText ''expected boolean'')"

definition codec_optional :: "(cbor \<Rightarrow> codec_error + 'a) \<Rightarrow> cbor \<Rightarrow> codec_error + 'a option" where
  "codec_optional dec value = (if value = CNull then Inr None else rbind (dec value) (\<lambda>x. Inr (Some x)))"

definition codec_digest :: "cbor \<Rightarrow> codec_error + sha256_digest" where
  "codec_digest value = rbind (codec_byte_string value) (\<lambda>bs.
     if length bs = 32 then Inr (from_bytes bs) else Inl (CodecText ''digest must be 32 bytes''))"

definition codec_opaque :: "cbor \<Rightarrow> codec_error + opaque_id" where
  "codec_opaque value = rbind (codec_text value) (\<lambda>t. map_err CodecId (opaque_id_new t))"

definition codec_version :: "cbor \<Rightarrow> codec_error + version" where
  "codec_version value = rbind (codec_array value) (\<lambda>items.
     case items of
       [major, minor, patch] \<Rightarrow>
         rbind (codec_u32 major) (\<lambda>ma. rbind (codec_u32 minor) (\<lambda>mi. rbind (codec_u32 patch) (\<lambda>pa.
           Inr \<lparr>ver_major = ma, ver_minor = mi, ver_patch = pa\<rparr>)))
     | _ \<Rightarrow> Inl (CodecText ''version must have three components''))"

definition codec_mode :: "cbor \<Rightarrow> codec_error + device_mode" where
  "codec_mode value = rbind (codec_text value) (\<lambda>t. map_err CodecEffect (device_mode_new t))"

definition codec_range :: "cbor \<Rightarrow> codec_error + byte_range" where
  "codec_range value =
     rbind (rbind (codec_field value ''start'') codec_uint) (\<lambda>start.
     rbind (rbind (codec_field value ''length'') codec_uint) (\<lambda>len.
       map_err CodecEffect (byte_range_new start len)))"

definition codec_boot_field :: "cbor \<Rightarrow> codec_error + boot_metadata_field" where
  "codec_boot_field value = rbind (codec_text value) (\<lambda>t.
     if t = ''activeSlot'' then Inr ActiveSlot
     else if t = ''bootCount'' then Inr BootCount
     else if t = ''updaterCommand'' then Inr UpdaterCommand
     else if t = ''lockState'' then Inr LockState
     else Inl (CodecText ''unknown boot metadata field''))"

definition codec_target :: "cbor \<Rightarrow> codec_error + semantic_target" where
  "codec_target value = rbind (codec_map value) (\<lambda>items.
     case items of
       [(key, v)] \<Rightarrow> rbind (codec_text key) (\<lambda>k.
         if k = ''partition'' then rbind (codec_opaque v) (\<lambda>i. Inr (TPartition i))
         else if k = ''rawRegion'' then rbind (codec_opaque v) (\<lambda>i. Inr (TRawRegion i))
         else if k = ''bootMetadata'' then rbind (codec_boot_field v) (\<lambda>f. Inr (TBootMetadata f))
         else if k = ''device'' \<and> v = CNull then Inr TDevice
         else Inl (CodecText ''unknown semantic target''))
     | _ \<Rightarrow> Inl (CodecText ''semantic target must have one field''))"

definition codec_parse :: "(string \<Rightarrow> 'a option) \<Rightarrow> string \<Rightarrow> cbor \<Rightarrow> codec_error + 'a" where
  "codec_parse parse err value = rbind (codec_text value) (\<lambda>t. ok_or (parse t) (CodecText err))"

definition codec_workflow_effect :: "cbor \<Rightarrow> codec_error + workflow_effect" where
  "codec_workflow_effect = codec_parse effect_parse ''unknown workflow effect''"

section \<open>Readers of records\<close>

abbreviation codec_at :: "(cbor \<Rightarrow> codec_error + 'a) \<Rightarrow> cbor \<Rightarrow> string \<Rightarrow> codec_error + 'a" where
  "codec_at dec value key \<equiv> rbind (codec_field value key) dec"

definition codec_step :: "cbor \<Rightarrow> codec_error + public_flash_step" where
  "codec_step value =
     rbind (codec_at codec_opaque value ''stepId'') (\<lambda>step_id.
     rbind (codec_at (codec_parse step_kind_parse ''unknown step kind'') value ''kind'') (\<lambda>kind.
     rbind (codec_at codec_workflow_effect value ''effect'') (\<lambda>eff.
     rbind (codec_at (codec_parse cancellation_parse ''unknown cancellation policy'') value ''cancellation'') (\<lambda>cancellation.
     rbind (codec_at (codec_parse binding_parse ''unknown binding requirement'') value ''binding'') (\<lambda>bnd.
     rbind (codec_at (codec_optional codec_target) value ''semanticTarget'') (\<lambda>target.
     rbind (codec_at (codec_optional codec_digest) value ''contentDigest'') (\<lambda>content.
     rbind (codec_at (codec_optional codec_mode) value ''expectedModeBefore'') (\<lambda>before.
     rbind (codec_at (codec_optional codec_mode) value ''expectedModeAfter'') (\<lambda>after.
     rbind (codec_at codec_digest value ''privateActionDigest'') (\<lambda>digest.
       Inr \<lparr>ps_step_id = step_id, ps_kind = kind, ps_effect = eff, ps_cancellation = cancellation, ps_binding = bnd,
         ps_semantic_target = target, ps_content_digest = content, ps_expected_mode_before = before,
         ps_expected_mode_after = after, ps_private_action_digest = digest\<rparr>))))))))))"

definition codec_role :: "cbor \<Rightarrow> codec_error + private_action_role" where
  "codec_role value = rbind (codec_text value) (\<lambda>t.
     if t = ''primaryEffect'' then Inr PrimaryEffect
     else if t = ''readOnlyTransportSubAction'' then Inr ReadOnlyTransportSubAction
     else Inl (CodecText ''unknown action role''))"

definition codec_action :: "cbor \<Rightarrow> codec_error + private_action_record" where
  "codec_action value =
     rbind (codec_at codec_opaque value ''actionId'') (\<lambda>action_id.
     rbind (codec_at codec_opaque value ''stepId'') (\<lambda>step_id.
     rbind (codec_at codec_role value ''role'') (\<lambda>role.
     rbind (codec_at codec_workflow_effect value ''effectClass'') (\<lambda>eff.
     rbind (codec_at (codec_optional codec_target) value ''declaredTarget'') (\<lambda>target.
     rbind (codec_at (codec_optional codec_range) value ''declaredRange'') (\<lambda>rng.
     rbind (codec_at (codec_optional codec_digest) value ''contentDigest'') (\<lambda>content.
     rbind (codec_field value ''body'') (\<lambda>body.
       Inr \<lparr>pa_action_id = action_id, pa_step_id = step_id, pa_role = role, pa_effect_class = eff,
         pa_declared_target = target, pa_declared_range = rng, pa_content_digest = content, pa_body = body\<rparr>))))))))"

definition codec_binding :: "cbor \<Rightarrow> codec_error + authority_binding_ref" where
  "codec_binding value =
     rbind (codec_at codec_opaque value ''authorityNamespace'') (\<lambda>ns.
     rbind (codec_at codec_opaque value ''bindingId'') (\<lambda>i.
     rbind (codec_at codec_uint value ''bindingRevision'') (\<lambda>r.
     rbind (codec_at codec_digest value ''stableIdentityDigest'') (\<lambda>d.
       Inr \<lparr>abr_authority_namespace = ns, abr_binding_id = i, abr_binding_revision = r, abr_stable_identity_digest = d\<rparr>))))"

definition codec_provider :: "cbor \<Rightarrow> codec_error + provider_identity" where
  "codec_provider value =
     rbind (codec_at codec_opaque value ''id'') (\<lambda>i.
     rbind (codec_at codec_version value ''version'') (\<lambda>v.
     rbind (codec_at codec_digest value ''implementationDigest'') (\<lambda>d.
       Inr \<lparr>prov_id = i, prov_version = v, prov_implementation_digest = d\<rparr>)))"

definition codec_profile :: "cbor \<Rightarrow> codec_error + device_profile_identity" where
  "codec_profile value =
     rbind (codec_at codec_opaque value ''id'') (\<lambda>i.
     rbind (codec_at codec_version value ''version'') (\<lambda>v.
     rbind (codec_at codec_digest value ''digest'') (\<lambda>d.
       Inr \<lparr>prof_id = i, prof_version = v, prof_digest = d\<rparr>)))"

definition codec_artifact :: "cbor \<Rightarrow> codec_error + artifact_identity" where
  "codec_artifact value =
     rbind (codec_field value ''format'') (\<lambda>format.
     rbind (codec_at codec_opaque value ''artifactId'') (\<lambda>i.
     rbind (codec_at codec_opaque format ''id'') (\<lambda>fi.
     rbind (codec_at codec_version format ''version'') (\<lambda>fv.
     rbind (codec_at codec_digest value ''contentDigest'') (\<lambda>c.
     rbind (codec_at codec_uint value ''sizeBytes'') (\<lambda>s.
     rbind (codec_at codec_digest value ''manifestDigest'') (\<lambda>m.
       Inr \<lparr>art_artifact_id = i, art_format = \<lparr>af_id = fi, af_version = fv\<rparr>, art_content_digest = c,
         art_size_bytes = s, art_manifest_digest = m\<rparr>)))))))"

definition codec_toolchain :: "cbor \<Rightarrow> codec_error + toolchain_identity" where
  "codec_toolchain value =
     rbind (codec_at codec_opaque value ''id'') (\<lambda>i.
     rbind (codec_at (codec_parse toolchain_kind_parse ''unknown toolchain kind'') value ''kind'') (\<lambda>k.
     rbind (codec_at codec_version value ''version'') (\<lambda>v.
     rbind (codec_at codec_digest value ''backendDigest'') (\<lambda>d.
     rbind (codec_at (codec_optional codec_text) value ''upstreamRef'') (\<lambda>u.
       Inr \<lparr>tc_id = i, tc_kind = k, tc_version = v, tc_backend_digest = d, tc_upstream_ref = u\<rparr>)))))"

definition codec_maturity :: "cbor \<Rightarrow> codec_error + maturity_state" where
  "codec_maturity value =
     (let blocker = codec_at codec_text value ''blocker'' in
      rbind (codec_at codec_text value ''state'') (\<lambda>t.
        if t = ''productionVerified'' then Inr ProductionVerified
        else if t = ''hardwareCampaign'' then rbind (codec_at codec_text value ''campaign'') (\<lambda>c. Inr (HardwareCampaign c))
        else if t = ''hardwareGated'' then rbind blocker (\<lambda>b. Inr (HardwareGated b))
        else if t = ''planOnly'' then rbind blocker (\<lambda>b. Inr (PlanOnly b))
        else if t = ''researchOnly'' then rbind blocker (\<lambda>b. Inr (ResearchOnly b))
        else if t = ''unavailable'' then rbind blocker (\<lambda>b. Inr (Unavailable b))
        else Inl (CodecText ''unknown maturity state'')))"

definition codec_authority_support :: "cbor \<Rightarrow> codec_error + authority_support_binding" where
  "codec_authority_support value =
     rbind (codec_field value ''state'') (\<lambda>state.
     rbind (codec_at codec_digest value ''keyDigest'') (\<lambda>d.
     rbind (codec_at codec_text state ''state'') (\<lambda>t.
     rbind (if t = ''productionVerified'' then Inr ASProductionVerified
            else if t = ''hardwareCampaign'' then rbind (codec_at codec_text state ''campaign'') (\<lambda>c. Inr (ASHardwareCampaign c))
            else if t = ''hardwareGated'' then rbind (codec_at codec_text state ''blocker'') (\<lambda>b. Inr (ASHardwareGated b))
            else Inl (CodecText ''unknown authority support state'')) (\<lambda>s.
       Inr \<lparr>asb_key_digest = d, asb_state = s\<rparr>))))"

definition codec_recovery_contract :: "cbor \<Rightarrow> codec_error + recovery_contract_ref" where
  "codec_recovery_contract value =
     rbind (codec_at codec_opaque value ''id'') (\<lambda>i.
     rbind (codec_at codec_version value ''version'') (\<lambda>v.
     rbind (codec_at codec_digest value ''digest'') (\<lambda>d.
       Inr \<lparr>rcr_id = i, rcr_version = v, rcr_digest = d\<rparr>)))"

text \<open>\<open>map(value)?.iter().map(|(key, value)| Ok((opaque(key)?, f(value)?))).collect()\<close>\<close>

definition codec_pairs :: "(cbor \<Rightarrow> codec_error + 'a) \<Rightarrow> cbor \<Rightarrow> codec_error + (opaque_id \<times> 'a) list" where
  "codec_pairs dec value = rbind (codec_map value)
     (try_map (\<lambda>(k, v). rbind (codec_opaque k) (\<lambda>i. rbind (dec v) (\<lambda>x. Inr (i, x)))))"

definition codec_postflight :: "cbor \<Rightarrow> codec_error + postflight_policy" where
  "codec_postflight value =
     rbind (codec_at codec_boolean value ''requireExactTargetLineage'') (\<lambda>l.
     rbind (codec_at (codec_optional codec_mode) value ''requireMode'') (\<lambda>m.
     rbind (codec_at (codec_pairs codec_text) value ''requiredRuntimeFacts'') (\<lambda>fs.
       Inr \<lparr>pf_require_exact_target_lineage = l, pf_require_mode = m, pf_required_runtime_facts = fs\<rparr>)))"

definition codec_impact :: "cbor \<Rightarrow> codec_error + data_impact_state" where
  "codec_impact value = rbind (codec_text value) (\<lambda>t.
     if t = ''preserved'' then Inr Preserved
     else if t = ''overwritten'' then Inr Overwritten
     else if t = ''unknown'' then Inr ImpactUnknown
     else Inl (CodecText ''unknown data impact''))"

definition codec_typed_value :: "cbor \<Rightarrow> codec_error + typed_value" where
  "codec_typed_value value = rbind (codec_map value) (\<lambda>items.
     case items of
       [(key, v)] \<Rightarrow> rbind (codec_text key) (\<lambda>k.
         if k = ''text'' then rbind (codec_text v) (\<lambda>t. Inr (TVText t))
         else if k = ''bool'' then rbind (codec_boolean v) (\<lambda>b. Inr (TVBool b))
         else if k = ''integer'' then
           rbind (case v of
              CNegative n \<Rightarrow> Inr n
            | CUnsigned n \<Rightarrow> if unat n < 2 ^ 63 then Inr n else Inl CodecIntRange
            | _ \<Rightarrow> Inl (CodecText ''expected integer'')) (\<lambda>i. Inr (TVInteger i))
         else Inl (CodecText ''unknown typed value''))
     | _ \<Rightarrow> Inl (CodecText ''typed value must have one field''))"

definition codec_persistent :: "cbor \<Rightarrow> codec_error + persistent_effect" where
  "codec_persistent value =
     rbind (codec_at codec_text value ''kind'') (\<lambda>t.
       if t = ''erasePartition'' then
         rbind (codec_at codec_opaque value ''partition'') (\<lambda>p.
         rbind (codec_at codec_range value ''range'') (\<lambda>r. Inr (ErasePartition p r)))
       else if t = ''writePartition'' then
         rbind (codec_at codec_opaque value ''partition'') (\<lambda>p.
         rbind (codec_at codec_range value ''range'') (\<lambda>r.
         rbind (codec_at codec_digest value ''content'') (\<lambda>c. Inr (WritePartition p r c))))
       else if t = ''writeRawRegion'' then
         rbind (codec_at codec_opaque value ''region'') (\<lambda>g.
         rbind (codec_at codec_range value ''range'') (\<lambda>r.
         rbind (codec_at codec_digest value ''content'') (\<lambda>c. Inr (WriteRawRegion g r c))))
       else if t = ''replacePartitionTable'' then
         rbind (codec_at codec_digest value ''layoutDigest'') (\<lambda>d. Inr (ReplacePartitionTable d))
       else if t = ''changeBootMetadata'' then
         rbind (codec_at codec_boot_field value ''field'') (\<lambda>f.
         rbind (codec_at codec_typed_value value ''expectedValue'') (\<lambda>v. Inr (ChangeBootMetadata f v)))
       else Inl (CodecText ''unknown persistent effect''))"

definition codec_stage :: "cbor \<Rightarrow> codec_error + agent_stage" where
  "codec_stage value = rbind (codec_text value) (\<lambda>t. map_err CodecEffect (agent_stage_new t))"

definition codec_transient :: "cbor \<Rightarrow> codec_error + transient_effect" where
  "codec_transient value =
     rbind (codec_at codec_text value ''kind'') (\<lambda>t.
       if t = ''enterMode'' then
         rbind (codec_at codec_mode value ''from'') (\<lambda>f.
         rbind (codec_at codec_mode value ''to'') (\<lambda>t. Inr (EnterMode f t)))
       else if t = ''loadEphemeralAgent'' then
         rbind (codec_field value ''memoryRegion'') (\<lambda>region.
         rbind (codec_at codec_stage value ''stage'') (\<lambda>s.
         rbind (codec_at codec_uint region ''baseAddress'') (\<lambda>b.
         rbind (codec_at codec_uint region ''length'') (\<lambda>l.
         rbind (codec_at codec_digest value ''content'') (\<lambda>c.
           Inr (LoadEphemeralAgent s \<lparr>mr_base_address = b, mr_length = l\<rparr> c))))))
       else if t = ''usbDetachReattach'' then
         rbind (codec_at codec_digest value ''expectationDigest'') (\<lambda>d. Inr (UsbDetachReattach d))
       else if t = ''reboot'' then
         rbind (codec_at codec_mode value ''targetMode'') (\<lambda>m. Inr (Reboot m))
       else Inl (CodecText ''unknown transient effect''))"

definition codec_effects :: "cbor \<Rightarrow> codec_error + effect_set" where
  "codec_effects value =
     rbind (codec_field value ''dataImpact'') (\<lambda>data.
     rbind (codec_at (codec_list codec_persistent) value ''persistent'') (\<lambda>ps.
     rbind (codec_at (codec_list codec_transient) value ''transient'') (\<lambda>ts.
     rbind (codec_at codec_impact data ''userdata'') (\<lambda>u.
     rbind (codec_at codec_impact data ''calibration'') (\<lambda>c.
     rbind (codec_at codec_impact data ''nonVolatileConfig'') (\<lambda>n.
     rbind (codec_at codec_impact data ''secureStorage'') (\<lambda>s.
       Inr \<lparr>es_persistent = ps, es_transient = ts, es_data_impact = \<lparr>di_userdata = u, di_calibration = c,
         di_non_volatile_config = n, di_secure_storage = s\<rparr>\<rparr>)))))))"

section \<open>Validating, writing and reading a stored plan\<close>

definition plan_validate :: "stored_plan \<Rightarrow> (codec_error + unit) option" where
  "plan_validate plan =
     (let e = st_envelope plan in
      if fp_schema_version e \<noteq> plan_schema_CURRENT then Some (Inl (CodecText ''unsupported sealed plan schema''))
      else
        abind (Some (map_err CodecPlan (verify_self_digest e))) (\<lambda>_.
        abind (map_option (map_err CodecEffect) (validate_executable (fp_effect_set e))) (\<lambda>_.
        if fp_expires_at_epoch_ms e \<le> fp_created_at_epoch_ms e then
          Some (Inl (CodecText ''sealed plan expiry precedes creation''))
        else
          abind (map_option (map_err CodecProjection)
            (validate_projection (fp_public_steps e) (st_private_plan plan) (fp_effect_set e))) (\<lambda>projection.
          if pd_per_action projection \<noteq> fp_per_action_digests e \<or>
            pd_provider_execution_plan_digest projection \<noteq> fp_provider_execution_plan_digest e \<or>
            pd_public_projection_digest projection \<noteq> fp_public_projection_digest e
          then Some (Inl (CodecText ''stored private plan does not match the sealed projection''))
          else Some (Inr ())))))"

definition storage_cbor :: "stored_plan \<Rightarrow> bytes \<Rightarrow> cbor" where
  "storage_cbor plan body = cbor_map
     [(''storageVersion'', CUnsigned 1),
      (''planDigest'', digest_to_cbor (fp_plan_digest (st_envelope plan))),
      (''envelope'', CBytes body),
      (''privateActions'', CArray (map action_to_cbor (spp_actions (st_private_plan plan))))]"

definition plan_encode :: "stored_plan \<Rightarrow> (codec_error + bytes) option" where
  "plan_encode plan =
     abind (plan_validate plan) (\<lambda>_.
     abind (Some (map_err CodecPlan (digest_body_bytes (st_envelope plan)))) (\<lambda>body.
     abind (Some (map_err CodecCbor (encode (storage_cbor plan body)))) (\<lambda>bs.
       if MAX_BYTES < of_nat (length bs) then Some (Inl (CodecText ''sealed plan exceeds the storage size bound''))
       else Some (Inr bs))))"

text \<open>The seal input that \<open>decode\<close> reads from the body, in the order in which the source reads it.\<close>

definition codec_seal_input ::
  "cbor \<Rightarrow> plan_schema_version \<Rightarrow> public_flash_step list \<Rightarrow> effect_set \<Rightarrow> projection_digests \<Rightarrow> codec_error + plan_seal_input" where
  "codec_seal_input body schema steps es projection =
     rbind (codec_at codec_opaque body ''planId'') (\<lambda>plan_id.
     rbind (codec_at (codec_parse purpose_parse ''unknown execution purpose'') body ''executionPurpose'') (\<lambda>purpose.
     rbind (codec_at codec_binding body ''authorityBinding'') (\<lambda>bnd.
     rbind (codec_at codec_provider body ''provider'') (\<lambda>provider.
     rbind (codec_at codec_profile body ''profile'') (\<lambda>profile.
     rbind (codec_at codec_artifact body ''artifact'') (\<lambda>artifact.
     rbind (codec_at codec_toolchain body ''toolchain'') (\<lambda>toolchain.
     rbind (codec_at codec_maturity body ''maturity'') (\<lambda>maturity.
     rbind (codec_at codec_authority_support body ''authoritySupport'') (\<lambda>support.
     rbind (codec_at (codec_pairs codec_boolean) body ''negotiatedCapabilities'') (\<lambda>entries.
     rbind (codec_at (codec_optional codec_recovery_contract) body ''recoveryContract'') (\<lambda>contract.
     rbind (codec_at codec_postflight body ''postflight'') (\<lambda>postflight.
     rbind (codec_at codec_uint body ''createdAtEpochMs'') (\<lambda>created.
     rbind (codec_at codec_uint body ''expiresAtEpochMs'') (\<lambda>expires.
       Inr \<lparr>si_schema_version = schema, si_plan_id = plan_id, si_execution_purpose = purpose, si_authority_binding = bnd,
         si_provider = provider, si_profile = profile, si_artifact = artifact, si_toolchain = toolchain,
         si_maturity = maturity, si_authority_support = support, si_negotiated_capabilities = \<lparr>nc_entries = entries\<rparr>,
         si_public_steps = steps, si_effect_set = es, si_projection = projection, si_recovery_contract = contract,
         si_postflight = postflight, si_created_at_epoch_ms = created, si_expires_at_epoch_ms = expires\<rparr>))))))))))))))"

definition plan_decode :: "bytes \<Rightarrow> (codec_error + stored_plan) option" where
  "plan_decode bs =
     (if MAX_BYTES < of_nat (length bs) then Some (Inl (CodecText ''sealed plan exceeds the storage size bound''))
      else
        abind (Some (map_err CodecCbor (decode_canonical bs))) (\<lambda>storage.
        abind (Some (codec_at codec_uint storage ''storageVersion'')) (\<lambda>v.
        if v \<noteq> 1 then Some (Inl (CodecText ''unsupported private plan storage version''))
        else
          abind (Some (codec_at codec_byte_string storage ''envelope'')) (\<lambda>body_bytes.
          abind (Some (map_err CodecCbor (decode_canonical body_bytes))) (\<lambda>body.
          abind (Some (codec_at (codec_list codec_action) storage ''privateActions'')) (\<lambda>actions.
          abind (Some (codec_at (codec_list codec_step) body ''publicSteps'')) (\<lambda>steps.
          abind (Some (codec_at codec_effects body ''effectSet'')) (\<lambda>es.
          abind (map_option (map_err CodecProjection) (validate_projection steps \<lparr>spp_actions = actions\<rparr> es)) (\<lambda>projection.
          abind (Some (codec_at codec_digest body ''providerExecutionPlanDigest'')) (\<lambda>pd.
          abind (if pd_provider_execution_plan_digest projection \<noteq> pd then Some (Inr True)
            else Some (rbind (codec_at codec_digest body ''publicProjectionDigest'') (\<lambda>qd.
              Inr (pd_public_projection_digest projection \<noteq> qd)))) (\<lambda>differ.
          if differ then Some (Inl (CodecText ''private actions do not match sealed projection digests''))
          else
            abind (Some (codec_at codec_u32 body ''schemaVersion'')) (\<lambda>schema.
            if PlanSchemaVersion schema \<noteq> plan_schema_CURRENT then Some (Inl (CodecText ''unsupported sealed plan schema''))
            else
              abind (Some (codec_seal_input body (PlanSchemaVersion schema) steps es projection)) (\<lambda>input.
              abind (map_option (map_err CodecPlan) (seal input)) (\<lambda>envelope.
              abind (Some (codec_at codec_digest storage ''planDigest'')) (\<lambda>digest.
              abind (if fp_plan_digest envelope \<noteq> digest then Some (Inr True)
                else Some (rbind (map_err CodecPlan (digest_body_bytes envelope)) (\<lambda>b. Inr (b \<noteq> body_bytes)))) (\<lambda>differ.
              if differ then Some (Inl (CodecText ''sealed envelope bytes or digest do not match''))
              else
                let stored = \<lparr>st_envelope = envelope, st_private_plan = \<lparr>spp_actions = actions\<rparr>\<rparr> in
                abind (plan_encode stored) (\<lambda>again.
                  if again \<noteq> bs then Some (Inl (CodecText ''unsupported or inconsistent private plan storage fields''))
                  else Some (Inr stored))))))))))))))))))"

section \<open>What a reader promises\<close>

text \<open>The entries of a map keyed by identifiers, in the order of their encodings.\<close>

definition canon_pairs :: "(opaque_id \<times> 'a) list \<Rightarrow> (opaque_id \<times> 'a) list" where
  "canon_pairs es = sort_key (\<lambda>(k, v). projr (encode (id_to_cbor k))) es"

lemma set_canon_pairs [simp]: "set (canon_pairs es) = set es"
  by (simp add: canon_pairs_def)

lemma mset_canon_pairs [simp]: "mset (canon_pairs es) = mset es"
  by (simp add: canon_pairs_def)

lemma canon_pairs_cbor:
  "canon (CMap (map (\<lambda>(k, v). (id_to_cbor k, g v)) es)) = CMap (map (\<lambda>(k, v). (id_to_cbor k, canon (g v))) (canon_pairs es))"
proof -
  have "sort_key (\<lambda>e. projr (encode (fst e))) (map (\<lambda>(k, v). (id_to_cbor k, g v)) es) =
      map (\<lambda>(k, v). (id_to_cbor k, g v)) (canon_pairs es)"
    unfolding canon_pairs_def by (subst map_sort_key [symmetric]) (simp add: case_prod_unfold)
  moreover have "canon (id_to_cbor k) = id_to_cbor k" for k by (simp add: id_to_cbor_def)
  ultimately show ?thesis by (simp add: comp_def case_prod_unfold)
qed

text \<open>
  A reader of the codec belongs to a canonical form: on the canonical form of a value that satisfies \<open>ok\<close> it returns
  the value, up to \<open>norm\<close>. Such a form has well-formed texts, is nested at most \<open>depth\<close> deep and is never null, and
  so the readers of lists and of optional values keep the same promise.
\<close>

locale cbor_reader =
  fixes to_cbor :: "'a \<Rightarrow> cbor" and reader :: "cbor \<Rightarrow> codec_error + 'a" and ok :: "'a \<Rightarrow> bool"
    and norm :: "'a \<Rightarrow> 'a" and depth :: nat
  assumes reads: "ok x \<Longrightarrow> reader (canon (to_cbor x)) = Inr (norm x)"
    and texts: "ok x \<Longrightarrow> cbor_texts_wf (to_cbor x)"
    and deep: "ok x \<Longrightarrow> cbor_depth (to_cbor x) \<le> depth"
    and no_null: "canon (to_cbor x) \<noteq> CNull"
begin

lemma list_reads: "list_all ok xs \<Longrightarrow> codec_list reader (canon (CArray (map to_cbor xs))) = Inr (map norm xs)"
proof -
  assume "list_all ok xs"
  then have "try_map reader (map (\<lambda>x. canon (to_cbor x)) xs) = Inr (map norm xs)" by (induction xs) (simp_all add: reads)
  then show ?thesis by (simp add: codec_list_def comp_def)
qed

lemma list_texts: "list_all ok xs \<Longrightarrow> cbor_texts_wf (CArray (map to_cbor xs))"
  using texts by (induction xs) simp_all

lemma list_deep: "list_all ok xs \<Longrightarrow> cbor_depth (CArray (map to_cbor xs)) \<le> Suc depth"
  by (induction xs) (simp_all add: deep)

lemma opt_reads: "pred_option ok x \<Longrightarrow> codec_optional reader (canon (opt_cbor to_cbor x)) = Inr (map_option norm x)"
  by (cases x) (simp_all add: codec_optional_def opt_cbor_def reads no_null)

lemma opt_texts: "pred_option ok x \<Longrightarrow> cbor_texts_wf (opt_cbor to_cbor x)"
  by (cases x) (simp_all add: opt_cbor_def texts)

lemma opt_deep: "pred_option ok x \<Longrightarrow> cbor_depth (opt_cbor to_cbor x) \<le> depth"
  by (cases x) (simp_all add: opt_cbor_def deep)

lemma pairs_reads:
  assumes "list_all (\<lambda>(k, v). id_wf k \<and> ok v) es"
  shows "codec_pairs reader (canon (CMap (map (\<lambda>(k, v). (id_to_cbor k, to_cbor v)) es))) =
    Inr (map (\<lambda>(k, v). (k, norm v)) (canon_pairs es))"
proof -
  let ?f = "\<lambda>(k, v). rbind (codec_opaque k) (\<lambda>i. rbind (reader v) (\<lambda>x. Inr (i, x)))"
  have "try_map ?f (map (\<lambda>(k, v). (id_to_cbor k, canon (to_cbor v))) xs) = Inr (map (\<lambda>(k, v). (k, norm v)) xs)"
    if "list_all (\<lambda>(k, v). id_wf k \<and> ok v) xs" for xs
    using that by (induction xs) (auto simp: codec_opaque_def id_to_cbor_def id_wf_def reads)
  moreover have "list_all (\<lambda>(k, v). id_wf k \<and> ok v) (canon_pairs es)" using assms by (simp add: list_all_iff)
  ultimately show ?thesis unfolding codec_pairs_def canon_pairs_cbor by simp
qed

lemma pairs_texts:
  "list_all (\<lambda>(k, v). id_wf k \<and> ok v) es \<Longrightarrow> cbor_texts_wf (CMap (map (\<lambda>(k, v). (id_to_cbor k, to_cbor v)) es))"
  by (induction es) (auto simp: texts)

end

named_theorems codec_reads \<open>readers on canonical forms\<close>

lemma codec_field_record [codec_reads]:
  assumes "distinct (map fst fs)"
  shows "codec_field (canon (cbor_map fs)) k =
    (case map_of fs k of Some v \<Rightarrow> Inr (canon v) | None \<Rightarrow> Inl (CodecText (''missing sealed field '' @ k)))"
  using cbor_field_canon [OF assms, of k]
  by (cases "map_of fs k")
    (auto simp: codec_field_def canon_record_entries cbor_field_def case_prod_unfold split: option.splits)

lemma record_no_null [codec_reads]: "canon (cbor_map fs) \<noteq> CNull"
  by (simp add: canon_cbor_map)

section \<open>Readers on canonical forms\<close>

lemmas literal_wf = ascii_string_wf byte_of_char_def

definition mode_ok :: "device_mode \<Rightarrow> bool" where
  "mode_ok m \<longleftrightarrow> device_mode_new (mode_str m) = Inr m \<and> string_wf (mode_str m)"

definition stage_ok :: "agent_stage \<Rightarrow> bool" where
  "stage_ok s \<longleftrightarrow> agent_stage_new (stage_str s) = Inr s \<and> string_wf (stage_str s)"

definition range_ok :: "byte_range \<Rightarrow> bool" where
  "range_ok r \<longleftrightarrow> byte_range_new (br_start r) (br_length r) = Inr r"

interpretation id_reader: cbor_reader id_to_cbor codec_opaque id_wf "\<lambda>x. x" 0
  by unfold_locales (simp_all add: codec_opaque_def id_to_cbor_def id_wf_def id_wf_string)

interpretation digest_reader: cbor_reader digest_to_cbor codec_digest "\<lambda>_. True" "\<lambda>x. x" 0
  by unfold_locales (simp_all add: codec_digest_def digest_to_cbor_def)

interpretation text_reader: cbor_reader CText codec_text string_wf "\<lambda>x. x" 0
  by unfold_locales simp_all

interpretation mode_reader: cbor_reader mode_to_cbor codec_mode mode_ok "\<lambda>x. x" 0
  by unfold_locales (simp_all add: codec_mode_def mode_to_cbor_def mode_ok_def)

interpretation stage_reader: cbor_reader stage_to_cbor codec_stage stage_ok "\<lambda>x. x" 0
  by unfold_locales (simp_all add: codec_stage_def stage_to_cbor_def stage_ok_def)

lemma codec_u32_ucast [codec_reads]: "codec_u32 (CUnsigned (ucast v)) = Inr v"
proof -
  have "unat (ucast v :: u64) = unat v" by simp
  moreover have "unat v < 2 ^ 32" using unsigned_less [of v, where ?'a = nat] by simp
  moreover have "(ucast (ucast v :: u64) :: u32) = v" by (rule ucast_ucast_up) simp
  ultimately show ?thesis by (simp add: codec_u32_def)
qed

interpretation version_reader: cbor_reader version_to_cbor codec_version "\<lambda>_. True" "\<lambda>x. x" 1
  by unfold_locales (simp_all add: codec_version_def version_to_cbor_def codec_reads)

interpretation range_reader: cbor_reader byte_range_to_cbor codec_range range_ok "\<lambda>x. x" 1
  by unfold_locales (simp_all add: codec_range_def byte_range_to_cbor_def codec_reads range_ok_def literal_wf)

text \<open>Values without text of their own, and the closed vocabularies.\<close>

lemma codec_boot_field_text [codec_reads]: "codec_boot_field (CText (boot_field_as_str f)) = Inr f"
  by (cases f) (simp_all add: codec_boot_field_def)

lemma codec_impact_text [codec_reads]: "codec_impact (CText (impact_as_str i)) = Inr i"
  by (cases i) (simp_all add: codec_impact_def)

lemma codec_role_text [codec_reads]: "codec_role (CText (role_as_str r)) = Inr r"
  by (cases r) (simp_all add: codec_role_def)

lemma codec_parse_text [codec_reads]: "codec_parse parse err (CText t) = ok_or (parse t) (CodecText err)"
  by (simp add: codec_parse_def)

lemmas codec_vocabulary [codec_reads] = step_kind.parse_as_str effect_class.parse_as_str cancellation.parse_as_str
  binding.parse_as_str toolchain_kind.parse_as_str purpose.parse_as_str

lemma vocabulary_wf [codec_reads]:
  "string_wf (boot_field_as_str f)" "string_wf (impact_as_str i)" "string_wf (role_as_str r)"
  "string_wf (step_kind_as_str k)" "string_wf (effect_as_str e)" "string_wf (cancellation_as_str c)"
  "string_wf (binding_as_str b)" "string_wf (toolchain_kind_as_str t)" "string_wf (purpose_as_str p)"
  "string_wf (maturity_as_str m)" "string_wf (support_as_str s)"
  subgoal by (cases f) (simp_all add: literal_wf)
  subgoal by (cases i) (simp_all add: literal_wf)
  subgoal by (cases r) (simp_all add: literal_wf)
  subgoal by (cases k) (simp_all add: literal_wf)
  subgoal by (cases e) (simp_all add: literal_wf)
  subgoal by (cases c) (simp_all add: literal_wf)
  subgoal by (cases b) (simp_all add: literal_wf)
  subgoal by (cases t) (simp_all add: literal_wf)
  subgoal by (cases p) (simp_all add: literal_wf)
  subgoal by (cases m) (simp_all add: literal_wf)
  subgoal by (cases s) (simp_all add: literal_wf)
  done

lemmas leaf_reads [codec_reads] = id_reader.reads digest_reader.reads [simplified] mode_reader.reads stage_reader.reads
  version_reader.reads [simplified] range_reader.reads

lemmas leaf_texts [codec_reads] = mode_reader.texts stage_reader.texts version_reader.texts [simplified] range_reader.texts

fun target_ok :: "semantic_target \<Rightarrow> bool" where
  "target_ok (TPartition i) \<longleftrightarrow> id_wf i"
| "target_ok (TRawRegion i) \<longleftrightarrow> id_wf i"
| "target_ok _ \<longleftrightarrow> True"

lemma single_entry [codec_reads]: "canon (cbor_map [(k, v)]) = CMap [(CText k, canon v)]"
  by (simp add: canon_cbor_map)

interpretation target_reader: cbor_reader target_to_cbor codec_target target_ok "\<lambda>x. x" 1
proof
  show "target_ok x \<Longrightarrow> codec_target (canon (target_to_cbor x)) = Inr x" for x
    by (cases x) (simp_all add: codec_target_def codec_reads)
qed (case_tac x; simp add: codec_reads literal_wf)+

fun value_ok :: "typed_value \<Rightarrow> bool" where
  "value_ok (TVText t) \<longleftrightarrow> string_wf t"
| "value_ok _ \<longleftrightarrow> True"

lemma nonnegative_small [codec_reads]: "\<not> sint (i :: i64) < 0 \<Longrightarrow> unat i < 9223372036854775808"
proof -
  assume "\<not> sint i < 0"
  moreover have "sint i < 2 ^ 63" using sint_lt [of i] by simp
  ultimately have "uint i = sint i" by (simp add: uint_sint take_bit_eq_mod)
  with \<open>sint i < 2 ^ 63\<close> show ?thesis by (simp add: unat_eq_nat_uint nat_less_iff)
qed

interpretation value_reader: cbor_reader typed_value_to_cbor codec_typed_value value_ok "\<lambda>x. x" 1
proof
  show "value_ok x \<Longrightarrow> codec_typed_value (canon (typed_value_to_cbor x)) = Inr x" for x
    by (cases x) (simp_all add: codec_typed_value_def codec_reads cbor_integer_def)
qed (case_tac x; simp add: codec_reads literal_wf cbor_integer_def)+

lemmas part_reads [codec_reads] = target_reader.opt_reads digest_reader.opt_reads [unfolded option.pred_True, simplified]
  mode_reader.opt_reads range_reader.opt_reads value_reader.reads option.map_ident

lemmas part_texts [codec_reads] = target_reader.opt_texts digest_reader.opt_texts [unfolded option.pred_True, simplified]
  mode_reader.opt_texts range_reader.opt_texts value_reader.texts

lemmas part_deep [codec_reads] = target_reader.opt_deep [unfolded One_nat_def]
  digest_reader.opt_deep [unfolded option.pred_True, simplified] mode_reader.opt_deep [simplified]
  range_reader.opt_deep [unfolded One_nat_def] value_reader.deep [unfolded One_nat_def] range_reader.deep [unfolded One_nat_def]
  mode_reader.deep [simplified] stage_reader.deep [simplified] version_reader.deep [simplified, unfolded One_nat_def]

fun persistent_ok :: "persistent_effect \<Rightarrow> bool" where
  "persistent_ok (ErasePartition p r) \<longleftrightarrow> id_wf p \<and> range_ok r"
| "persistent_ok (WritePartition p r c) \<longleftrightarrow> id_wf p \<and> range_ok r"
| "persistent_ok (WriteRawRegion g r c) \<longleftrightarrow> id_wf g \<and> range_ok r"
| "persistent_ok (ReplacePartitionTable l) \<longleftrightarrow> True"
| "persistent_ok (ChangeBootMetadata f v) \<longleftrightarrow> value_ok v"

fun transient_ok :: "transient_effect \<Rightarrow> bool" where
  "transient_ok (EnterMode f t) \<longleftrightarrow> mode_ok f \<and> mode_ok t"
| "transient_ok (LoadEphemeralAgent s m c) \<longleftrightarrow> stage_ok s"
| "transient_ok (UsbDetachReattach e) \<longleftrightarrow> True"
| "transient_ok (Reboot t) \<longleftrightarrow> mode_ok t"

interpretation persistent_reader: cbor_reader persistent_to_cbor codec_persistent persistent_ok "\<lambda>x. x" 2
proof
  show "persistent_ok x \<Longrightarrow> codec_persistent (canon (persistent_to_cbor x)) = Inr x" for x
    by (cases x) (simp_all add: codec_persistent_def codec_reads)
  show "persistent_ok x \<Longrightarrow> cbor_texts_wf (persistent_to_cbor x)" for x
    by (cases x) (simp_all add: codec_reads literal_wf)
  show "persistent_ok x \<Longrightarrow> cbor_depth (persistent_to_cbor x) \<le> 2" for x
    by (cases x) (simp_all add: codec_reads)
  show "canon (persistent_to_cbor x) \<noteq> CNull" for x
    by (cases x) (simp_all add: codec_reads)
qed

interpretation transient_reader: cbor_reader transient_to_cbor codec_transient transient_ok "\<lambda>x. x" 2
proof
  show "transient_ok x \<Longrightarrow> codec_transient (canon (transient_to_cbor x)) = Inr x" for x
    by (cases x) (simp_all add: codec_transient_def memory_region_to_cbor_def codec_reads)
  show "transient_ok x \<Longrightarrow> cbor_texts_wf (transient_to_cbor x)" for x
    by (cases x) (simp_all add: memory_region_to_cbor_def codec_reads literal_wf)
  show "transient_ok x \<Longrightarrow> cbor_depth (transient_to_cbor x) \<le> 2" for x
    by (cases x) (simp_all add: memory_region_to_cbor_def codec_reads)
  show "canon (transient_to_cbor x) \<noteq> CNull" for x
    by (cases x) (simp_all add: codec_reads)
qed

definition effects_ok :: "effect_set \<Rightarrow> bool" where
  "effects_ok e \<longleftrightarrow> list_all persistent_ok (es_persistent e) \<and> list_all transient_ok (es_transient e)"

lemmas effect_reads [codec_reads] = persistent_reader.list_reads transient_reader.list_reads
  persistent_reader.list_texts [simplified] transient_reader.list_texts [simplified]

interpretation effects_reader: cbor_reader effect_set_to_cbor codec_effects effects_ok "\<lambda>x. x" 4
proof
  show "effects_ok x \<Longrightarrow> codec_effects (canon (effect_set_to_cbor x)) = Inr x" for x
    by (simp add: codec_effects_def effect_set_to_cbor_def data_impact_to_cbor_def effects_ok_def codec_reads del: canon.simps(1))
  show "effects_ok x \<Longrightarrow> cbor_texts_wf (effect_set_to_cbor x)" for x
    by (simp add: effect_set_to_cbor_def data_impact_to_cbor_def effects_ok_def codec_reads literal_wf)
  show "effects_ok x \<Longrightarrow> cbor_depth (effect_set_to_cbor x) \<le> 4" for x
    using persistent_reader.list_deep [of "es_persistent x"] transient_reader.list_deep [of "es_transient x"]
    by (simp add: effect_set_to_cbor_def data_impact_to_cbor_def effects_ok_def del: cbor_depth.simps(1))
  show "canon (effect_set_to_cbor x) \<noteq> CNull" for x
    by (simp add: effect_set_to_cbor_def codec_reads)
qed

definition step_ok :: "public_flash_step \<Rightarrow> bool" where
  "step_ok s \<longleftrightarrow> id_wf (ps_step_id s) \<and> pred_option target_ok (ps_semantic_target s) \<and>
     pred_option mode_ok (ps_expected_mode_before s) \<and> pred_option mode_ok (ps_expected_mode_after s)"

interpretation step_reader: cbor_reader step_to_cbor codec_step step_ok "\<lambda>x. x" 2
proof
  show "step_ok x \<Longrightarrow> codec_step (canon (step_to_cbor x)) = Inr x" for x
    by (simp add: codec_step_def codec_workflow_effect_def step_to_cbor_def step_ok_def codec_reads)
  show "step_ok x \<Longrightarrow> cbor_texts_wf (step_to_cbor x)" for x
    by (simp add: step_to_cbor_def step_ok_def codec_reads literal_wf)
  show "step_ok x \<Longrightarrow> cbor_depth (step_to_cbor x) \<le> 2" for x
    by (simp add: step_to_cbor_def step_ok_def codec_reads)
  show "canon (step_to_cbor x) \<noteq> CNull" for x
    by (simp add: step_to_cbor_def codec_reads)
qed

interpretation bool_reader: cbor_reader CBool codec_boolean "\<lambda>_. True" "\<lambda>x. x" 0
  by unfold_locales simp_all

text \<open>The private action comes back with its body in canonical form.\<close>

definition action_norm :: "private_action_record \<Rightarrow> private_action_record" where
  "action_norm a = a\<lparr>pa_body := canon (pa_body a)\<rparr>"

definition action_ok :: "private_action_record \<Rightarrow> bool" where
  "action_ok a \<longleftrightarrow> id_wf (pa_action_id a) \<and> id_wf (pa_step_id a) \<and> pred_option target_ok (pa_declared_target a) \<and>
     pred_option range_ok (pa_declared_range a) \<and> cbor_texts_wf (pa_body a) \<and> cbor_depth (pa_body a) \<le> 61"

interpretation action_reader: cbor_reader action_to_cbor codec_action action_ok action_norm 62
proof
  show "action_ok x \<Longrightarrow> codec_action (canon (action_to_cbor x)) = Inr (action_norm x)" for x
    by (simp add: codec_action_def codec_workflow_effect_def action_to_cbor_def action_ok_def action_norm_def codec_reads)
  show "action_ok x \<Longrightarrow> cbor_texts_wf (action_to_cbor x)" for x
    by (simp add: action_to_cbor_def action_ok_def codec_reads literal_wf)
  show "action_ok x \<Longrightarrow> cbor_depth (action_to_cbor x) \<le> 62" for x
    using target_reader.opt_deep [of "pa_declared_target x"] range_reader.opt_deep [of "pa_declared_range x"]
    by (simp add: action_to_cbor_def action_ok_def part_deep(2))
  show "canon (action_to_cbor x) \<noteq> CNull" for x
    by (simp add: action_to_cbor_def codec_reads)
qed

section \<open>Identities on canonical forms\<close>

definition binding_ok :: "authority_binding_ref \<Rightarrow> bool" where
  "binding_ok b \<longleftrightarrow> id_wf (abr_authority_namespace b) \<and> id_wf (abr_binding_id b)"

interpretation binding_reader: cbor_reader binding_ref_to_cbor codec_binding binding_ok "\<lambda>x. x" 1
  by unfold_locales (simp_all add: codec_binding_def binding_ref_to_cbor_def binding_ok_def codec_reads literal_wf)

interpretation provider_reader: cbor_reader provider_to_cbor codec_provider "\<lambda>p. id_wf (prov_id p)" "\<lambda>x. x" 2
  by unfold_locales (simp_all add: codec_provider_def provider_to_cbor_def codec_reads literal_wf)

interpretation profile_reader: cbor_reader profile_id_to_cbor codec_profile "\<lambda>p. id_wf (prof_id p)" "\<lambda>x. x" 2
  by unfold_locales (simp_all add: codec_profile_def profile_id_to_cbor_def codec_reads literal_wf)

definition artifact_ok :: "artifact_identity \<Rightarrow> bool" where
  "artifact_ok a \<longleftrightarrow> id_wf (art_artifact_id a) \<and> id_wf (af_id (art_format a))"

interpretation artifact_reader: cbor_reader artifact_to_cbor codec_artifact artifact_ok "\<lambda>x. x" 3
  by unfold_locales (simp_all add: codec_artifact_def artifact_to_cbor_def artifact_format_to_cbor_def artifact_ok_def
      codec_reads literal_wf)

lemma opt_text_cbor: "opt_text t = opt_cbor CText t"
  by (simp add: opt_text_def opt_cbor_def)

lemmas opt_text_reads [codec_reads] = text_reader.opt_reads [folded opt_text_cbor] text_reader.opt_texts [folded opt_text_cbor]
  text_reader.opt_deep [folded opt_text_cbor, simplified]

definition toolchain_ok :: "toolchain_identity \<Rightarrow> bool" where
  "toolchain_ok t \<longleftrightarrow> id_wf (tc_id t) \<and> pred_option string_wf (tc_upstream_ref t)"

interpretation toolchain_reader: cbor_reader toolchain_to_cbor codec_toolchain toolchain_ok "\<lambda>x. x" 2
  by unfold_locales (simp_all add: codec_toolchain_def toolchain_to_cbor_def toolchain_ok_def codec_reads literal_wf)

definition maturity_ok :: "maturity_state \<Rightarrow> bool" where
  "maturity_ok m \<longleftrightarrow> pred_option string_wf (maturity_blocker m) \<and> pred_option string_wf (maturity_campaign m)"

interpretation maturity_reader: cbor_reader maturity_to_cbor codec_maturity maturity_ok "\<lambda>x. x" 1
proof
  show "codec_maturity (canon (maturity_to_cbor x)) = Inr x" for x
    by (cases x) (simp_all add: codec_maturity_def maturity_to_cbor_def codec_reads opt_text_def)
qed (simp_all add: maturity_to_cbor_def maturity_ok_def codec_reads literal_wf)

definition support_ok :: "authority_support_binding \<Rightarrow> bool" where
  "support_ok b \<longleftrightarrow> pred_option string_wf (support_blocker (asb_state b)) \<and> pred_option string_wf (support_campaign (asb_state b))"

interpretation support_reader: cbor_reader support_binding_to_cbor codec_authority_support support_ok "\<lambda>x. x" 2
proof
  show "codec_authority_support (canon (support_binding_to_cbor x)) = Inr x" for x
    by (cases x; cases "asb_state x")
      (simp_all add: codec_authority_support_def support_binding_to_cbor_def support_state_to_cbor_def codec_reads opt_text_def)
qed (simp_all add: support_binding_to_cbor_def support_state_to_cbor_def support_ok_def codec_reads literal_wf)

interpretation contract_reader: cbor_reader contract_to_cbor codec_recovery_contract "\<lambda>c. id_wf (rcr_id c)" "\<lambda>x. x" 2
  by unfold_locales (simp_all add: codec_recovery_contract_def contract_to_cbor_def codec_reads literal_wf)

definition postflight_norm :: "postflight_policy \<Rightarrow> postflight_policy" where
  "postflight_norm p = p\<lparr>pf_required_runtime_facts := canon_pairs (pf_required_runtime_facts p)\<rparr>"

definition postflight_ok :: "postflight_policy \<Rightarrow> bool" where
  "postflight_ok p \<longleftrightarrow> pred_option mode_ok (pf_require_mode p) \<and>
     list_all (\<lambda>(k, v). id_wf k \<and> string_wf v) (pf_required_runtime_facts p)"

lemma codec_facts [codec_reads]:
  "list_all (\<lambda>(k, v). id_wf k \<and> string_wf v) fs \<Longrightarrow> codec_pairs codec_text (canon (facts_to_cbor fs)) = Inr (canon_pairs fs)"
  using text_reader.pairs_reads [of fs] by (simp add: facts_to_cbor_def case_prod_unfold del: canon.simps)

lemma codec_capabilities [codec_reads]:
  "list_all (\<lambda>(k, v). id_wf k) (nc_entries c) \<Longrightarrow>
     codec_pairs codec_boolean (canon (capabilities_to_cbor c)) = Inr (canon_pairs (nc_entries c))"
  using bool_reader.pairs_reads [of "nc_entries c"] by (simp add: capabilities_to_cbor_def case_prod_unfold del: canon.simps)

lemma facts_texts [codec_reads]:
  "list_all (\<lambda>(k, v). id_wf k \<and> string_wf v) fs \<Longrightarrow> cbor_texts_wf (facts_to_cbor fs)"
  unfolding facts_to_cbor_def by (rule text_reader.pairs_texts)

lemma capabilities_texts [codec_reads]:
  "list_all (\<lambda>(k, v). id_wf k) (nc_entries c) \<Longrightarrow> cbor_texts_wf (capabilities_to_cbor c)"
  using bool_reader.pairs_texts [of "nc_entries c"] by (simp only: capabilities_to_cbor_def simp_thms)

lemma pairs_depth: "(\<And>v. cbor_depth (g v) = 0) \<Longrightarrow> cbor_depth (CMap (map (\<lambda>(k, v). (id_to_cbor k, g v)) es)) \<le> Suc 0"
  by (induction es) auto

lemma pairs_deep [codec_reads]: "cbor_depth (facts_to_cbor fs) \<le> Suc 0" "cbor_depth (capabilities_to_cbor c) \<le> Suc 0"
  unfolding facts_to_cbor_def capabilities_to_cbor_def by (rule pairs_depth, simp)+

interpretation postflight_reader: cbor_reader postflight_to_cbor codec_postflight postflight_ok postflight_norm 2
  by unfold_locales (simp_all add: codec_postflight_def postflight_to_cbor_def postflight_ok_def postflight_norm_def
      codec_reads literal_wf)

section \<open>The sealed body on its canonical form\<close>

definition input_norm :: "plan_seal_input \<Rightarrow> plan_seal_input" where
  "input_norm i = i\<lparr>si_negotiated_capabilities := \<lparr>nc_entries = canon_pairs (nc_entries (si_negotiated_capabilities i))\<rparr>,
     si_postflight := postflight_norm (si_postflight i)\<rparr>"

definition input_ok :: "plan_seal_input \<Rightarrow> bool" where
  "input_ok i \<longleftrightarrow> id_wf (si_plan_id i) \<and> binding_ok (si_authority_binding i) \<and> id_wf (prov_id (si_provider i)) \<and>
     id_wf (prof_id (si_profile i)) \<and> artifact_ok (si_artifact i) \<and> toolchain_ok (si_toolchain i) \<and>
     maturity_ok (si_maturity i) \<and> support_ok (si_authority_support i) \<and>
     list_all (\<lambda>(k, v). id_wf k) (nc_entries (si_negotiated_capabilities i)) \<and> list_all step_ok (si_public_steps i) \<and>
     effects_ok (si_effect_set i) \<and> pred_option (\<lambda>c. id_wf (rcr_id c)) (si_recovery_contract i) \<and>
     postflight_ok (si_postflight i)"

lemmas identity_reads [codec_reads] = binding_reader.reads provider_reader.reads profile_reader.reads artifact_reader.reads
  toolchain_reader.reads maturity_reader.reads support_reader.reads contract_reader.opt_reads postflight_reader.reads
  effects_reader.reads step_reader.list_reads

lemmas identity_texts [codec_reads] = binding_reader.texts provider_reader.texts profile_reader.texts artifact_reader.texts
  toolchain_reader.texts maturity_reader.texts support_reader.texts contract_reader.opt_texts postflight_reader.texts
  effects_reader.texts step_reader.list_texts [simplified]

lemma body_fields:
  fixes i
  defines "b \<equiv> canon (plan_digest_body i)"
  shows "codec_field b ''schemaVersion'' = Inr (canon (schema_to_cbor (si_schema_version i)))"
    and "codec_field b ''planId'' = Inr (canon (id_to_cbor (si_plan_id i)))"
    and "codec_field b ''executionPurpose'' = Inr (CText (purpose_as_str (si_execution_purpose i)))"
    and "codec_field b ''authorityBinding'' = Inr (canon (binding_ref_to_cbor (si_authority_binding i)))"
    and "codec_field b ''provider'' = Inr (canon (provider_to_cbor (si_provider i)))"
    and "codec_field b ''profile'' = Inr (canon (profile_id_to_cbor (si_profile i)))"
    and "codec_field b ''artifact'' = Inr (canon (artifact_to_cbor (si_artifact i)))"
    and "codec_field b ''toolchain'' = Inr (canon (toolchain_to_cbor (si_toolchain i)))"
    and "codec_field b ''maturity'' = Inr (canon (maturity_to_cbor (si_maturity i)))"
    and "codec_field b ''authoritySupport'' = Inr (canon (support_binding_to_cbor (si_authority_support i)))"
    and "codec_field b ''negotiatedCapabilities'' = Inr (canon (capabilities_to_cbor (si_negotiated_capabilities i)))"
    and "codec_field b ''publicSteps'' = Inr (canon (CArray (map step_to_cbor (si_public_steps i))))"
    and "codec_field b ''effectSet'' = Inr (canon (effect_set_to_cbor (si_effect_set i)))"
    and "codec_field b ''providerExecutionPlanDigest'' = Inr (canon (digest_to_cbor (pd_provider_execution_plan_digest (si_projection i))))"
    and "codec_field b ''publicProjectionDigest'' = Inr (canon (digest_to_cbor (pd_public_projection_digest (si_projection i))))"
    and "codec_field b ''recoveryContract'' = Inr (canon (opt_cbor contract_to_cbor (si_recovery_contract i)))"
    and "codec_field b ''postflight'' = Inr (canon (postflight_to_cbor (si_postflight i)))"
    and "codec_field b ''createdAtEpochMs'' = Inr (CUnsigned (si_created_at_epoch_ms i))"
    and "codec_field b ''expiresAtEpochMs'' = Inr (CUnsigned (si_expires_at_epoch_ms i))"
  unfolding b_def plan_digest_body_def by (subst codec_field_record; simp)+

lemma codec_seal_input_reads:
  "input_ok i \<Longrightarrow> codec_seal_input (canon (plan_digest_body i)) schema steps es projection =
     Inr ((input_norm i)\<lparr>si_schema_version := schema, si_public_steps := steps, si_effect_set := es, si_projection := projection\<rparr>)"
  by (simp add: codec_seal_input_def body_fields input_ok_def input_norm_def codec_reads)

end
