(* ===== verification/Stored_Plan.thy ===== *)
theory Stored_Plan
  imports Plan_Codec
begin

text \<open>
  What the storage form of a plan guarantees (\<open>crates/arkforge-engine/src/plan_codec.rs\<close>, modelled in \<open>Plan_Codec\<close>):
  a plan that is written comes back, and nothing else is accepted. A plan comes back with its maps and its action
  bodies in canonical order (\<open>stored_norm\<close>), which changes neither its bytes nor its digests.
\<close>

section \<open>Writing back what was read\<close>

lemma try_map_map: "(\<And>x. x \<in> set xs \<Longrightarrow> f (g x) = h x) \<Longrightarrow> try_map f (map g xs) = try_map h xs"
  by (induction xs) simp_all

lemma encode_canon: "encode v = Inr bs \<Longrightarrow> encode (canon v) = Inr bs"
proof (induction v arbitrary: bs rule: canon.induct)
  case (1 vs)
  then obtain bss where bss: "try_map encode vs = Inr bss" "bs = encode_head 4 (of_nat (length vs)) @ concat bss" by auto
  have "encode (canon v) = encode v" if "v \<in> set vs" for v
    using 1(1) [OF that] try_map_each [OF bss(1) that] by auto
  then have "try_map encode (map canon vs) = try_map encode vs" by (rule try_map_map)
  with bss show ?case by simp
next
  case (2 es)
  then obtain ps where ps: "try_map encode_pair es = Inr ps" by (auto simp: encode_map_eq simp del: encode.simps)
  let ?es = "sort_key (\<lambda>e. projr (encode (fst e))) es"
  have e: "encode_pair (canon (fst e), canon (snd e)) = encode_pair e" if "e \<in> set es" for e
  proof -
    from try_map_each [OF ps that] obtain p where "encode_pair e = Inr p" ..
    then have k: "encode (fst e) = Inr (fst p)" "encode (snd e) = Inr (snd p)" by (simp_all add: encode_pair_Inr)
    have e: "e \<in> set ?es" using that by simp
    show ?thesis using 2(1) [OF e k(1)] 2(2) [OF e k(2)] k by (simp add: encode_pair_def)
  qed
  have "encode (CMap ?es) = Inr bs" by (rule encode_map_perm [OF _ 2(3)]) simp
  moreover have "encode (canon (CMap es)) = encode (CMap ?es)"
    unfolding canon.simps by (rule encode_map_cong) (simp add: list_all2_map1 list_all2_same e)
  ultimately show ?case by simp
qed simp_all

lemma encode_record_field:
  assumes "encode (cbor_map fs) = Inr bs" and "(k, v) \<in> set fs"
  shows "\<exists>b. encode v = Inr b \<and> length b \<le> length bs"
proof -
  from assms(1) [unfolded cbor_map_def] obtain es ps where e: "list_all2 (\<lambda>e p. encode_pair e = Inr p) es ps"
    "set es = set (map (\<lambda>(k, v). (CText k, v)) fs)" "bs = encode_head 5 (of_nat (length fs)) @ flat_pairs ps"
    by (rule encode_map_sorted) simp
  have "(CText k, v) \<in> set es" using assms(2) e(2) by force
  then obtain n where n: "n < length es" "es ! n = (CText k, v)" by (auto simp: in_set_conv_nth)
  with e(1) have p: "n < length ps" "encode v = Inr (snd (ps ! n))" by (auto simp: list_all2_conv_all_nth encode_pair_Inr)
  have "length (snd q) \<le> length (flat_pairs qs)" if "q \<in> set qs" for q qs
    using that by (induction qs) auto
  from this [OF nth_mem [OF p(1)]] p(2) e(3) show ?thesis by auto
qed

lemma action_norm_encode: "encode (action_to_cbor a) = Inr bs \<Longrightarrow> encode (action_to_cbor (action_norm a)) = Inr bs"
proof -
  assume a: "encode (action_to_cbor a) = Inr bs"
  then obtain b where "encode (pa_body a) = Inr b"
    unfolding action_to_cbor_def using encode_record_field [where k = "''body''" and v = "pa_body a"] by fastforce
  then have "encode (canon (pa_body a)) = encode (pa_body a)" by (simp add: encode_canon)
  then have "encode (action_to_cbor (action_norm a)) = encode (action_to_cbor a)"
    unfolding action_to_cbor_def by (intro encode_record_cong) (simp_all add: action_norm_def)
  with a show ?thesis by simp
qed

lemma action_norm_simps [simp]:
  "pa_action_id (action_norm a) = pa_action_id a" "pa_step_id (action_norm a) = pa_step_id a"
  "pa_role (action_norm a) = pa_role a" "pa_effect_class (action_norm a) = pa_effect_class a"
  "pa_declared_target (action_norm a) = pa_declared_target a" "pa_declared_range (action_norm a) = pa_declared_range a"
  "pa_content_digest (action_norm a) = pa_content_digest a"
  by (simp_all add: action_norm_def)

lemma check_actions_norm: "check_actions steps seen (map action_norm as) = check_actions steps seen as"
  by (induction as arbitrary: seen) simp_all

definition norm_primaries :: "(string \<rightharpoonup> private_action_record) \<Rightarrow> string \<rightharpoonup> private_action_record" where
  "norm_primaries m = (\<lambda>k. map_option action_norm (m k))"

lemma norm_primaries_apply: "norm_primaries m k = map_option action_norm (m k)"
  by (simp add: norm_primaries_def)

lemma collect_primaries_norm:
  "collect_primaries m as = Inr m' \<Longrightarrow>
     collect_primaries (norm_primaries m) (map action_norm as) = Inr (norm_primaries m')"
proof (induction as arbitrary: m)
  case (Cons a as)
  have "(norm_primaries m)(action_key a \<mapsto> action_norm a) = norm_primaries (m(action_key a \<mapsto> a))" by (auto simp: norm_primaries_def)
  moreover have "norm_primaries m k = None \<longleftrightarrow> m k = None" for k by (simp add: norm_primaries_apply)
  ultimately show ?case using Cons by (auto split: private_action_role.splits if_splits)
qed simp

lemma project_step_norm:
  assumes "\<And>a. a \<in> set as \<Longrightarrow> action_digest (action_norm a) = action_digest a" and "\<And>k a. m k = Some a \<Longrightarrow> a \<in> set as"
  shows "project_step (norm_primaries m) (map action_norm as) s = project_step m as s"
proof (cases "m (step_key s)")
  case (Some a)
  then have a: "action_digest (action_norm a) = action_digest a" using assms by blast
  have "try_map (bind_action s) (map action_norm (filter P as)) = try_map (bind_action s) (filter P as)" for P
    by (rule try_map_map) (simp add: bind_action_def assms(1))
  moreover have "check_primary s (action_norm a) = check_primary s a" by (rule ext) (simp only: check_primary_def action_norm_simps)
  ultimately show ?thesis using Some a by (simp add: project_step_def norm_primaries_apply filter_map comp_def)
qed (simp add: project_step_def norm_primaries_apply)

lemma cover_steps_norm: "cover_steps (norm_primaries m) es pc tc ss = cover_steps m es pc tc ss"
proof (induction ss arbitrary: pc tc)
  case (Cons s ss)
  have r: "persistent_effect_matches e s t (action_norm a) = persistent_effect_matches e s t a" for e t a
    by (cases e; cases t) (simp_all add: range_matches_def)
  then have "claim_persistent (norm_primaries m) xs pc s = claim_persistent m xs pc s" for xs
    by (cases "m (step_key s)") (simp_all add: claim_persistent_def norm_primaries_apply split: option.splits)
  with Cons show ?case by simp
qed simp

lemma validate_projection_norm:
  assumes "validate_projection steps \<lparr>spp_actions = as\<rparr> es = Some (Inr d)"
    and "\<And>a. a \<in> set as \<Longrightarrow> \<exists>bs. encode (action_to_cbor a) = Inr bs"
  shows "validate_projection steps \<lparr>spp_actions = map action_norm as\<rparr> es = Some (Inr d)"
proof -
  have dg: "action_digest (action_norm a) = action_digest a" if "a \<in> set as" for a
    using assms(2) [OF that] action_norm_encode by (auto simp: action_digest_def digest_canonical_def)
  obtain m where m: "collect_primaries Map.empty as = Inr m"
    by (rule validate_projection_Inr [OF assms(1)]) simp
  have "norm_primaries Map.empty = Map.empty" by (simp add: norm_primaries_def)
  with collect_primaries_norm [OF m] have n: "collect_primaries Map.empty (map action_norm as) = Inr (norm_primaries m)" by simp
  have "project_step (norm_primaries m) (map action_norm as) = project_step m as"
    using dg collect_primaries_Inr [OF m] by (intro ext project_step_norm) auto
  then have "validate_projection steps \<lparr>spp_actions = map action_norm as\<rparr> es = validate_projection steps \<lparr>spp_actions = as\<rparr> es"
    unfolding validate_projection_def stored_provider_plan.simps check_actions_norm m n validate_effect_coverage_def cover_steps_norm
      abind.simps by simp
  with assms(1) show ?thesis by simp
qed


lemma encode_pairs_norm:
  "encode (CMap (map (\<lambda>(k, v). (id_to_cbor k, g v)) es)) = Inr bs \<Longrightarrow>
     encode (CMap (map (\<lambda>(k, v). (id_to_cbor k, g v)) (canon_pairs es))) = Inr bs"
  by (erule encode_map_perm [rotated]) (simp only: mset_map mset_canon_pairs)

lemma postflight_norm_encode:
  assumes "encode (postflight_to_cbor p) = Inr bs"
  shows "encode (postflight_to_cbor (postflight_norm p)) = Inr bs"
proof -
  from encode_record_field [OF assms [unfolded postflight_to_cbor_def], of "''requiredRuntimeFacts''"]
  obtain b where b: "encode (facts_to_cbor (pf_required_runtime_facts p)) = Inr b" by auto
  then have "encode (facts_to_cbor (canon_pairs (pf_required_runtime_facts p))) = Inr b"
    unfolding facts_to_cbor_def by (rule encode_pairs_norm)
  with b have "encode (postflight_to_cbor (postflight_norm p)) = encode (postflight_to_cbor p)"
    unfolding postflight_to_cbor_def by (intro encode_record_cong) (simp_all add: postflight_norm_def)
  with assms show ?thesis by simp
qed

lemma body_norm_encode:
  assumes "encode (plan_digest_body i) = Inr bs"
  shows "encode (plan_digest_body (input_norm i)) = Inr bs"
proof -
  note f = encode_record_field [OF assms [unfolded plan_digest_body_def]]
  from f [of "''postflight''"] obtain b where b: "encode (postflight_to_cbor (si_postflight i)) = Inr b" by auto
  from f [of "''negotiatedCapabilities''"] obtain c where
    c: "encode (capabilities_to_cbor (si_negotiated_capabilities i)) = Inr c" by auto
  have "encode (capabilities_to_cbor \<lparr>nc_entries = canon_pairs (nc_entries (si_negotiated_capabilities i))\<rparr>) = Inr c"
    using c encode_pairs_norm unfolding capabilities_to_cbor_def by simp
  with b c postflight_norm_encode [OF b]
  have "encode (plan_digest_body (input_norm i)) = encode (plan_digest_body i)"
    unfolding plan_digest_body_def by (intro encode_record_cong) (simp_all add: input_norm_def del: encode.simps)
  with assms show ?thesis by simp
qed

text \<open>A stored plan as it comes back, and the stored plans that a running program can hold.\<close>

definition stored_norm :: "stored_plan \<Rightarrow> stored_plan" where
  "stored_norm p = \<lparr>st_envelope = (st_envelope p)
       \<lparr>fp_negotiated_capabilities := \<lparr>nc_entries = canon_pairs (nc_entries (fp_negotiated_capabilities (st_envelope p)))\<rparr>,
        fp_postflight := postflight_norm (fp_postflight (st_envelope p))\<rparr>,
     st_private_plan = \<lparr>spp_actions = map action_norm (spp_actions (st_private_plan p))\<rparr>\<rparr>"

definition stored_ok :: "stored_plan \<Rightarrow> bool" where
  "stored_ok p \<longleftrightarrow> input_ok (seal_input_of (st_envelope p)) \<and> list_all action_ok (spp_actions (st_private_plan p))"

lemma seal_input_norm: "seal_input_of (st_envelope (stored_norm p)) = input_norm (seal_input_of (st_envelope p))"
  by (simp add: stored_norm_def seal_input_of_def input_norm_def)

lemma plan_validate_Inr:
  "plan_validate p = Some (Inr ()) \<longleftrightarrow>
     fp_schema_version (st_envelope p) = plan_schema_CURRENT \<and> verify_self_digest (st_envelope p) = Inr () \<and>
     validate_executable (fp_effect_set (st_envelope p)) = Some (Inr ()) \<and>
     fp_created_at_epoch_ms (st_envelope p) < fp_expires_at_epoch_ms (st_envelope p) \<and>
     validate_projection (fp_public_steps (st_envelope p)) (st_private_plan p) (fp_effect_set (st_envelope p)) =
       Some (Inr (si_projection (seal_input_of (st_envelope p))))"
proof -
  have m: "map_option (map_err f) v = Some (Inr x) \<longleftrightarrow> v = Some (Inr x)" for f :: "'e \<Rightarrow> codec_error" and v x
    by (cases v) auto
  show ?thesis
    by (auto simp: plan_validate_def Let_def m seal_input_of_def not_le if_Inl_Inr_iff split: if_splits
        intro!: exI [of _ "\<lparr>pd_per_action = fp_per_action_digests (st_envelope p),
          pd_provider_execution_plan_digest = fp_provider_execution_plan_digest (st_envelope p),
          pd_public_projection_digest = fp_public_projection_digest (st_envelope p)\<rparr>"])
qed

lemma plan_encode_Inr:
  "plan_encode p = Some (Inr bs) \<longleftrightarrow> plan_validate p = Some (Inr ()) \<and>
     (\<exists>body. encode (plan_digest_body (seal_input_of (st_envelope p))) = Inr body \<and>
       encode (storage_cbor p body) = Inr bs) \<and> \<not> MAX_BYTES < of_nat (length bs)"
  by (auto simp: plan_encode_def digest_body_bytes_def split: if_splits)

lemma plan_encode_norm:
  assumes "plan_encode p = Some (Inr bs)"
  shows "plan_encode (stored_norm p) = Some (Inr bs)"
proof -
  from assms obtain body where v: "plan_validate p = Some (Inr ())" and
    body: "encode (plan_digest_body (seal_input_of (st_envelope p))) = Inr body" and
    bs: "encode (storage_cbor p body) = Inr bs" and len: "\<not> MAX_BYTES < of_nat (length bs)"
    by (auto simp: plan_encode_Inr)
  obtain b where "encode (CArray (map action_to_cbor (spp_actions (st_private_plan p)))) = Inr b"
    using encode_record_field [OF bs [unfolded storage_cbor_def], of "''privateActions''"] by auto
  then obtain bss where bss: "try_map encode (map action_to_cbor (spp_actions (st_private_plan p))) = Inr bss" by auto
  have each: "\<exists>b. encode (action_to_cbor a) = Inr b" if "a \<in> set (spp_actions (st_private_plan p))" for a
    using try_map_each [OF bss] that by auto
  then have "encode (action_to_cbor (action_norm a)) = encode (action_to_cbor a)" if "a \<in> set (spp_actions (st_private_plan p))" for a
    using that action_norm_encode by fastforce
  then have "try_map encode (map action_to_cbor (map action_norm (spp_actions (st_private_plan p)))) =
      try_map encode (map action_to_cbor (spp_actions (st_private_plan p)))"
    by (simp add: try_map_map)
  then have s: "encode (storage_cbor (stored_norm p) body) = Inr bs"
    unfolding bs [symmetric] storage_cbor_def by (intro encode_record_cong) (simp_all add: stored_norm_def)
  note n = body_norm_encode [OF body]
  have "plan_validate (stored_norm p) = Some (Inr ())"
  proof -
    have a: "st_private_plan p = \<lparr>spp_actions = spp_actions (st_private_plan p)\<rparr>" by simp
    from v have "validate_projection (fp_public_steps (st_envelope p)) \<lparr>spp_actions = spp_actions (st_private_plan p)\<rparr>
        (fp_effect_set (st_envelope p)) = Some (Inr (si_projection (seal_input_of (st_envelope p))))"
      unfolding plan_validate_Inr by (simp flip: a)
    from validate_projection_norm [OF this each]
    have "validate_projection (fp_public_steps (st_envelope p)) (st_private_plan (stored_norm p))
        (fp_effect_set (st_envelope p)) = Some (Inr (si_projection (seal_input_of (st_envelope p))))"
      by (simp add: stored_norm_def)
    with v body n show ?thesis
      by (simp add: plan_validate_Inr verify_self_digest_def recompute_digest_def digest_body_bytes_def seal_input_norm)
        (simp add: stored_norm_def seal_input_of_def input_norm_def)
  qed
  with n s len show ?thesis by (simp add: plan_encode_Inr seal_input_norm)
qed


lemma depth_record_le: "list_all (\<lambda>(k, v). cbor_depth v \<le> n) fs \<Longrightarrow> cbor_depth (cbor_map fs) \<le> Suc n"
  by (induction fs) auto

lemma body_depth: "input_ok i \<Longrightarrow> cbor_depth (plan_digest_body i) \<le> 5"
proof -
  assume ok: "input_ok i"
  have s: "cbor_depth (schema_to_cbor v) = 0" for v by (cases v) simp
  have "cbor_depth (CArray (map step_to_cbor (si_public_steps i))) \<le> 4"
    using step_reader.list_deep [of "si_public_steps i"] ok by (simp add: input_ok_def del: cbor_depth.simps)
  moreover have "cbor_depth (effect_set_to_cbor (si_effect_set i)) \<le> 4" using effects_reader.deep ok by (simp add: input_ok_def)
  moreover have "cbor_depth (binding_ref_to_cbor (si_authority_binding i)) \<le> 4" "cbor_depth (provider_to_cbor (si_provider i)) \<le> 4"
    "cbor_depth (profile_id_to_cbor (si_profile i)) \<le> 4" "cbor_depth (artifact_to_cbor (si_artifact i)) \<le> 4"
    "cbor_depth (toolchain_to_cbor (si_toolchain i)) \<le> 4" "cbor_depth (maturity_to_cbor (si_maturity i)) \<le> 4"
    "cbor_depth (support_binding_to_cbor (si_authority_support i)) \<le> 4"
    "cbor_depth (opt_cbor contract_to_cbor (si_recovery_contract i)) \<le> 4" "cbor_depth (postflight_to_cbor (si_postflight i)) \<le> 4"
    using ok unfolding input_ok_def
    by (auto intro: binding_reader.deep [THEN order_trans] provider_reader.deep [THEN order_trans] profile_reader.deep [THEN order_trans]
        artifact_reader.deep [THEN order_trans] toolchain_reader.deep [THEN order_trans] maturity_reader.deep [THEN order_trans]
        support_reader.deep [THEN order_trans] contract_reader.opt_deep [THEN order_trans] postflight_reader.deep [THEN order_trans])
  moreover have "cbor_depth (capabilities_to_cbor (si_negotiated_capabilities i)) \<le> 4"
    by (rule order_trans [OF pairs_deep(2)]) simp
  ultimately have "cbor_depth (plan_digest_body i) \<le> Suc 4"
    unfolding plan_digest_body_def by (intro depth_record_le) (simp add: s del: cbor_depth.simps(1))
  then show ?thesis by simp
qed

lemma body_texts: "input_ok i \<Longrightarrow> cbor_texts_wf (plan_digest_body i)"
proof -
  assume ok: "input_ok i"
  have s: "cbor_texts_wf (schema_to_cbor v)" for v by (cases v) simp
  from ok show ?thesis unfolding plan_digest_body_def
    by (simp add: input_ok_def s codec_reads literal_wf)
qed

lemma storage_fields:
  "codec_field (canon (storage_cbor p body)) ''storageVersion'' = Inr (CUnsigned 1)"
  "codec_field (canon (storage_cbor p body)) ''planDigest'' = Inr (canon (digest_to_cbor (fp_plan_digest (st_envelope p))))"
  "codec_field (canon (storage_cbor p body)) ''envelope'' = Inr (CBytes body)"
  "codec_field (canon (storage_cbor p body)) ''privateActions'' =
     Inr (canon (CArray (map action_to_cbor (spp_actions (st_private_plan p)))))"
  unfolding storage_cbor_def by (subst codec_field_record; simp)+

lemma storage_decodes:
  assumes "list_all action_ok (spp_actions (st_private_plan p))" and "encode (storage_cbor p body) = Inr bs" and "length bs < 2 ^ 64"
  shows "decode_canonical bs = Inr (canon (storage_cbor p body))"
proof (rule encode_canonD [OF assms(2) _ _ assms(3)])
  show "cbor_texts_wf (storage_cbor p body)"
    using action_reader.list_texts [OF assms(1)] by (simp add: storage_cbor_def literal_wf del: cbor_texts_wf.simps(1))
  show "cbor_depth (storage_cbor p body) \<le> MAX_DEPTH"
    using action_reader.list_deep [OF assms(1)] by (simp add: storage_cbor_def MAX_DEPTH_def del: cbor_depth.simps(1))
qed

lemma body_decodes:
  assumes "input_ok i" and "encode (plan_digest_body i) = Inr body" and "length body < 2 ^ 64"
  shows "decode_canonical body = Inr (canon (plan_digest_body i))"
  using encode_canonD [OF assms(2) body_texts [OF assms(1)] _ assms(3)] body_depth [OF assms(1)] by (simp add: MAX_DEPTH_def)

lemma seal_back:
  assumes "plan_validate p = Some (Inr ())"
  shows "seal (seal_input_of (st_envelope p)) = Some (Inr (st_envelope p))"
proof -
  from assms obtain body where "encode (plan_digest_body (seal_input_of (st_envelope p))) = Inr body"
    "fp_plan_digest (st_envelope p) = digest_in_domain DomPlan body"
    by (auto simp: plan_validate_Inr verify_self_digest_def recompute_digest_def digest_body_bytes_def split: if_splits)
  moreover have "\<not> fp_expires_at_epoch_ms (st_envelope p) \<le> fp_created_at_epoch_ms (st_envelope p)"
    "validate_executable (fp_effect_set (st_envelope p)) = Some (Inr ())"
    using assms by (auto simp: plan_validate_Inr)
  moreover have "si_expires_at_epoch_ms (seal_input_of e) = fp_expires_at_epoch_ms e"
    "si_created_at_epoch_ms (seal_input_of e) = fp_created_at_epoch_ms e"
    "si_effect_set (seal_input_of e) = fp_effect_set e" for e by (simp_all add: seal_input_of_def)
  ultimately show ?thesis unfolding seal_def
    by simp (rule flash_plan_envelope.equality; simp add: seal_input_of_def)
qed


lemma codec_schema: "codec_u32 (canon (schema_to_cbor (PlanSchemaVersion v))) = Inr v"
  by (simp add: codec_u32_ucast)

lemma plan_decode_encode:
  assumes "stored_ok p" and "plan_encode p = Some (Inr bs)" and "length bs < 2 ^ 64"
  shows "plan_decode bs = Some (Inr (stored_norm p))"
proof -
  define i where "i = seal_input_of (st_envelope p)"
  define as where "as = spp_actions (st_private_plan p)"
  from assms(2) obtain body where v: "plan_validate p = Some (Inr ())" and body: "encode (plan_digest_body i) = Inr body" and
    bs: "encode (storage_cbor p body) = Inr bs" and len: "\<not> MAX_BYTES < of_nat (length bs)"
    by (auto simp: plan_encode_Inr i_def)
  have ok: "input_ok i" "list_all action_ok as" using assms(1) by (simp_all add: stored_ok_def i_def as_def)
  have "length body < 2 ^ 64"
    using encode_record_field [OF bs [unfolded storage_cbor_def], of "''envelope''" "CBytes body"] assms(3) by auto
  note dec = storage_decodes [OF ok(2) [unfolded as_def] bs assms(3)] body_decodes [OF ok(1) body this]
  note again = plan_encode_norm [OF assms(2)]
  then have nv: "plan_validate (stored_norm p) = Some (Inr ())" by (simp add: plan_encode_Inr)
  have ni: "seal_input_of (st_envelope (stored_norm p)) = input_norm i" by (simp add: seal_input_norm i_def)
  note sealed = seal_back [OF nv, unfolded ni]
  have digest: "digest_body_bytes (st_envelope (stored_norm p)) = Inr body"
    by (simp add: digest_body_bytes_def ni body_norm_encode [OF body])
  have proj: "validate_projection (si_public_steps i) \<lparr>spp_actions = map action_norm as\<rparr> (si_effect_set i) = Some (Inr (si_projection i))"
    using nv by (simp add: plan_validate_Inr ni as_def i_def) (simp add: stored_norm_def seal_input_of_def input_norm_def)
  have schema: "si_schema_version i = PlanSchemaVersion 1"
    using v by (simp add: plan_validate_Inr i_def seal_input_of_def plan_schema_CURRENT_def)
  have steps: "codec_list codec_step (canon (CArray (map step_to_cbor (si_public_steps i)))) = Inr (si_public_steps i)"
    "codec_effects (canon (effect_set_to_cbor (si_effect_set i))) = Inr (si_effect_set i)"
    using step_reader.list_reads [of "si_public_steps i"] effects_reader.reads [of "si_effect_set i"] ok(1)
    by (simp_all add: input_ok_def del: canon.simps)
  have actions: "codec_list codec_action (canon (CArray (map action_to_cbor as))) = Inr (map action_norm as)"
    by (rule action_reader.list_reads [OF ok(2)])
  have input: "codec_seal_input (canon (plan_digest_body i)) (PlanSchemaVersion 1) (si_public_steps i) (si_effect_set i) (si_projection i) =
      Inr (input_norm i)"
    using codec_seal_input_reads [OF ok(1)] schema by (simp add: input_norm_def)
  have stored: "\<lparr>st_envelope = st_envelope (stored_norm p), st_private_plan = \<lparr>spp_actions = map action_norm as\<rparr>\<rparr> = stored_norm p"
    "fp_plan_digest (st_envelope (stored_norm p)) = fp_plan_digest (st_envelope p)"
    by (simp_all add: stored_norm_def as_def)
  have dg: "codec_digest (canon (digest_to_cbor d)) = Inr d" for d by (rule digest_reader.reads) simp
  show ?thesis
    unfolding plan_decode_def
    by (simp add: dec len storage_fields body_fields actions [unfolded as_def] steps proj [unfolded as_def] schema codec_schema input
        sealed digest stored [unfolded as_def] again dg plan_schema_CURRENT_def del: canon.simps schema_to_cbor.simps)
qed

section \<open>An example of a stored plan\<close>

definition ex_stored_input :: "projection_digests \<Rightarrow> plan_seal_input" where
  "ex_stored_input d = ex_seal_input\<lparr>si_public_steps := [ex_step Destructive], si_effect_set := ex_effects, si_projection := d\<rparr>"


lemma target_encodes [cbor_encodes]: "encodes (target_to_cbor t)"
  by (cases t) (auto intro!: cbor_encodes)

lemma action_encodes [cbor_encodes]: "encodes (pa_body a) \<Longrightarrow> encodes (action_to_cbor a)"
  unfolding action_to_cbor_def
  by (rule encodes_record)
    (auto simp: opt_cbor_def byte_range_to_cbor_def cbor_encodes intro!: cbor_encodes split: option.splits)

lemma ex_stored_body: "\<exists>bs. encode (plan_digest_body (ex_stored_input d)) = Inr bs \<and> length bs < 5000"
proof -
  have "encodes (plan_digest_body (ex_stored_input d))"
    unfolding to_cbor_defs ex_stored_input_def ex_seal_input_def
    by (simp add: plan_schema_CURRENT_def capabilities_empty_def ex_effects_def read_only_def postflight_none_def ex_step_def to_cbor_defs)
      (intro cbor_encodes encodes_empty_map; auto intro!: cbor_encodes encodes_empty_map)
  then obtain bs where bs: "encode (plan_digest_body (ex_stored_input d)) = Inr bs" by (auto simp: encodes_def)
  have "cbor_bound (plan_digest_body (ex_stored_input d)) < 5000"
    unfolding to_cbor_defs ex_stored_input_def ex_seal_input_def
    by (simp add: plan_schema_CURRENT_def capabilities_empty_def ex_effects_def read_only_def postflight_none_def ex_step_def
        cbor_bound_record to_cbor_defs ex_range_def)
  with encode_length_bound [OF bs] bs show ?thesis by auto
qed


lemma ex_stored_seal: "\<exists>e body. seal (ex_stored_input d) = Some (Inr e) \<and> encode (plan_digest_body (ex_stored_input d)) = Inr body \<and>
    length body < 5000"
proof -
  obtain bs where bs: "encode (plan_digest_body (ex_stored_input d)) = Inr bs" "length bs < 5000" using ex_stored_body by blast
  have "validate_executable (si_effect_set (ex_stored_input d)) = Some (Inr ())"
    by (simp add: ex_stored_input_def ex_effects_def validate_executable_def unknown_axes_def read_only_def)
  moreover have "\<not> si_expires_at_epoch_ms (ex_stored_input d) \<le> si_created_at_epoch_ms (ex_stored_input d)"
    by (simp add: ex_stored_input_def ex_seal_input_def)
  ultimately show ?thesis using bs by (simp add: seal_def)
qed

lemma ex_stored_ok: "input_ok (ex_stored_input d) \<and> action_ok (ex_action Destructive)"
  by (simp add: input_ok_def ex_stored_input_def ex_seal_input_def binding_ok_def artifact_ok_def toolchain_ok_def maturity_ok_def
      support_ok_def capabilities_empty_def step_ok_def ex_step_def effects_ok_def ex_effects_def read_only_def ex_range_def
      range_ok_def byte_range_new_def checked_add_def postflight_ok_def postflight_none_def action_ok_def ex_action_def
      id_wfI id_char_defs)

lemma ex_stored: "\<exists>p bs. stored_ok p \<and> plan_encode p = Some (Inr bs) \<and> length bs < 2 ^ 64"
proof -
  obtain d where d: "validate_projection [ex_step Destructive] \<lparr>spp_actions = [ex_action Destructive]\<rparr> ex_effects = Some (Inr d)"
    using ex_projection by blast
  obtain e body where e: "seal (ex_stored_input d) = Some (Inr e)" "encode (plan_digest_body (ex_stored_input d)) = Inr body"
    "length body < 5000" using ex_stored_seal by blast
  let ?p = "\<lparr>st_envelope = e, st_private_plan = \<lparr>spp_actions = [ex_action Destructive]\<rparr>\<rparr>"
  from e(1) obtain b where s: "encode (plan_digest_body (ex_stored_input d)) = Inr b" "seal_input_of e = ex_stored_input d"
    "fp_plan_digest e = digest_in_domain DomPlan b" "si_created_at_epoch_ms (ex_stored_input d) < si_expires_at_epoch_ms (ex_stored_input d)"
    "validate_executable (si_effect_set (ex_stored_input d)) = Some (Inr ())" by (rule seal_Inr)
  have f: "fp_schema_version e = plan_schema_CURRENT" "fp_effect_set e = si_effect_set (ex_stored_input d)"
    "fp_effect_set e = ex_effects"
    "fp_public_steps e = [ex_step Destructive]" "fp_created_at_epoch_ms e = si_created_at_epoch_ms (ex_stored_input d)"
    "fp_expires_at_epoch_ms e = si_expires_at_epoch_ms (ex_stored_input d)"
    using s(2) by (auto simp: seal_input_of_def ex_stored_input_def ex_seal_input_def)
  have v: "plan_validate ?p = Some (Inr ())"
    using s d f by (simp add: plan_validate_Inr verify_self_digest_def recompute_digest_def digest_body_bytes_def)
      (simp add: ex_stored_input_def)
  have "encodes (storage_cbor ?p body)"
    unfolding storage_cbor_def by (rule encodes_record) (auto simp: cbor_encodes ex_action_def intro!: cbor_encodes)
  then obtain bs where bs: "encode (storage_cbor ?p body) = Inr bs" by (auto simp: encodes_def)
  have "cbor_bound (storage_cbor ?p body) < 10000"
    using e(3) by (simp add: storage_cbor_def cbor_bound_record action_to_cbor_def ex_action_def opt_cbor_def id_to_cbor_def
        byte_range_to_cbor_def)
  with encode_length_bound [OF bs] have l: "length bs < 10000" by simp
  then have "unat (of_nat (length bs) :: u64) < 10000" by (simp add: unat_of_nat)
  then have "\<not> MAX_BYTES < of_nat (length bs)" by (simp add: MAX_BYTES_def word_less_nat_alt)
  with v bs s(2) e(2) have "plan_encode ?p = Some (Inr bs)" by (simp add: plan_encode_Inr)
  moreover have "stored_ok ?p" using ex_stored_ok s(2) by (simp add: stored_ok_def)
  ultimately show ?thesis using l by (intro exI [of _ ?p] exI [of _ bs]) simp
qed

section \<open>Properties\<close>



text \<open>
  C16. Reading never accepts a damaged plan. Bytes that \<open>decode\<close> accepts are exactly what \<open>encode\<close> writes for the plan
  that it returns; this plan verifies against its own digest, has an executable effect set, has not expired before
  it was created, and its private actions project to the digests that it carries.
\<close>

theorem accepted_plan_is_sealed:
  assumes "plan_decode bs = Some (Inr p)"
  shows "plan_encode p = Some (Inr bs) \<and> verify_self_digest (st_envelope p) = Inr () \<and>
    validate_executable (fp_effect_set (st_envelope p)) = Some (Inr ()) \<and>
    fp_created_at_epoch_ms (st_envelope p) < fp_expires_at_epoch_ms (st_envelope p) \<and>
    validate_projection (fp_public_steps (st_envelope p)) (st_private_plan p) (fp_effect_set (st_envelope p)) =
      Some (Inr \<lparr>pd_per_action = fp_per_action_digests (st_envelope p),
        pd_provider_execution_plan_digest = fp_provider_execution_plan_digest (st_envelope p),
        pd_public_projection_digest = fp_public_projection_digest (st_envelope p)\<rparr>)"
proof -
  have e: "plan_encode p = Some (Inr bs)"
    using assms unfolding plan_decode_def by (auto simp: Let_def split: if_splits)
  then have "plan_validate p = Some (Inr ())" by (simp add: plan_encode_Inr)
  with e show ?thesis by (simp add: plan_validate_Inr seal_input_of_def)
qed

theorem accepted_plan_is_sealed_witness:
  "\<exists>p bs. plan_decode bs = Some (Inr p) \<and> verify_self_digest (st_envelope p) = Inr ()"
proof -
  obtain p bs where p: "stored_ok p" "plan_encode p = Some (Inr bs)" "length bs < 2 ^ 64" using ex_stored by blast
  then have d: "plan_decode bs = Some (Inr (stored_norm p))" by (rule plan_decode_encode)
  with accepted_plan_is_sealed [OF d] show ?thesis by blast
qed

end
