(* ===== verification/Plan_Store.thy ===== *)
theory Plan_Store
  imports Stored_Plan Journal Job_State
begin

text \<open>
  \<open>crates/arkforge-engine/src/lib.rs\<close>: the store of sealed plans, what the daemon is ready for, and the gate in front of
  an execution. The host storage behind the store (the trait \<open>PlanStorage\<close>) is an argument of the operations that
  call it; \<open>Plan_Files\<close> models the daemon's implementation.
\<close>

section \<open>Errors and readiness\<close>

datatype execution_blocker =
    NoPairedAuthority
  | NoDispatcher
  | ToolchainDigestMismatch sha256_digest sha256_digest

text \<open>The constructors carry the prefix \<open>Engine\<close> where another enum of the program has a variant of the same name.\<close>

datatype engine_error =
    UnknownPlan string
  | EnginePlanDigestMismatch string sha256_digest sha256_digest
  | StoreCorruption string sha256_digest sha256_digest
  | IllegalTransition job_state job_state
  | ExecutionDisabled "execution_blocker list"
  | EnginePlan plan_error
  | PlanStorage codec_error
  | EngineJournal journal_error

fun blocker_code :: "execution_blocker \<Rightarrow> string" where
  "blocker_code NoPairedAuthority = ''NO_PAIRED_AUTHORITY''"
| "blocker_code NoDispatcher = ''NO_DISPATCHER''"
| "blocker_code (ToolchainDigestMismatch plan_expects daemon_bound) = ''TOOLCHAIN_DIGEST_MISMATCH''"

record bound_toolchain =
  bt_id :: opaque_id
  bt_backend_digest :: sha256_digest

record execution_readiness =
  xr_authority_paired :: bool
  xr_dispatcher :: "bound_toolchain option"

definition standing_blockers :: "execution_readiness \<Rightarrow> execution_blocker list" where
  "standing_blockers r =
     (if xr_authority_paired r then [] else [NoPairedAuthority]) @
     (if xr_dispatcher r = None then [NoDispatcher] else [])"

definition is_ready :: "execution_readiness \<Rightarrow> bool" where
  "is_ready r \<longleftrightarrow> standing_blockers r = []"

definition blockers_for :: "execution_readiness \<Rightarrow> flash_plan_envelope \<Rightarrow> execution_blocker list" where
  "blockers_for r plan = standing_blockers r @
     (case xr_dispatcher r of
        Some bound \<Rightarrow>
          if bt_backend_digest bound \<noteq> tc_backend_digest (fp_toolchain plan) then
            [ToolchainDigestMismatch (tc_backend_digest (fp_toolchain plan)) (bt_backend_digest bound)]
          else []
      | None \<Rightarrow> [])"

section \<open>The store\<close>

definition to_storage_bytes :: "stored_plan \<Rightarrow> (engine_error + bytes) option" where
  "to_storage_bytes plan = map_option (map_err PlanStorage) (plan_encode plan)"

definition from_storage_bytes :: "bytes \<Rightarrow> (engine_error + stored_plan) option" where
  "from_storage_bytes bs = map_option (map_err PlanStorage) (plan_decode bs)"

text \<open>\<open>'d\<close> is the state of the host storage; a store in memory has none.\<close>

record 'd plan_store =
  pst_plans :: "string \<rightharpoonup> stored_plan"
  pst_storage :: "'d option"

definition plan_store_new :: "'d plan_store" where
  "plan_store_new = \<lparr>pst_plans = Map.empty, pst_storage = None\<rparr>"

abbreviation plan_key :: "stored_plan \<Rightarrow> string" where
  "plan_key plan \<equiv> as_str (fp_plan_id (st_envelope plan))"

fun open_plans :: "(string \<rightharpoonup> stored_plan) \<Rightarrow> stored_plan list \<Rightarrow> (engine_error + (string \<rightharpoonup> stored_plan)) option" where
  "open_plans plans [] = Some (Inr plans)"
| "open_plans plans (plan # rest) =
     abind (map_option (map_err PlanStorage) (plan_validate plan)) (\<lambda>_.
       if plans (plan_key plan) \<noteq> None then Some (Inl (PlanStorage (CodecText ''duplicate sealed plan identifier'')))
       else open_plans (plans(plan_key plan \<mapsto> plan)) rest)"

definition plan_store_open :: "('d \<Rightarrow> (engine_error + stored_plan list) option) \<Rightarrow> 'd \<Rightarrow> (engine_error + 'd plan_store) option" where
  "plan_store_open load storage =
     abind (load storage) (\<lambda>loaded.
     abind (open_plans Map.empty loaded) (\<lambda>plans.
       Some (Inr \<lparr>pst_plans = plans, pst_storage = Some storage\<rparr>)))"

text \<open>Whether another plan owns the identifier: the condition of \<open>insert\<close>.\<close>

definition owned_by_other :: "'d plan_store \<Rightarrow> stored_plan \<Rightarrow> bytes \<Rightarrow> (engine_error + bool) option" where
  "owned_by_other s plan bs =
     (case pst_plans s (plan_key plan) of
        None \<Rightarrow> Some (Inr False)
      | Some existing \<Rightarrow> abind (to_storage_bytes existing) (\<lambda>b. Some (Inr (b \<noteq> bs))))"

definition plan_store_insert ::
  "('d \<Rightarrow> stored_plan \<Rightarrow> bytes \<Rightarrow> (engine_error + unit) \<times> 'd) \<Rightarrow> 'd plan_store \<Rightarrow> stored_plan \<Rightarrow>
     ((engine_error + unit) \<times> 'd plan_store) option" where
  "plan_store_insert persist s plan =
     (case abind (to_storage_bytes plan) (\<lambda>bs.
        abind (owned_by_other s plan bs) (\<lambda>other.
          if other then Some (Inl (PlanStorage (CodecText ''a different sealed plan already owns this identifier'')))
          else Some (Inr bs))) of
        None \<Rightarrow> None
      | Some (Inl e) \<Rightarrow> Some (Inl e, s)
      | Some (Inr bs) \<Rightarrow>
          (case pst_storage s of
             None \<Rightarrow> Some (Inr (), s\<lparr>pst_plans := (pst_plans s)(plan_key plan \<mapsto> plan)\<rparr>)
           | Some storage \<Rightarrow>
               (case persist storage plan bs of
                  (Inl e, storage') \<Rightarrow> Some (Inl e, s\<lparr>pst_storage := Some storage'\<rparr>)
                | (Inr _, storage') \<Rightarrow>
                    Some (Inr (), \<lparr>pst_plans = (pst_plans s)(plan_key plan \<mapsto> plan), pst_storage = Some storage'\<rparr>))))"

definition plan_store_get :: "'d plan_store \<Rightarrow> plan_id \<Rightarrow> sha256_digest \<Rightarrow> (engine_error + stored_plan) option" where
  "plan_store_get s plan_id expected_digest =
     abind (Some (ok_or (pst_plans s (as_str plan_id)) (UnknownPlan (as_str plan_id)))) (\<lambda>stored.
     abind (Some (map_err EnginePlan (recompute_digest (st_envelope stored)))) (\<lambda>recomputed.
       if recomputed \<noteq> fp_plan_digest (st_envelope stored) then
         Some (Inl (StoreCorruption (as_str plan_id) (fp_plan_digest (st_envelope stored)) recomputed))
       else if fp_plan_digest (st_envelope stored) \<noteq> expected_digest then
         Some (Inl (EnginePlanDigestMismatch (as_str plan_id) expected_digest (fp_plan_digest (st_envelope stored))))
       else
         abind (map_option (map_err PlanStorage) (plan_validate stored)) (\<lambda>_. Some (Inr stored))))"

definition start_execution ::
  "'d plan_store \<Rightarrow> plan_id \<Rightarrow> sha256_digest \<Rightarrow> execution_readiness \<Rightarrow> (engine_error + stored_plan) option" where
  "start_execution plans plan_id plan_digest readiness =
     abind (plan_store_get plans plan_id plan_digest) (\<lambda>stored.
       let blockers = blockers_for readiness (st_envelope stored) in
       if blockers \<noteq> [] then Some (Inl (ExecutionDisabled blockers))
       else plan_store_get plans plan_id plan_digest)"

section \<open>Lemmas\<close>

lemma map_err_option_Inr [simp]: "map_option (map_err f) v = Some (Inr x) \<longleftrightarrow> v = Some (Inr x)"
  by (cases v) auto

lemma plan_store_get_Inr:
  "plan_store_get s plan_id d = Some (Inr p) \<longleftrightarrow>
     pst_plans s (as_str plan_id) = Some p \<and> fp_plan_digest (st_envelope p) = d \<and> plan_validate p = Some (Inr ())"
proof -
  have "plan_validate q = Some (Inr ()) \<Longrightarrow> recompute_digest (st_envelope q) = Inr (fp_plan_digest (st_envelope q))" for q
    by (auto simp: plan_validate_Inr verify_self_digest_def split: if_splits)
  then show ?thesis by (auto simp: plan_store_get_def split: if_splits)
qed

lemma blockers_for_Nil:
  "blockers_for r plan = [] \<longleftrightarrow> xr_authority_paired r \<and>
     (\<exists>b. xr_dispatcher r = Some b \<and> bt_backend_digest b = tc_backend_digest (fp_toolchain plan))"
  by (auto simp: blockers_for_def standing_blockers_def split: option.splits)

lemma open_plans_Inr:
  assumes "\<forall>p \<in> set ps. plan_validate p = Some (Inr ())" and "distinct (map plan_key ps)"
    and "\<forall>p \<in> set ps. m (plan_key p) = None"
  shows "\<exists>m'. open_plans m ps = Some (Inr m') \<and> (\<forall>p \<in> set ps. m' (plan_key p) = Some p) \<and>
    (\<forall>k. k \<notin> plan_key ` set ps \<longrightarrow> m' k = m k)"
  using assms
proof (induction ps arbitrary: m)
  case (Cons p ps)
  have "\<exists>m'. open_plans (m(plan_key p \<mapsto> p)) ps = Some (Inr m') \<and> (\<forall>q \<in> set ps. m' (plan_key q) = Some q) \<and>
      (\<forall>k. k \<notin> plan_key ` set ps \<longrightarrow> m' k = (m(plan_key p \<mapsto> p)) k)"
    by (rule Cons.IH) (use Cons.prems in \<open>force simp: image_iff\<close>)+
  then obtain m' where m: "open_plans (m(plan_key p \<mapsto> p)) ps = Some (Inr m')" "\<forall>q \<in> set ps. m' (plan_key q) = Some q"
    "\<forall>k. k \<notin> plan_key ` set ps \<longrightarrow> m' k = (m(plan_key p \<mapsto> p)) k" by blast
  moreover have "plan_key p \<notin> plan_key ` set ps" using Cons.prems(2) by simp
  ultimately show ?case using Cons.prems by (intro exI [of _ m']) auto
qed simp

section \<open>Properties\<close>


end
