(* ===== verification/Plan_Files.thy ===== *)
theory Plan_Files
  imports Plan_Store
begin

text \<open>
  \<open>cmd/arkforged/src/plan_storage.rs\<close>: the directory in which the daemon keeps sealed plans, one immutable file for
  each. What the operating system answers is an argument: every call may fail with any text, another process may
  publish the same file first, and a staging file may stay behind. A directory is the list of its entries in the order
  in which they are listed, with the names that are known to be on stable storage: syncing the directory makes all of
  its names stable, and a loss of power may take any other name away.
\<close>

section \<open>The directory\<close>

text \<open>An entry that is no plain file is a directory or a link; it tells whether it resolves.\<close>

datatype dir_entry = RegularFile bytes | OtherEntry bool

type_synonym dir_entries = "(string \<times> dir_entry) list"

record plan_dir =
  pd_entries :: dir_entries
  pd_stable :: "string list"

definition failure :: "string \<Rightarrow> engine_error" where
  "failure text = PlanStorage (CodecText text)"

fun answered :: "string option \<Rightarrow> engine_error + unit" where
  "answered None = Inr ()"
| "answered (Some text) = Inl (failure text)"

text \<open>What the operating system answers about one file.\<close>

record file_answers =
  fa_entry :: "string option"
  fa_metadata :: "string option"
  fa_open :: "string option"
  fa_length :: "string option"
  fa_read :: "string option"
  fa_protect :: "string option"

text \<open>\<open>require_plain(path, false)\<close>; the model returns the bytes of the plain file, which \<open>File::open\<close> makes readable.\<close>

definition require_plain_file :: "file_answers \<Rightarrow> dir_entry \<Rightarrow> engine_error + bytes" where
  "require_plain_file os e =
     rbind (answered (fa_metadata os)) (\<lambda>_.
       case e of
         RegularFile bs \<Rightarrow> Inr bs
       | OtherEntry _ \<Rightarrow> Inl (failure ''private plan storage requires plain files and directories''))"

definition plan_filename :: "stored_plan \<Rightarrow> string" where
  "plan_filename plan = to_hex (sha256 (str_bytes (plan_key plan))) @ ''.cbor''"

definition read_plan_file :: "file_answers \<Rightarrow> dir_entry \<Rightarrow> engine_error + bytes" where
  "read_plan_file os e =
     rbind (require_plain_file os e) (\<lambda>content.
     rbind (answered (fa_open os)) (\<lambda>_.
     rbind (answered (fa_length os)) (\<lambda>_.
     if MAX_BYTES < of_nat (length content) then Inl (failure ''private plan exceeds the storage size bound'')
     else
       rbind (answered (fa_read os)) (\<lambda>_.
       let bs = take (unat (MAX_BYTES + 1)) content in
       if MAX_BYTES < of_nat (length bs) then Inl (failure ''private plan grew beyond the storage size bound'')
       else Inr bs))))"

text \<open>\<open>Path::extension\<close> of a file name.\<close>

definition path_extension :: "string \<Rightarrow> string option" where
  "path_extension name =
     (let stem = dropWhile (\<lambda>c. c \<noteq> CHR ''.'') (rev name) in
      if name = ''..'' \<or> stem = [] \<or> stem = ''.'' then None
      else Some (rev (takeWhile (\<lambda>c. c \<noteq> CHR ''.'') (rev name))))"

fun open_entries :: "(string \<Rightarrow> file_answers) \<Rightarrow> dir_entries \<Rightarrow> (engine_error + stored_plan list) option" where
  "open_entries os [] = Some (Inr [])"
| "open_entries os ((name, e) # rest) =
     abind (Some (answered (fa_entry (os name)))) (\<lambda>_.
     abind (Some (require_plain_file (os name) e)) (\<lambda>_.
     if path_extension name = Some ''pending'' then open_entries os rest
     else if path_extension name \<noteq> Some ''cbor'' then Some (Inl (failure ''unrecognized file in private plan storage''))
     else
       abind (Some (read_plan_file (os name) e)) (\<lambda>bs.
       abind (from_storage_bytes bs) (\<lambda>plan.
       if name \<noteq> plan_filename plan then
         Some (Inl (failure ''private plan filename does not match its sealed identifier''))
       else
         abind (Some (answered (fa_protect (os name)))) (\<lambda>_.
         abind (open_entries os rest) (\<lambda>plans. Some (Inr (plan # plans))))))))"

record root_answers =
  ra_create :: "string option"
  ra_plain :: "string option"
  ra_protect :: "string option"
  ra_list :: "string option"

definition file_open :: "root_answers \<Rightarrow> (string \<Rightarrow> file_answers) \<Rightarrow> plan_dir \<Rightarrow> (engine_error + stored_plan list) option" where
  "file_open root os d =
     abind (Some (answered (ra_create root))) (\<lambda>_.
     abind (Some (answered (ra_plain root))) (\<lambda>_.
     abind (Some (answered (ra_protect root))) (\<lambda>_.
     abind (Some (answered (ra_list root))) (\<lambda>_.
       open_entries os (pd_entries d)))))"

section \<open>Publishing a plan\<close>

definition verify_existing :: "file_answers \<Rightarrow> dir_entry \<Rightarrow> bytes \<Rightarrow> engine_error + unit" where
  "verify_existing os e bs =
     rbind (read_plan_file os e) (\<lambda>content.
       if content \<noteq> bs then Inl (failure ''a different sealed plan already owns this identifier'') else Inr ())"

text \<open>
  The answers to the calls of \<open>persist\<close>. \<open>pio_write\<close> fails after some bytes; \<open>pio_race\<close> is what another process
  publishes under the same name before the link is made; \<open>pio_taken\<close> is the text for a staging name that exists.
\<close>

record persist_io =
  pio_root :: "string option"
  pio_exists :: "string option"
  pio_target :: file_answers
  pio_random :: "string + bytes"
  pio_open :: "string option"
  pio_taken :: string
  pio_protect :: "string option"
  pio_write :: "(nat \<times> string) option"
  pio_sync :: "string option"
  pio_race :: "dir_entry option"
  pio_link :: "string option"
  pio_sync_dir :: "string option"
  pio_remove :: bool

abbreviation find_entry :: "plan_dir \<Rightarrow> string \<Rightarrow> dir_entry option" where
  "find_entry d \<equiv> map_of (pd_entries d)"

definition add_entry :: "string \<Rightarrow> dir_entry \<Rightarrow> plan_dir \<Rightarrow> plan_dir" where
  "add_entry name e d = d\<lparr>pd_entries := pd_entries d @ [(name, e)]\<rparr>"

definition set_file :: "string \<Rightarrow> bytes \<Rightarrow> plan_dir \<Rightarrow> plan_dir" where
  "set_file name bs d = d\<lparr>pd_entries := map (\<lambda>(n, e). (n, if n = name then RegularFile bs else e)) (pd_entries d)\<rparr>"

definition remove_entry :: "string \<Rightarrow> plan_dir \<Rightarrow> plan_dir" where
  "remove_entry name d = d\<lparr>pd_entries := filter (\<lambda>(n, e). n \<noteq> name) (pd_entries d)\<rparr>"

text \<open>\<open>sync_directory\<close>: the names that the directory has become stable.\<close>

definition sync_directory :: "string option \<Rightarrow> plan_dir \<Rightarrow> (engine_error + unit) \<times> plan_dir" where
  "sync_directory answer d =
     (case answered answer of
        Inl e \<Rightarrow> (Inl e, d)
      | Inr _ \<Rightarrow> (Inr (), d\<lparr>pd_stable := map fst (pd_entries d)\<rparr>))"

text \<open>The link from the staging file to the published name, and the sync of the directory.\<close>

definition link_target :: "persist_io \<Rightarrow> plan_dir \<Rightarrow> string \<Rightarrow> bytes \<Rightarrow> (engine_error + unit) \<times> plan_dir" where
  "link_target io d target bs =
     (let d = (case pio_race io of
                 Some e \<Rightarrow> if find_entry d target = None then add_entry target e d else d
               | None \<Rightarrow> d) in
      case answered (pio_link io) of
        Inl e \<Rightarrow> (Inl e, d)
      | Inr _ \<Rightarrow>
          (case find_entry d target of
             Some e \<Rightarrow>
               (case verify_existing (pio_target io) e bs of
                  Inl e \<Rightarrow> (Inl e, d)
                | Inr _ \<Rightarrow> sync_directory (pio_sync_dir io) d)
           | None \<Rightarrow> sync_directory (pio_sync_dir io) (add_entry target (RegularFile bs) d)))"

text \<open>The closure of \<open>persist\<close>: protect, write and sync the staging file, then publish it.\<close>

definition stage_and_link :: "persist_io \<Rightarrow> plan_dir \<Rightarrow> string \<Rightarrow> string \<Rightarrow> bytes \<Rightarrow> (engine_error + unit) \<times> plan_dir" where
  "stage_and_link io d temporary target bs =
     (case answered (pio_protect io) of
        Inl e \<Rightarrow> (Inl e, d)
      | Inr _ \<Rightarrow>
          (case pio_write io of
             Some (n, text) \<Rightarrow> (Inl (failure text), set_file temporary (take n bs) d)
           | None \<Rightarrow>
               (case answered (pio_sync io) of
                  Inl e \<Rightarrow> (Inl e, set_file temporary bs d)
                | Inr _ \<Rightarrow> link_target io (set_file temporary bs d) target bs)))"

definition entry_exists :: "plan_dir \<Rightarrow> string \<Rightarrow> bool" where
  "entry_exists d name =
     (case find_entry d name of Some (RegularFile _) \<Rightarrow> True | Some (OtherEntry resolves) \<Rightarrow> resolves | None \<Rightarrow> False)"

definition file_persist :: "persist_io \<Rightarrow> plan_dir \<Rightarrow> stored_plan \<Rightarrow> bytes \<Rightarrow> (engine_error + unit) \<times> plan_dir" where
  "file_persist io d plan bs =
     (let target = plan_filename plan in
      case rbind (answered (pio_root io)) (\<lambda>_. answered (pio_exists io)) of
        Inl e \<Rightarrow> (Inl e, d)
      | Inr _ \<Rightarrow>
          if entry_exists d target then (verify_existing (pio_target io) (the (find_entry d target)) bs, d)
          else
            (case pio_random io of
               Inl text \<Rightarrow> (Inl (failure text), d)
             | Inr nonce \<Rightarrow>
                 let temporary = to_hex (sha256 nonce) @ ''.pending'' in
                 (case pio_open io of
                    Some text \<Rightarrow> (Inl (failure text), d)
                  | None \<Rightarrow>
                      if find_entry d temporary \<noteq> None then (Inl (failure (pio_taken io)), d)
                      else
                        let (result, d') = stage_and_link io (add_entry temporary (RegularFile []) d) temporary target bs in
                        (result, if pio_remove io then remove_entry temporary d' else d'))))"

section \<open>Lives of a plan directory\<close>

text \<open>
  The daemon runs with the plans it has read, or it is down. While it runs it inserts plans; it may stop at any moment,
  and power may be lost, which keeps every stable name. Staging files may be left behind with any content, and names
  that are not stable may be lost. A plan is \<open>kept\<close> when an insertion that did not find its file was reported as done.
\<close>

definition storable :: "stored_plan \<Rightarrow> bool" where
  "storable p \<longleftrightarrow> stored_ok p \<and> (\<forall>bs. plan_encode p = Some (Inr bs) \<longrightarrow> length bs < 2 ^ 64)"

definition plan_file :: "string \<Rightarrow> dir_entry \<Rightarrow> bool" where
  "plan_file name e \<longleftrightarrow> (\<exists>p bs. storable p \<and> plan_encode p = Some (Inr bs) \<and> name = plan_filename p \<and> e = RegularFile bs)"

definition staging_file :: "string \<Rightarrow> dir_entry \<Rightarrow> bool" where
  "staging_file name e \<longleftrightarrow> path_extension name = Some ''pending'' \<and> (\<exists>bs. e = RegularFile bs)"

record plan_world =
  pw_dir :: plan_dir
  pw_plans :: "(string \<rightharpoonup> stored_plan) option"
  pw_kept :: "stored_plan list"

definition power_loss :: "plan_dir \<Rightarrow> plan_dir \<Rightarrow> bool" where
  "power_loss d d' \<longleftrightarrow> distinct (map fst (pd_entries d')) \<and>
     (\<forall>n \<in> set (pd_stable d). path_extension n = Some ''cbor'' \<longrightarrow> find_entry d' n = find_entry d n) \<and>
     (\<forall>(n, e) \<in> set (pd_entries d'). (n, e) \<in> set (pd_entries d) \<or> staging_file n e) \<and>
     pd_stable d' = map fst (pd_entries d')"

inductive plan_start :: "plan_world \<Rightarrow> bool" where
  empty_dir: "plan_start \<lparr>pw_dir = \<lparr>pd_entries = [], pd_stable = []\<rparr>, pw_plans = None, pw_kept = []\<rparr>"

inductive plan_event :: "plan_world \<Rightarrow> plan_world \<Rightarrow> bool" where
  event_insert: "pw_plans w = Some plans \<Longrightarrow> storable p \<Longrightarrow>
    (\<And>e. pio_race io = Some e \<Longrightarrow> plan_file (plan_filename p) e) \<Longrightarrow>
    plan_store_insert (file_persist io) \<lparr>pst_plans = plans, pst_storage = Some (pw_dir w)\<rparr> p = Some (result, s) \<Longrightarrow>
    plan_event w \<lparr>pw_dir = the (pst_storage s), pw_plans = Some (pst_plans s),
      pw_kept = (if result = Inr () \<and> find_entry (pw_dir w) (plan_filename p) = None then p # pw_kept w else pw_kept w)\<rparr>"
| event_stop: "plan_event w (w\<lparr>pw_plans := None\<rparr>)"
| event_power_loss: "power_loss (pw_dir w) d \<Longrightarrow> plan_event w (w\<lparr>pw_dir := d, pw_plans := None\<rparr>)"
| event_open: "pw_plans w = None \<Longrightarrow> plan_store_open (file_open root os) (pw_dir w) = Some (Inr s) \<Longrightarrow>
    plan_event w (w\<lparr>pw_plans := Some (pst_plans s)\<rparr>)"

inductive_simps plan_start_iff: "plan_start w"

interpretation plan_lives: transition_system plan_start plan_event .

section \<open>What the directory holds\<close>

definition dir_inv :: "plan_dir \<Rightarrow> bool" where
  "dir_inv d \<longleftrightarrow> distinct (map fst (pd_entries d)) \<and> (\<forall>(n, e) \<in> set (pd_entries d). staging_file n e \<or> plan_file n e) \<and>
     (\<forall>n \<in> set (pd_stable d). path_extension n = Some ''cbor'' \<longrightarrow> n \<in> fst ` set (pd_entries d))"

definition plans_kept :: "plan_dir \<Rightarrow> stored_plan list \<Rightarrow> bool" where
  "plans_kept d ps \<longleftrightarrow> (\<forall>p \<in> set ps. storable p \<and> plan_filename p \<in> set (pd_stable d) \<and>
     (\<exists>bs. plan_encode p = Some (Inr bs) \<and> find_entry d (plan_filename p) = Some (RegularFile bs)))"

lemma hex_nonempty: "to_hex d \<noteq> []"
  using parse_to_hex [of d] by (auto simp: parse_hex_def)

lemma extension_literal [simp]:
  "path_extension (to_hex d @ ''.cbor'') = Some ''cbor''" "path_extension (to_hex d @ ''.pending'') = Some ''pending''"
  using hex_nonempty by (simp_all add: path_extension_def)

lemma plan_filename_extension [simp]: "path_extension (plan_filename p) = Some ''cbor''"
  by (simp add: plan_filename_def)

lemma staging_not_plan: "staging_file n e \<Longrightarrow> path_extension n \<noteq> Some ''cbor''"
  by (simp add: staging_file_def)

lemma dir_inv_add: "dir_inv d \<Longrightarrow> find_entry d n = None \<Longrightarrow> staging_file n e \<or> plan_file n e \<Longrightarrow> dir_inv (add_entry n e d)"
  by (auto simp: dir_inv_def map_of_eq_None_iff add_entry_def)

lemma find_set_file:
  "find_entry (set_file n bs d) m = (if m = n then map_option (\<lambda>_. RegularFile bs) (find_entry d m) else find_entry d m)"
proof -
  have "map_of (map (\<lambda>(k, e). (k, if k = n then RegularFile bs else e)) es) m =
      (if m = n then map_option (\<lambda>_. RegularFile bs) (map_of es m) else map_of es m)" for es
    by (induction es) auto
  then show ?thesis by (simp add: set_file_def)
qed

lemma dir_inv_set_file: "dir_inv d \<Longrightarrow> path_extension n = Some ''pending'' \<Longrightarrow> dir_inv (set_file n bs d)"
proof -
  assume d: "dir_inv d" and n: "path_extension n = Some ''pending''"
  have "staging_file m (if m = n then RegularFile bs else e) \<or> plan_file m (if m = n then RegularFile bs else e)"
    if "(m, e) \<in> set (pd_entries d)" for m e
    using d that n by (cases "m = n") (auto simp: dir_inv_def staging_file_def)
  then have "\<forall>(m, e) \<in> set (pd_entries (set_file n bs d)). staging_file m e \<or> plan_file m e" unfolding set_file_def by fastforce
  moreover have f: "map fst (pd_entries (set_file n bs d)) = map fst (pd_entries d)" "pd_stable (set_file n bs d) = pd_stable d"
    by (simp_all add: set_file_def case_prod_unfold comp_def)
  moreover have "fst ` set (pd_entries (set_file n bs d)) = fst ` set (pd_entries d)"
    using arg_cong [OF f(1), of set] by simp
  ultimately show ?thesis using d by (simp add: dir_inv_def)
qed

lemma find_remove: "m \<noteq> n \<Longrightarrow> find_entry (remove_entry n d) m = find_entry d m"
proof -
  assume "m \<noteq> n"
  then have "map_of (filter (\<lambda>(k, e). k \<noteq> n) es) m = map_of es m" for es by (induction es) auto
  then show ?thesis by (simp add: remove_entry_def)
qed

lemma dir_inv_remove: "dir_inv d \<Longrightarrow> path_extension n = Some ''pending'' \<Longrightarrow> dir_inv (remove_entry n d)"
  by (fastforce simp: dir_inv_def remove_entry_def distinct_map_filter image_iff)

lemma plan_file_at: "dir_inv d \<Longrightarrow> path_extension n = Some ''cbor'' \<Longrightarrow> find_entry d n = Some e \<Longrightarrow> plan_file n e"
  by (auto simp: dir_inv_def dest!: map_of_SomeD staging_not_plan)

lemma small_file: "storable p \<Longrightarrow> plan_encode p = Some (Inr bs) \<Longrightarrow> length bs \<le> unat MAX_BYTES"
  by (auto simp: storable_def plan_encode_Inr not_less word_le_nat_alt unat_of_nat)

lemma read_plan_file_Inr:
  assumes "plan_file n e" and "read_plan_file os e = Inr bs"
  shows "e = RegularFile bs"
proof -
  from assms(1) obtain p c where c: "e = RegularFile c" "length c \<le> unat MAX_BYTES" by (auto simp: plan_file_def dest: small_file)
  then have "take (unat (MAX_BYTES + 1)) c = c" by (simp add: MAX_BYTES_def)
  with assms(2) c(1) show ?thesis by (auto simp: read_plan_file_def require_plain_file_def Let_def split: if_splits)
qed

lemma verify_existing_Inr: "plan_file n e \<Longrightarrow> verify_existing os e bs = Inr () \<Longrightarrow> e = RegularFile bs"
  by (auto simp: verify_existing_def dest: read_plan_file_Inr split: if_splits)

text \<open>
  Every way through \<open>persist\<close> keeps the published files and the stable names; a success leaves the plan's file, and
  its name is stable unless the file was there before.
\<close>

definition published_by :: "string \<Rightarrow> bytes \<Rightarrow> plan_dir \<Rightarrow> (engine_error + unit) \<times> plan_dir \<Rightarrow> bool" where
  "published_by target bs d out \<longleftrightarrow> dir_inv (snd out) \<and>
     (\<forall>n. path_extension n = Some ''cbor'' \<longrightarrow> (\<forall>e. find_entry d n = Some e \<longrightarrow> find_entry (snd out) n = Some e) \<and>
       (n \<in> set (pd_stable d) \<longrightarrow> find_entry d n \<noteq> None \<longrightarrow> n \<in> set (pd_stable (snd out)))) \<and>
     (fst out = Inr () \<longrightarrow> find_entry (snd out) target = Some (RegularFile bs) \<and>
       (target \<in> set (pd_stable (snd out)) \<or> find_entry d target \<noteq> None))"

lemma published_fails: "dir_inv d \<Longrightarrow> published_by target bs d (Inl e, d)"
  by (simp add: published_by_def)

lemma dir_inv_sync: "dir_inv d \<Longrightarrow> dir_inv (d\<lparr>pd_stable := map fst (pd_entries d)\<rparr>)"
  by (simp add: dir_inv_def)

lemma sync_publishes:
  assumes "dir_inv d" and "find_entry d target = Some (RegularFile bs)"
  shows "published_by target bs d (sync_directory answer d)"
proof (cases answer)
  case None
  have "n \<in> fst ` set (pd_entries d)" if "find_entry d n = Some e" for n e using map_of_SomeD [OF that] by force
  with None assms dir_inv_sync [OF assms(1)] show ?thesis by (auto simp: sync_directory_def published_by_def)
qed (simp add: sync_directory_def published_fails assms(1))

lemma sync_stable: "fst (sync_directory answer d) = Inr () \<Longrightarrow> find_entry d n \<noteq> None \<Longrightarrow> n \<in> set (pd_stable (snd (sync_directory answer d)))"
  by (cases answer) (auto simp: sync_directory_def dest!: map_of_SomeD intro: rev_image_eqI)

lemma published_by_mono:
  assumes "published_by target bs d' out"
    and "\<And>n e. path_extension n = Some ''cbor'' \<Longrightarrow> find_entry d n = Some e \<Longrightarrow> find_entry d' n = Some e"
    and "pd_stable d' = pd_stable d"
    and "fst out = Inr () \<Longrightarrow> target \<in> set (pd_stable (snd out)) \<or> find_entry d target \<noteq> None"
  shows "published_by target bs d out"
proof -
  have "find_entry d' n \<noteq> None" if "path_extension n = Some ''cbor''" "find_entry d n \<noteq> None" for n
    using assms(2) that by fastforce
  then show ?thesis using assms unfolding published_by_def by simp
qed


lemma link_target_publishes:
  assumes "dir_inv d" and "path_extension target = Some ''cbor''" and "plan_file target (RegularFile bs)"
    and "\<And>e. pio_race io = Some e \<Longrightarrow> plan_file target e"
  shows "published_by target bs d (link_target io d target bs)"
proof -
  define d' where "d' = (case pio_race io of Some e \<Rightarrow> if find_entry d target = None then add_entry target e d else d | None \<Rightarrow> d)"
  have "dir_inv (add_entry target e d)" if "pio_race io = Some e" "find_entry d target = None" for e
    by (rule dir_inv_add [OF assms(1) that(2) disjI2 [OF assms(4) [OF that(1)]]])
  then have inv: "dir_inv d'" using assms(1) by (simp add: d'_def split: option.split)
  have kept: "find_entry d' n = Some e" if "find_entry d n = Some e" for n e
    using that by (auto simp: d'_def add_entry_def map_add_def split: option.splits)
  have stable: "pd_stable d' = pd_stable d" by (simp add: d'_def add_entry_def split: option.splits)
  have sync: "published_by target bs d (sync_directory (pio_sync_dir io) c)"
    if "dir_inv c" "find_entry c target = Some (RegularFile bs)" "pd_stable c = pd_stable d"
      "\<And>n e. find_entry d n = Some e \<Longrightarrow> find_entry c n = Some e" for c
    by (rule published_by_mono [OF sync_publishes [OF that(1,2)]]) (use that sync_stable [of "pio_sync_dir io" c target] in auto)
  have fail: "published_by target bs d (Inl e, d')" for e
    by (rule published_by_mono [OF published_fails [OF inv]]) (use kept stable in auto)
  show ?thesis
  proof (cases "find_entry d' target")
    case None
    let ?c = "add_entry target (RegularFile bs) d'"
    have "dir_inv ?c" by (rule dir_inv_add [OF inv None disjI2 [OF assms(3)]])
    moreover have "find_entry ?c target = Some (RegularFile bs)" "pd_stable ?c = pd_stable d"
      using None stable by (simp_all add: add_entry_def map_add_def)
    moreover have "find_entry ?c n = Some e" if "find_entry d n = Some e" for n e
      using kept [OF that] by (auto simp: add_entry_def map_add_def split: option.splits)
    ultimately have "published_by target bs d (sync_directory (pio_sync_dir io) ?c)" by (rule sync)
    then show ?thesis using None fail
      unfolding link_target_def d'_def [symmetric] Let_def by (auto split: sum.splits)
  next
    case (Some e)
    have "published_by target bs d (sync_directory (pio_sync_dir io) d')" if "verify_existing (pio_target io) e bs = Inr ()"
      using sync [OF inv _ stable kept] Some verify_existing_Inr [OF plan_file_at [OF inv assms(2) Some] that] by simp
    then show ?thesis using Some fail
      unfolding link_target_def d'_def [symmetric] Let_def by (auto split: sum.splits)
  qed
qed

lemma stage_publishes:
  assumes "dir_inv d" and "path_extension target = Some ''cbor''" and "plan_file target (RegularFile bs)"
    and "\<And>e. pio_race io = Some e \<Longrightarrow> plan_file target e" and "path_extension temporary = Some ''pending''"
  shows "published_by target bs d (stage_and_link io d temporary target bs)"
proof -
  have inv: "dir_inv (set_file temporary c d)" for c by (rule dir_inv_set_file [OF assms(1,5)])
  have kept: "find_entry (set_file temporary c d) n = find_entry d n" if "path_extension n = Some ''cbor''" for n c
    using that assms(5) by (auto simp: find_set_file)
  have stable: "pd_stable (set_file temporary c d) = pd_stable d" for c by (simp add: set_file_def)
  have lift: "published_by target bs d out" if "published_by target bs (set_file temporary c d) out" for c out
    by (rule published_by_mono [OF that]) (use that kept [OF assms(2)] in \<open>auto simp: kept stable published_by_def\<close>)
  have "published_by target bs d (link_target io (set_file temporary c d) target bs)" for c
    by (rule lift [OF link_target_publishes [OF inv assms(2,3,4)]])
  moreover have "published_by target bs d (Inl e, set_file temporary c d)" for c e
    by (rule lift [OF published_fails [OF inv]])
  ultimately show ?thesis using published_fails [OF assms(1)]
    by (simp add: stage_and_link_def split: sum.split option.split prod.split)
qed

lemma file_persist_publishes:
  assumes "dir_inv d" and "storable p" and "plan_encode p = Some (Inr bs)"
    and "\<And>e. pio_race io = Some e \<Longrightarrow> plan_file (plan_filename p) e"
  shows "published_by (plan_filename p) bs d (file_persist io d p bs)"
proof -
  let ?t = "plan_filename p"
  have f: "plan_file ?t (RegularFile bs)" using assms(2,3) by (auto simp: plan_file_def)
  have there: "published_by ?t bs d (verify_existing (pio_target io) (the (find_entry d ?t)) bs, d)" if "entry_exists d ?t"
  proof -
    from that obtain e where e: "find_entry d ?t = Some e" by (auto simp: entry_exists_def split: option.splits)
    then show ?thesis
      using assms(1) verify_existing_Inr [OF plan_file_at [OF assms(1) _ e], of "pio_target io" bs] by (auto simp: published_by_def)
  qed
  have fresh: "published_by ?t bs d (r, if pio_remove io then remove_entry (to_hex x @ ''.pending'') d' else d')"
    if "find_entry d (to_hex x @ ''.pending'') = None"
      "stage_and_link io (add_entry (to_hex x @ ''.pending'') (RegularFile []) d) (to_hex x @ ''.pending'') ?t bs = (r, d')" for x r d'
  proof -
    let ?n = "to_hex x @ ''.pending''" and ?d = "add_entry (to_hex x @ ''.pending'') (RegularFile []) d"
    have inv: "dir_inv ?d" by (rule dir_inv_add [OF assms(1) that(1)]) (simp add: staging_file_def)
    have ne: "m \<noteq> ?n" if "path_extension m = Some ''cbor''" for m using that extension_literal(2) [of x] by force
    have "find_entry ?d m = find_entry d m" if "path_extension m = Some ''cbor''" for m
      using ne [OF that] by (auto simp: add_entry_def map_add_def split: option.splits)
    moreover have "pd_stable ?d = pd_stable d" by (simp add: add_entry_def)
    moreover have "published_by ?t bs ?d (r, d')" using stage_publishes [OF inv _ f assms(4), of io ?n] that(2) by simp
    ultimately have s: "published_by ?t bs d (r, d')" by (simp add: published_by_def)
    have "find_entry (remove_entry ?n d') m = find_entry d' m" if "path_extension m = Some ''cbor''" for m
      using ne [OF that] by (rule find_remove)
    moreover have "pd_stable (remove_entry ?n d') = pd_stable d'" by (simp add: remove_entry_def)
    moreover have "dir_inv (remove_entry ?n d')" using s dir_inv_remove [of d' ?n] by (simp add: published_by_def)
    ultimately show ?thesis using s by (simp add: published_by_def)
  qed
  show ?thesis
    using there fresh published_fails [OF assms(1)]
    by (auto simp: file_persist_def Let_def split: sum.splits option.splits prod.splits)
qed


lemma insert_inv:
  assumes "dir_inv d" and "plans_kept d kept" and "storable p" and "\<And>e. pio_race io = Some e \<Longrightarrow> plan_file (plan_filename p) e"
    and "plan_store_insert (file_persist io) \<lparr>pst_plans = plans, pst_storage = Some d\<rparr> p = Some (result, s)"
  shows "dir_inv (the (pst_storage s)) \<and>
    plans_kept (the (pst_storage s)) (if result = Inr () \<and> find_entry d (plan_filename p) = None then p # kept else kept)"
proof (cases "the (pst_storage s) = d \<and> result \<noteq> Inr ()")
  case False
  then obtain bs where bs: "plan_encode p = Some (Inr bs)" and
    out: "file_persist io d p bs = (result, the (pst_storage s))"
    using assms(5) by (auto simp: plan_store_insert_def to_storage_bytes_def split: option.splits sum.splits prod.splits if_split_asm)
  have "published_by (plan_filename p) bs d (file_persist io d p bs)" by (rule file_persist_publishes) fact+
  then have "published_by (plan_filename p) bs d (result, the (pst_storage s))" by (simp add: out)
  with assms(2,3) bs show ?thesis by (fastforce simp: published_by_def plans_kept_def)
qed (use assms(1,2) in simp)

lemma power_loss_inv: "dir_inv d \<Longrightarrow> power_loss d d' \<Longrightarrow> dir_inv d'"
  by (fastforce simp: dir_inv_def power_loss_def)

lemma power_loss_kept: "plans_kept d kept \<Longrightarrow> power_loss d d' \<Longrightarrow> plans_kept d' kept"
proof -
  assume k: "plans_kept d kept" and l: "power_loss d d'"
  have f: "find_entry d' (plan_filename p) = find_entry d (plan_filename p)" if "p \<in> set kept" for p
    using that k l by (simp add: plans_kept_def power_loss_def)
  have "plan_filename p \<in> set (pd_stable d')" if p: "p \<in> set kept" for p
  proof -
    obtain bs where "find_entry d' (plan_filename p) = Some (RegularFile bs)" using k f p by (auto simp: plans_kept_def)
    from map_of_SomeD [OF this] have "plan_filename p \<in> fst ` set (pd_entries d')" by force
    then show ?thesis using l by (simp add: power_loss_def)
  qed
  then show ?thesis using k f by (simp add: plans_kept_def)
qed

definition plan_world_inv :: "plan_world \<Rightarrow> bool" where
  "plan_world_inv w \<longleftrightarrow> dir_inv (pw_dir w) \<and> plans_kept (pw_dir w) (pw_kept w)"

lemma plan_reach_inv: "plan_lives.reach w \<Longrightarrow> plan_world_inv w"
proof (erule plan_lives.reach_invariant)
  show "plan_start w \<Longrightarrow> plan_world_inv w" for w by (auto simp: plan_start_iff plan_world_inv_def dir_inv_def plans_kept_def)
  fix w w'
  assume inv: "plan_world_inv w" and "plan_event w w'"
  from this(2) show "plan_world_inv w'"
  proof cases
    case (event_insert plans p io result s)
    then show ?thesis using inv insert_inv [of "pw_dir w" "pw_kept w" p io plans result s] by (simp add: plan_world_inv_def)
  next
    case (event_power_loss d)
    then show ?thesis using inv power_loss_inv [of "pw_dir w" d] power_loss_kept [of "pw_dir w" "pw_kept w" d]
      by (simp add: plan_world_inv_def)
  qed (use inv in \<open>simp_all add: plan_world_inv_def\<close>)
qed

text \<open>An operating system that answers every call.\<close>

definition willing :: "root_answers \<Rightarrow> (string \<Rightarrow> file_answers) \<Rightarrow> bool" where
  "willing root os \<longleftrightarrow> root = \<lparr>ra_create = None, ra_plain = None, ra_protect = None, ra_list = None\<rparr> \<and>
     os = (\<lambda>_. \<lparr>fa_entry = None, fa_metadata = None, fa_open = None, fa_length = None, fa_read = None, fa_protect = None\<rparr>)"

lemma filename_norm [simp]:
  "plan_key (stored_norm p) = plan_key p"
  "fp_plan_digest (st_envelope (stored_norm p)) = fp_plan_digest (st_envelope p)"
  "plan_filename (stored_norm p) = plan_filename p"
  by (simp_all add: plan_filename_def stored_norm_def)

lemma willing_reads: "willing root os \<Longrightarrow> plan_file n (RegularFile bs) \<Longrightarrow> read_plan_file (os n) (RegularFile bs) = Inr bs"
proof -
  assume w: "willing root os" and "plan_file n (RegularFile bs)"
  then obtain p where l: "storable p" "plan_encode p = Some (Inr bs)" by (auto simp: plan_file_def)
  then have "\<not> MAX_BYTES < of_nat (length bs)" by (simp add: plan_encode_Inr)
  moreover have "take (unat (MAX_BYTES + 1)) bs = bs" using small_file [OF l] by (simp add: MAX_BYTES_def)
  ultimately show ?thesis using w by (simp add: read_plan_file_def require_plain_file_def willing_def Let_def)
qed

lemma plan_file_decodes: "storable p \<Longrightarrow> plan_encode p = Some (Inr bs) \<Longrightarrow> plan_decode bs = Some (Inr (stored_norm p))"
  by (rule plan_decode_encode) (auto simp: storable_def)

lemma open_entries_reads:
  assumes "willing root os" and "\<forall>(n, e) \<in> set d. staging_file n e \<or> plan_file n e"
  shows "\<exists>ps. open_entries os d = Some (Inr ps) \<and> map plan_filename ps = filter (\<lambda>n. path_extension n = Some ''cbor'') (map fst d) \<and>
    (\<forall>p bs. storable p \<longrightarrow> plan_encode p = Some (Inr bs) \<longrightarrow> (plan_filename p, RegularFile bs) \<in> set d \<longrightarrow> stored_norm p \<in> set ps) \<and>
    (\<forall>p \<in> set ps. plan_validate p = Some (Inr ()))"
  using assms(2)
proof (induction d)
  case (Cons x d)
  obtain n e where x: "x = (n, e)" by (cases x)
  from Cons obtain ps where IH: "open_entries os d = Some (Inr ps)" "map plan_filename ps = filter (\<lambda>n. path_extension n = Some ''cbor'') (map fst d)"
    "\<forall>p bs. storable p \<longrightarrow> plan_encode p = Some (Inr bs) \<longrightarrow> (plan_filename p, RegularFile bs) \<in> set d \<longrightarrow> stored_norm p \<in> set ps"
    "\<forall>p \<in> set ps. plan_validate p = Some (Inr ())" by auto
  have plain: "require_plain_file (os n) (RegularFile bs) = Inr bs" "fa_entry (os n) = None" "fa_protect (os n) = None" for bs
    using assms(1) by (simp_all add: willing_def require_plain_file_def)
  from Cons.prems x consider "staging_file n e" | "plan_file n e" by auto
  then show ?case
  proof cases
    case 1
    then show ?thesis using IH x plain by (intro exI [of _ ps]) (auto simp: staging_file_def)
  next
    case 2
    then obtain p bs where p: "storable p" "plan_encode p = Some (Inr bs)" "n = plan_filename p" "e = RegularFile bs"
      by (auto simp: plan_file_def)
    note d = plan_file_decodes [OF p(1,2)]
    have "plan_validate (stored_norm p) = Some (Inr ())" using plan_encode_norm [OF p(2)] by (simp add: plan_encode_Inr)
    moreover have "open_entries os (x # d) = Some (Inr (stored_norm p # ps))"
      using IH(1) x p(3,4) plain d willing_reads [OF assms(1) 2 [unfolded p(4)]] by (simp add: from_storage_bytes_def)
    moreover have "stored_norm q = stored_norm p" if "storable q" "plan_encode q = Some (Inr bs)" for q
      using plan_file_decodes [OF that] d by simp
    ultimately show ?thesis using IH(2-4) x p(3,4) by (intro exI [of _ "stored_norm p # ps"]) auto
  qed
qed simp


section \<open>Example lives\<close>

definition ex_root :: root_answers where
  "ex_root = \<lparr>ra_create = None, ra_plain = None, ra_protect = None, ra_list = None\<rparr>"

definition ex_files :: "string \<Rightarrow> file_answers" where
  "ex_files = (\<lambda>_. \<lparr>fa_entry = None, fa_metadata = None, fa_open = None, fa_length = None, fa_read = None, fa_protect = None\<rparr>)"

definition ex_persist_io :: "string option \<Rightarrow> persist_io" where
  "ex_persist_io sync = \<lparr>pio_root = None, pio_exists = None, pio_target = ex_files [], pio_random = Inr [], pio_open = None,
     pio_taken = [], pio_protect = None, pio_write = None, pio_sync = None, pio_race = None, pio_link = None,
     pio_sync_dir = sync, pio_remove = True\<rparr>"

definition ex_published :: "stored_plan \<Rightarrow> bytes \<Rightarrow> plan_dir" where
  "ex_published p bs = \<lparr>pd_entries = [(plan_filename p, RegularFile bs)], pd_stable = []\<rparr>"

lemma ex_willing: "willing ex_root ex_files"
  by (simp add: willing_def ex_root_def ex_files_def)

lemma ex_persist:
  "file_persist (ex_persist_io None) \<lparr>pd_entries = [], pd_stable = []\<rparr> p bs =
     (Inr (), (ex_published p bs)\<lparr>pd_stable := [to_hex (sha256 []) @ ''.pending'', plan_filename p]\<rparr>)"
  "file_persist (ex_persist_io (Some e)) \<lparr>pd_entries = [], pd_stable = []\<rparr> p bs = (Inl (failure e), ex_published p bs)"
proof -
  have "plan_filename p \<noteq> to_hex x @ ''.pending''" for x
  proof
    assume "plan_filename p = to_hex x @ ''.pending''"
    then have "path_extension (plan_filename p) = Some ''pending''" by (simp only: extension_literal(2))
    then show False by simp
  qed
  then show "file_persist (ex_persist_io None) \<lparr>pd_entries = [], pd_stable = []\<rparr> p bs =
     (Inr (), (ex_published p bs)\<lparr>pd_stable := [to_hex (sha256 []) @ ''.pending'', plan_filename p]\<rparr>)"
    "file_persist (ex_persist_io (Some e)) \<lparr>pd_entries = [], pd_stable = []\<rparr> p bs = (Inl (failure e), ex_published p bs)"
    by (simp_all add: file_persist_def ex_persist_io_def entry_exists_def stage_and_link_def link_target_def set_file_def
        add_entry_def remove_entry_def sync_directory_def Let_def ex_published_def)
qed

lemma ex_opened:
  "plan_lives.reach \<lparr>pw_dir = \<lparr>pd_entries = [], pd_stable = []\<rparr>, pw_plans = Some Map.empty, pw_kept = []\<rparr>"
proof -
  let ?w = "\<lparr>pw_dir = \<lparr>pd_entries = [], pd_stable = []\<rparr>, pw_plans = None, pw_kept = []\<rparr>"
  have "plan_store_open (file_open ex_root ex_files) (pw_dir ?w) = Some (Inr \<lparr>pst_plans = Map.empty, pst_storage = Some (pw_dir ?w)\<rparr>)"
    by (simp add: plan_store_open_def file_open_def ex_root_def)
  from event_open [OF _ this] show ?thesis by (auto intro: plan_lives.reach.intros empty_dir)
qed

lemma ex_insert:
  assumes "plan_encode p = Some (Inr bs)"
  shows "plan_store_insert persist \<lparr>pst_plans = Map.empty, pst_storage = Some d\<rparr> p =
    (case persist d p bs of
       (Inl e, d') \<Rightarrow> Some (Inl e, \<lparr>pst_plans = Map.empty, pst_storage = Some d'\<rparr>)
     | (Inr _, d') \<Rightarrow> Some (Inr (), \<lparr>pst_plans = [plan_key p \<mapsto> p], pst_storage = Some d'\<rparr>))"
  using assms by (simp add: plan_store_insert_def to_storage_bytes_def owned_by_other_def split: prod.split sum.split)

lemma ex_inserted:
  assumes "storable p" and "plan_encode p = Some (Inr bs)"
  shows "\<exists>w. plan_lives.reach w \<and> pw_kept w = [p]"
    and "plan_lives.reach \<lparr>pw_dir = ex_published p bs, pw_plans = Some Map.empty, pw_kept = []\<rparr>"
proof -
  let ?w = "\<lparr>pw_dir = \<lparr>pd_entries = [], pd_stable = []\<rparr>, pw_plans = Some Map.empty, pw_kept = []\<rparr>"
  have "pio_race (ex_persist_io e) = None" for e by (simp add: ex_persist_io_def)
  then have step: "plan_event ?w \<lparr>pw_dir = the (pst_storage s), pw_plans = Some (pst_plans s), pw_kept = (if r = Inr () then [p] else [])\<rparr>"
    if "plan_store_insert (file_persist (ex_persist_io e)) \<lparr>pst_plans = Map.empty, pst_storage = Some (pw_dir ?w)\<rparr> p = Some (r, s)" for e r s
    using event_insert [of ?w Map.empty p "ex_persist_io e" r s] that assms(1) by (simp split: if_splits)
  show "\<exists>w. plan_lives.reach w \<and> pw_kept w = [p]"
    using plan_lives.reach.intros(2) [OF ex_opened step [of None]] by (fastforce simp: ex_insert [OF assms(2)] ex_persist)
  show "plan_lives.reach \<lparr>pw_dir = ex_published p bs, pw_plans = Some Map.empty, pw_kept = []\<rparr>"
    using plan_lives.reach.intros(2) [OF ex_opened step [of "Some []"]] by (simp add: ex_insert [OF assms(2)] ex_persist)
qed

lemma ex_storable: "\<exists>p bs. storable p \<and> plan_encode p = Some (Inr bs)"
  using ex_stored by (fastforce simp: storable_def)

section \<open>Properties\<close>



text \<open>
  C37. A repeated insertion may report a plan as stored before its name is stable. When the first insertion fails
  because the directory could not be synced, the file is already linked; the second one finds the file, compares it and
  reports success without syncing the directory. A loss of power may then remove the file, and the reopened store does
  not know the plan.
\<close>

theorem retried_insert_may_be_lost:
  "\<exists>w plans p io s d s'. plan_lives.reach w \<and> pw_plans w = Some plans \<and> storable p \<and> pio_race io = None \<and>
     plan_store_insert (file_persist io) \<lparr>pst_plans = plans, pst_storage = Some (pw_dir w)\<rparr> p = Some (Inr (), s) \<and>
     power_loss (the (pst_storage s)) d \<and> plan_store_open (file_open ex_root ex_files) d = Some (Inr s') \<and>
     plan_store_get s' (fp_plan_id (st_envelope p)) (fp_plan_digest (st_envelope p)) = Some (Inl (UnknownPlan (plan_key p)))"
proof -
  obtain p bs where p: "storable p" "plan_encode p = Some (Inr bs)" using ex_storable by blast
  let ?w = "\<lparr>pw_dir = ex_published p bs, pw_plans = Some Map.empty, pw_kept = []\<rparr>" and ?d = "\<lparr>pd_entries = [], pd_stable = []\<rparr>"
  have "plan_file (plan_filename p) (RegularFile bs)" using p by (auto simp: plan_file_def)
  from willing_reads [OF ex_willing this] have "verify_existing (pio_target (ex_persist_io None)) (RegularFile bs) bs = Inr ()"
    by (simp add: verify_existing_def ex_persist_io_def ex_files_def)
  then have "file_persist (ex_persist_io None) (ex_published p bs) p bs = (Inr (), ex_published p bs)"
    by (simp add: file_persist_def ex_persist_io_def entry_exists_def ex_published_def)
  then have i: "plan_store_insert (file_persist (ex_persist_io None)) \<lparr>pst_plans = Map.empty, pst_storage = Some (ex_published p bs)\<rparr> p =
      Some (Inr (), \<lparr>pst_plans = [plan_key p \<mapsto> p], pst_storage = Some (ex_published p bs)\<rparr>)"
    by (simp add: ex_insert [OF p(2)])
  have "power_loss (ex_published p bs) ?d" by (simp add: power_loss_def ex_published_def)
  moreover have "plan_store_open (file_open ex_root ex_files) ?d = Some (Inr \<lparr>pst_plans = Map.empty, pst_storage = Some ?d\<rparr>)"
    by (simp add: plan_store_open_def file_open_def ex_root_def)
  moreover have "plan_store_get \<lparr>pst_plans = Map.empty, pst_storage = Some ?d\<rparr> (fp_plan_id (st_envelope p))
      (fp_plan_digest (st_envelope p)) = Some (Inl (UnknownPlan (plan_key p)))" by (simp add: plan_store_get_def)
  ultimately show ?thesis using ex_inserted(2) [OF p] i p(1)
    by (intro exI [of _ ?w] exI [of _ Map.empty] exI [of _ p] exI [of _ "ex_persist_io None"]) (fastforce simp: ex_persist_io_def)
qed

end
