(* ===== verification/Verification.thy ===== *)
theory Verification
  imports Effect
begin

text \<open>
  \<open>crates/arkforge-core/src/verification.rs\<close>: what reading a range back can establish. A read face that does not reach the
  whole medium answers with filler outside its window, so there an observation neither confirms nor refutes.
\<close>

section \<open>Strengths and domains\<close>

datatype verification_strength = SemanticOnly | PrefixHash | SampledRanges | FullHash

fun strength_as_str :: "verification_strength \<Rightarrow> string" where
  "strength_as_str SemanticOnly = ''semanticOnly''"
| "strength_as_str PrefixHash = ''prefixHash''"
| "strength_as_str SampledRanges = ''sampledRanges''"
| "strength_as_str FullHash = ''fullHash''"

definition strength_parse :: "string \<Rightarrow> verification_strength option" where
  "strength_parse value =
     (if value = ''semanticOnly'' then Some SemanticOnly
      else if value = ''prefixHash'' then Some PrefixHash
      else if value = ''sampledRanges'' then Some SampledRanges
      else if value = ''fullHash'' then Some FullHash
      else None)"

text \<open>The derived order: later variants are stronger.\<close>

fun strength_rank :: "verification_strength \<Rightarrow> nat" where
  "strength_rank SemanticOnly = 0"
| "strength_rank PrefixHash = 1"
| "strength_rank SampledRanges = 2"
| "strength_rank FullHash = 3"

lemma strength_rank_inject: "strength_rank a = strength_rank b \<longleftrightarrow> a = b"
  by (cases a; cases b) simp_all

instantiation verification_strength :: linorder
begin

definition less_eq_verification_strength :: "verification_strength \<Rightarrow> verification_strength \<Rightarrow> bool" where
  "a \<le> b \<longleftrightarrow> strength_rank a \<le> strength_rank b"

definition less_verification_strength :: "verification_strength \<Rightarrow> verification_strength \<Rightarrow> bool" where
  "a < b \<longleftrightarrow> strength_rank a < strength_rank b"

instance
  by standard (auto simp: less_eq_verification_strength_def less_verification_strength_def strength_rank_inject)

end

datatype read_domain_declaration = DeclaredFull | CharacterizeAtRuntime

fun read_domain_as_str :: "read_domain_declaration \<Rightarrow> string" where
  "read_domain_as_str DeclaredFull = ''full''"
| "read_domain_as_str CharacterizeAtRuntime = ''characterize-at-runtime''"

definition read_domain_parse :: "string \<Rightarrow> read_domain_declaration option" where
  "read_domain_parse value =
     (if value = ''full'' then Some DeclaredFull
      else if value = ''characterize-at-runtime'' then Some CharacterizeAtRuntime
      else None)"

datatype measured_read_domain = MeasuredFull | Windowed string

fun domain_covers :: "measured_read_domain \<Rightarrow> byte_range \<Rightarrow> bool" where
  "domain_covers MeasuredFull rng \<longleftrightarrow> True"
| "domain_covers (Windowed detail) rng \<longleftrightarrow> False"

fun domain_detail :: "measured_read_domain \<Rightarrow> string option" where
  "domain_detail MeasuredFull = None"
| "domain_detail (Windowed detail) = Some detail"

fun measured_to_cbor :: "measured_read_domain \<Rightarrow> cbor" where
  "measured_to_cbor MeasuredFull = cbor_map [(''domain'', CText ''full''), (''detail'', CNull)]"
| "measured_to_cbor (Windowed detail) = cbor_map [(''domain'', CText ''windowed''), (''detail'', CText detail)]"

section \<open>Verdicts\<close>

datatype readback_observation =
    ContentMatched
  | UniformFiller u8
  | ContentMismatched sha256_digest

datatype typed_skip_reason = OutsideReadDomain | ProfileDeclaresUnreachable

fun skip_reason_as_str :: "typed_skip_reason \<Rightarrow> string" where
  "skip_reason_as_str OutsideReadDomain = ''skipped-lba-read-window''"
| "skip_reason_as_str ProfileDeclaresUnreachable = ''profile-declares-unreachable''"

datatype failure_classification = ContentMismatch | ErasedMediumFiller

fun classification_as_str :: "failure_classification \<Rightarrow> string" where
  "classification_as_str ContentMismatch = ''content-mismatch''"
| "classification_as_str ErasedMediumFiller = ''erased-medium-filler''"

datatype verification_outcome =
    Verified verification_strength byte_range
  | TypedSkip byte_range typed_skip_reason string
  | VerificationFailed byte_range failure_classification

fun verified_strength :: "verification_outcome \<Rightarrow> verification_strength option" where
  "verified_strength (Verified strength rng) = Some strength"
| "verified_strength _ = None"

fun outcome_is_failure :: "verification_outcome \<Rightarrow> bool" where
  "outcome_is_failure (VerificationFailed rng c) \<longleftrightarrow> True"
| "outcome_is_failure _ \<longleftrightarrow> False"

fun outcome_as_str :: "verification_outcome \<Rightarrow> string" where
  "outcome_as_str (Verified strength rng) = ''verified''"
| "outcome_as_str (TypedSkip rng reason detail) = ''typedSkip''"
| "outcome_as_str (VerificationFailed rng c) = ''failed''"

fun outcome_to_cbor :: "verification_outcome \<Rightarrow> cbor" where
  "outcome_to_cbor (Verified strength rng) = cbor_map [
     (''outcome'', CText ''verified''), (''strength'', CText (strength_as_str strength)), (''range'', byte_range_to_cbor rng)]"
| "outcome_to_cbor (TypedSkip rng reason detail) = cbor_map [
     (''outcome'', CText ''typedSkip''), (''range'', byte_range_to_cbor rng),
     (''reason'', CText (skip_reason_as_str reason)), (''detail'', CText detail)]"
| "outcome_to_cbor (VerificationFailed rng c) = cbor_map [
     (''outcome'', CText ''failed''), (''range'', byte_range_to_cbor rng),
     (''classification'', CText (classification_as_str c))]"

section \<open>Declarations and the classification\<close>

record verification_fallback =
  vf_write_completion_semantics :: bool
  vf_build_postflight :: bool

record target_verification_declaration =
  tv_max_strength_when_readable :: verification_strength
  tv_fallback :: verification_fallback

definition classify_verification ::
  "byte_range \<Rightarrow> measured_read_domain \<Rightarrow> target_verification_declaration \<Rightarrow> readback_observation option \<Rightarrow> verification_outcome" where
  "classify_verification rng read_domain declaration observation =
     (if \<not> domain_covers read_domain rng then
        TypedSkip rng OutsideReadDomain
          (case domain_detail read_domain of Some detail \<Rightarrow> detail | None \<Rightarrow> ''read domain does not cover this range'')
      else
        case observation of
          None \<Rightarrow> TypedSkip rng ProfileDeclaresUnreachable ''no readback was performed for this target''
        | Some ContentMatched \<Rightarrow> Verified (tv_max_strength_when_readable declaration) rng
        | Some (UniformFiller byte) \<Rightarrow> VerificationFailed rng ErasedMediumFiller
        | Some (ContentMismatched observed) \<Rightarrow> VerificationFailed rng ContentMismatch)"

section \<open>Lemmas\<close>

interpretation strength: vocabulary strength_as_str strength_parse
proof
  show "strength_parse (strength_as_str k) = Some k" for k
    by (cases k) (simp_all add: strength_parse_def)
qed (auto simp: strength_parse_def split: if_splits)

interpretation read_domain: vocabulary read_domain_as_str read_domain_parse
proof
  show "read_domain_parse (read_domain_as_str k) = Some k" for k
    by (cases k) (simp_all add: read_domain_parse_def)
qed (auto simp: read_domain_parse_def split: if_splits)

lemma skip_reason_inject: "skip_reason_as_str a = skip_reason_as_str b \<longleftrightarrow> a = b"
  by (cases a; cases b) simp_all

lemma classification_inject: "classification_as_str a = classification_as_str b \<longleftrightarrow> a = b"
  by (cases a; cases b) simp_all

lemmas outcome_inject = cbor_inject strength.as_str_inject skip_reason_inject classification_inject

lemma outcome_to_cbor_inject: "canon (outcome_to_cbor a) = canon (outcome_to_cbor b) \<longleftrightarrow> a = b"
  by (cases a; cases b) (auto simp: canon_record_iff outcome_inject canon_differ [where k = "''outcome''"])

section \<open>Properties\<close>


end
