(* ===== verification/Wire.thy ===== *)
theory Wire
  imports Prelude
begin

unbundle bit_operations_syntax

text \<open>
  \<open>crates/arkforge-ipc/src/wire.rs\<close>: the subset of the protobuf wire format that the daemon speaks. A writer returns the
  bytes that it appends to \<open>out\<close>. The reader is its input, a position and a depth; every message is read by one loop over
  its fields (\<open>fold_fields\<close>) with the \<open>match\<close> on the field number as its argument.
\<close>

section \<open>Writers\<close>

type_synonym i32 = "32 word"

datatype wire_type = WireVarint | WireLengthDelimited | WireFixed64 | WireFixed32

datatype wire_error =
    WireTruncated
  | VarintTooLong
  | UnsupportedWireType u32
  | FieldZero
  | WireInvalidUtf8 u32
  | LengthOverflow
  | WireDepthLimit
  | WireTrailingBytes nat
  | UnknownEnumValue u32 i64
  | FrameTooLarge nat
  | MissingField string u32

definition wire_type_from_tag :: "u32 \<Rightarrow> wire_error + wire_type" where
  "wire_type_from_tag value =
     (if value = 0 then Inr WireVarint
      else if value = 1 then Inr WireFixed64
      else if value = 2 then Inr WireLengthDelimited
      else if value = 5 then Inr WireFixed32
      else Inl (UnsupportedWireType value))"

fun wire_type_tag :: "wire_type \<Rightarrow> u32" where
  "wire_type_tag WireVarint = 0"
| "wire_type_tag WireFixed64 = 1"
| "wire_type_tag WireLengthDelimited = 2"
| "wire_type_tag WireFixed32 = 5"

function write_varint :: "u64 \<Rightarrow> bytes" where
  "write_varint value =
     (let byte = (ucast (value AND 0x7f) :: u8); rest = drop_bit 7 value in
      if rest = 0 then [byte] else (byte OR 0x80) # write_varint rest)"
  by pat_completeness auto
termination write_varint
proof (relation "measure unat")
  fix v :: u64 and byte :: u8 and rest
  assume "rest = drop_bit 7 v" and "rest \<noteq> 0"
  then show "(rest, v) \<in> measure unat"
    by (cases "v = 0") (auto simp: drop_bit_eq_div unat_div_distrib unat_gt_0 intro!: div_less_dividend)
qed simp

declare write_varint.simps [simp del]

definition write_tag :: "u32 \<Rightarrow> wire_type \<Rightarrow> bytes" where
  "write_tag field wire_type = write_varint (push_bit 3 (ucast field) OR ucast (wire_type_tag wire_type))"

definition write_uint64 :: "u32 \<Rightarrow> u64 \<Rightarrow> bytes" where
  "write_uint64 field value = (if value = 0 then [] else write_tag field WireVarint @ write_varint value)"

definition write_uint32 :: "u32 \<Rightarrow> u32 \<Rightarrow> bytes" where
  "write_uint32 field value = write_uint64 field (ucast value)"

definition write_bool :: "u32 \<Rightarrow> bool \<Rightarrow> bytes" where
  "write_bool field value = (if \<not> value then [] else write_tag field WireVarint @ write_varint 1)"

definition write_enum :: "u32 \<Rightarrow> i32 \<Rightarrow> bytes" where
  "write_enum field value = (if value = 0 then [] else write_tag field WireVarint @ write_varint (scast value))"

definition write_bytes :: "u32 \<Rightarrow> bytes \<Rightarrow> bytes" where
  "write_bytes field value =
     (if value = [] then [] else write_tag field WireLengthDelimited @ write_varint (of_nat (length value)) @ value)"

definition write_string :: "u32 \<Rightarrow> string \<Rightarrow> bytes" where
  "write_string field value = (if value = [] then [] else write_bytes field (str_bytes value))"

definition write_message :: "u32 \<Rightarrow> bytes \<Rightarrow> bytes" where
  "write_message field body = write_tag field WireLengthDelimited @ write_varint (of_nat (length body)) @ body"

section \<open>The reader\<close>

datatype field_value = FieldVarint u64 | FieldBytes bytes | FieldFixed64 bytes | FieldFixed32 bytes

fun field_as_u64 :: "field_value \<Rightarrow> wire_error + u64" where
  "field_as_u64 (FieldVarint value) = Inr value"
| "field_as_u64 _ = Inl (UnsupportedWireType 9)"

definition field_as_bool :: "field_value \<Rightarrow> wire_error + bool" where
  "field_as_bool v = rbind (field_as_u64 v) (\<lambda>n. Inr (n \<noteq> 0))"

fun field_as_bytes :: "field_value \<Rightarrow> wire_error + bytes" where
  "field_as_bytes (FieldBytes value) = Inr value"
| "field_as_bytes _ = Inl (UnsupportedWireType 9)"

definition field_as_str :: "field_value \<Rightarrow> u32 \<Rightarrow> wire_error + string" where
  "field_as_str v field =
     rbind (field_as_bytes v) (\<lambda>bs. if utf8_valid bs then Inr (bytes_str bs) else Inl (WireInvalidUtf8 field))"

record wire_reader =
  rd_input :: bytes
  rd_position :: nat
  rd_depth :: nat

definition WIRE_MAX_DEPTH :: nat where
  "WIRE_MAX_DEPTH = 16"

definition reader_new :: "bytes \<Rightarrow> wire_reader" where
  "reader_new input = \<lparr>rd_input = input, rd_position = 0, rd_depth = 0\<rparr>"

definition nested_reader :: "wire_reader \<Rightarrow> field_value \<Rightarrow> wire_error + wire_reader" where
  "nested_reader r value =
     (if WIRE_MAX_DEPTH < rd_depth r + 1 then Inl WireDepthLimit
      else rbind (field_as_bytes value) (\<lambda>input.
        Inr \<lparr>rd_input = input, rd_position = 0, rd_depth = rd_depth r + 1\<rparr>))"

function read_varint_loop :: "wire_reader \<Rightarrow> u64 \<Rightarrow> nat \<Rightarrow> wire_error + u64 \<times> wire_reader" where
  "read_varint_loop r value shift =
     (if 64 \<le> shift then Inl VarintTooLong
      else if length (rd_input r) \<le> rd_position r then Inl WireTruncated
      else
        let byte = rd_input r ! rd_position r;
            r' = r\<lparr>rd_position := rd_position r + 1\<rparr>;
            value' = value OR push_bit shift (ucast (byte AND 0x7f)) in
        if byte AND 0x80 = 0 then Inr (value', r') else read_varint_loop r' value' (shift + 7))"
  by pat_completeness auto
termination read_varint_loop
  by (relation "measure (\<lambda>(r, value, shift). 64 - shift)") auto

declare read_varint_loop.simps [simp del]

definition read_varint :: "wire_reader \<Rightarrow> wire_error + u64 \<times> wire_reader" where
  "read_varint r = read_varint_loop r 0 0"

definition read_fixed :: "wire_reader \<Rightarrow> nat \<Rightarrow> wire_error + bytes \<times> wire_reader" where
  "read_fixed r n =
     (let last = rd_position r + n in
      if length (rd_input r) < last then Inl WireTruncated
      else Inr (slice (rd_position r) last (rd_input r), r\<lparr>rd_position := last\<rparr>))"

fun read_field_value :: "wire_type \<Rightarrow> wire_reader \<Rightarrow> wire_error + field_value \<times> wire_reader" where
  "read_field_value WireVarint r = rbind (read_varint r) (\<lambda>(n, r). Inr (FieldVarint n, r))"
| "read_field_value WireLengthDelimited r =
     rbind (read_varint r) (\<lambda>(n, r).
       let last = rd_position r + unat n in
       if 2 ^ 64 \<le> last \<or> length (rd_input r) < last then Inl LengthOverflow
       else Inr (FieldBytes (slice (rd_position r) last (rd_input r)), r\<lparr>rd_position := last\<rparr>))"
| "read_field_value WireFixed64 r = rbind (read_fixed r 8) (\<lambda>(bs, r). Inr (FieldFixed64 bs, r))"
| "read_field_value WireFixed32 r = rbind (read_fixed r 4) (\<lambda>(bs, r). Inr (FieldFixed32 bs, r))"

definition next_field :: "wire_reader \<Rightarrow> wire_error + (u32 \<times> field_value) option \<times> wire_reader" where
  "next_field r =
     (if length (rd_input r) \<le> rd_position r then Inr (None, r)
      else rbind (read_varint r) (\<lambda>(key, r).
        let field = (ucast (drop_bit 3 key) :: u32) in
        if field = 0 then Inl FieldZero
        else rbind (wire_type_from_tag (ucast (key AND 0x7))) (\<lambda>wire_type.
          rbind (read_field_value wire_type r) (\<lambda>(value, r). Inr (Some (field, value), r)))))"

definition decode_enum :: "u32 \<Rightarrow> field_value \<Rightarrow> (i32 \<Rightarrow> 'a option) \<Rightarrow> wire_error + 'a" where
  "decode_enum field value parse =
     rbind (field_as_u64 value) (\<lambda>raw.
       if sint raw < - (2 ^ 31) \<or> 2 ^ 31 \<le> sint raw then Inl (UnknownEnumValue field raw)
       else ok_or (parse (ucast raw)) (UnknownEnumValue field raw))"

section \<open>The loop over the fields of a message\<close>

lemma read_varint_loop_progress:
  "read_varint_loop r value shift = Inr (n, r') \<Longrightarrow>
     rd_input r' = rd_input r \<and> rd_depth r' = rd_depth r \<and> rd_position r < rd_position r' \<and> rd_position r' \<le> length (rd_input r)"
proof (induction r "value" shift rule: read_varint_loop.induct)
  case (1 r v shift)
  from 1(2) have "\<not> 64 \<le> shift" "\<not> length (rd_input r) \<le> rd_position r"
    by (auto simp: read_varint_loop.simps [of r v shift] split: if_splits)
  with 1(2) 1(1) [OF this refl refl refl] show ?case
    by (auto simp: read_varint_loop.simps [of r v shift] Let_def split: if_splits)
qed

lemma read_field_value_progress:
  "read_field_value t r = Inr (v, r') \<Longrightarrow> rd_input r' = rd_input r \<and> rd_depth r' = rd_depth r \<and> rd_position r \<le> rd_position r'"
  by (cases t) (auto simp: read_varint_def read_fixed_def Let_def split: if_splits dest!: read_varint_loop_progress)

lemma next_field_progress:
  "next_field r = Inr (Some (f, v), r') \<Longrightarrow>
     rd_input r' = rd_input r \<and> rd_depth r' = rd_depth r \<and> rd_position r < rd_position r' \<and> rd_position r < length (rd_input r)"
  by (auto simp: next_field_def read_varint_def Let_def split: if_splits dest!: read_varint_loop_progress read_field_value_progress)

text \<open>\<open>while let Some((field, value)) = reader.next_field()? { match field { ... } }\<close>\<close>

function fold_fields :: "(u32 \<Rightarrow> field_value \<Rightarrow> 's \<Rightarrow> wire_error + 's) \<Rightarrow> wire_reader \<Rightarrow> 's \<Rightarrow> wire_error + 's" where
  "fold_fields handle r s =
     (case next_field r of
        Inl e \<Rightarrow> Inl e
      | Inr (None, _) \<Rightarrow> Inr s
      | Inr (Some (field, value), r') \<Rightarrow> rbind (handle field value s) (\<lambda>s'. fold_fields handle r' s'))"
  by pat_completeness auto
termination fold_fields
  by (relation "measure (\<lambda>(h, r, s). length (rd_input r) - rd_position r)") (auto dest!: next_field_progress)

declare fold_fields.simps [simp del]

section \<open>Lemmas: varints\<close>

lemma bit_0x80: "bit (0x80 :: int) n \<longleftrightarrow> n = 7"
proof -
  have "(0x80 :: int) = 2 ^ 7" by simp
  then show ?thesis by (simp only: bit_exp_iff) auto
qed

lemma varint_byte_last: "(ucast (ucast (v AND 0x7f :: u64) AND 0x7f :: u8) :: u64) = v AND 0x7f" "(ucast (v AND 0x7f :: u64) :: u8) AND 0x80 = 0"
proof -
  have m: "(0x7f :: 'a::len word) = mask 7" by (simp add: mask_eq_exp_minus_1)
  show "(ucast (ucast (v AND 0x7f :: u64) AND 0x7f :: u8) :: u64) = v AND 0x7f"
    unfolding m by (rule bit_word_eqI) (auto simp: bit_simps)
  show "(ucast (v AND 0x7f :: u64) :: u8) AND 0x80 = 0"
    unfolding m by (rule bit_word_eqI) (auto simp: bit_simps bit_0x80)
qed

lemma varint_byte_more:
  "(ucast ((ucast (v AND 0x7f :: u64) OR 0x80) AND 0x7f :: u8) :: u64) = v AND 0x7f"
  "((ucast (v AND 0x7f :: u64) :: u8) OR 0x80) AND 0x80 \<noteq> 0"
proof -
  have m: "(0x7f :: 'a::len word) = mask 7" by (simp add: mask_eq_exp_minus_1)
  show "(ucast ((ucast (v AND 0x7f :: u64) OR 0x80) AND 0x7f :: u8) :: u64) = v AND 0x7f"
    unfolding m by (rule bit_word_eqI) (auto simp: bit_simps bit_0x80)
  have "bit (((ucast (v AND 0x7f :: u64) :: u8) OR 0x80) AND 0x80) 7" by (simp add: bit_simps bit_0x80)
  then show "((ucast (v AND 0x7f :: u64) :: u8) OR 0x80) AND 0x80 \<noteq> 0" by auto
qed

lemma varint_split: "(v AND 0x7f) OR push_bit 7 (drop_bit 7 v) = (v :: u64)"
proof -
  have m: "(0x7f :: u64) = mask 7" by (simp add: mask_eq_exp_minus_1)
  show ?thesis unfolding m
  proof (rule bit_word_eqI)
    fix n
    assume "n < LENGTH(64)"
    then show "bit ((v AND mask 7) OR push_bit 7 (drop_bit 7 v)) n \<longleftrightarrow> bit v n"
      by (cases "n < 7") (auto simp: bit_simps)
  qed
qed

lemma read_varint_loop_written:
  assumes "rd_input r = pre @ write_varint v @ post" and "rd_position r = length pre" and "shift < 64"
    and "drop_bit (64 - shift) v = 0"
  shows "read_varint_loop r acc shift = Inr (acc OR push_bit shift v, r\<lparr>rd_position := length pre + length (write_varint v)\<rparr>)"
  using assms
proof (induction v arbitrary: r pre acc shift rule: write_varint.induct)
  case (1 v)
  let ?b = "ucast (v AND 0x7f) :: u8" and ?rest = "drop_bit 7 v"
  show ?case
  proof (cases "?rest = 0")
    case True
    then have w: "write_varint v = [?b]" by (simp add: write_varint.simps [of v])
    have "v AND 0x7f = v" using varint_split [of v] True by simp
    then show ?thesis using 1(2-4) varint_byte_last [of v]
      by (simp add: read_varint_loop.simps [of r] w nth_append Let_def)
  next
    case False
    then have w: "write_varint v = (?b OR 0x80) # write_varint ?rest" by (simp add: write_varint.simps [of v] Let_def)
    have s: "shift + 7 < 64"
    proof (rule ccontr)
      assume "\<not> shift + 7 < 64"
      then have "64 - shift \<le> 7" by simp
      then have "?rest = drop_bit (7 - (64 - shift)) (drop_bit (64 - shift) v)" by simp
      with 1(5) False show False by simp
    qed
    let ?r = "r\<lparr>rd_position := rd_position r + 1\<rparr>"
    have "drop_bit (64 - (shift + 7)) ?rest = 0" using 1(5) s by (simp add: add.commute)
    then have "read_varint_loop ?r (acc OR push_bit shift (v AND 0x7f)) (shift + 7) =
        Inr ((acc OR push_bit shift (v AND 0x7f)) OR push_bit (shift + 7) ?rest,
          ?r\<lparr>rd_position := length (pre @ [?b OR 0x80]) + length (write_varint ?rest)\<rparr>)"
      using 1(2,3) s by (intro 1(1) [OF refl refl False]) (simp_all add: w)
    moreover have "(acc OR push_bit shift (v AND 0x7f)) OR push_bit (shift + 7) ?rest = acc OR push_bit shift v"
    proof -
      have "push_bit shift v = push_bit shift ((v AND 0x7f) OR push_bit 7 ?rest)" by (simp only: varint_split)
      then show ?thesis by (simp add: push_bit_or add.commute or.assoc)
    qed
    ultimately show ?thesis using 1(2-4) varint_byte_more [of v]
      by (simp add: read_varint_loop.simps [of r] w nth_append Let_def)
  qed
qed

lemma read_varint_written:
  "rd_input r = pre @ write_varint v @ post \<Longrightarrow> rd_position r = length pre \<Longrightarrow>
     read_varint r = Inr (v, r\<lparr>rd_position := length pre + length (write_varint v)\<rparr>)"
proof -
  assume "rd_input r = pre @ write_varint v @ post" "rd_position r = length pre"
  moreover have "drop_bit 64 v = 0" by (rule bit_word_eqI) (auto simp: bit_simps dest: bit_imp_le_length)
  ultimately show ?thesis using read_varint_loop_written [of r pre v post 0 0] by (simp add: read_varint_def)
qed

section \<open>Lemmas: fields\<close>

text \<open>The bytes of one field, and of a sequence of fields.\<close>

fun field_bytes :: "u32 \<times> field_value \<Rightarrow> bytes" where
  "field_bytes (f, FieldVarint v) = write_tag f WireVarint @ write_varint v"
| "field_bytes (f, FieldBytes bs) = write_tag f WireLengthDelimited @ write_varint (of_nat (length bs)) @ bs"
| "field_bytes (f, FieldFixed64 bs) = write_tag f WireFixed64 @ bs"
| "field_bytes (f, FieldFixed32 bs) = write_tag f WireFixed32 @ bs"

definition wire_fields :: "(u32 \<times> field_value) list \<Rightarrow> bytes" where
  "wire_fields fs = concat (map field_bytes fs)"

fun field_ok :: "u32 \<times> field_value \<Rightarrow> bool" where
  "field_ok (f, FieldVarint v) \<longleftrightarrow> f \<noteq> 0"
| "field_ok (f, FieldBytes bs) \<longleftrightarrow> f \<noteq> 0"
| "field_ok (f, FieldFixed64 bs) \<longleftrightarrow> f \<noteq> 0 \<and> length bs = 8"
| "field_ok (f, FieldFixed32 bs) \<longleftrightarrow> f \<noteq> 0 \<and> length bs = 4"

lemma write_varint_nonempty [simp]: "write_varint v \<noteq> []"
  by (simp add: write_varint.simps [of v] Let_def)

lemma field_bytes_nonempty [simp]: "field_bytes fv \<noteq> []"
  by (cases fv rule: field_bytes.cases) (simp_all add: write_tag_def)

lemma field_bytes_tag: "\<exists>t rest. field_bytes (f, v) = write_tag f t @ rest"
  by (cases v) auto

lemma tag_key:
  "(ucast (drop_bit 3 (push_bit 3 (ucast f :: u64) OR ucast (wire_type_tag t))) :: u32) = f"
  "wire_type_from_tag (ucast ((push_bit 3 (ucast f :: u64) OR ucast (wire_type_tag t)) AND 0x7)) = Inr t"
proof -
  have m: "(0x7 :: u64) = mask 3" by (simp add: mask_eq_exp_minus_1)
  have t: "wire_type_tag t = take_bit 3 (wire_type_tag t)" by (cases t) simp_all
  have b: "bit (wire_type_tag t) n \<Longrightarrow> n < 3" for n by (subst (asm) t) (simp add: bit_simps)
  show "(ucast (drop_bit 3 (push_bit 3 (ucast f :: u64) OR ucast (wire_type_tag t))) :: u32) = f"
    by (rule bit_word_eqI) (auto simp: bit_simps dest: b)
  have "(ucast ((push_bit 3 (ucast f :: u64) OR ucast (wire_type_tag t)) AND 0x7) :: u32) = wire_type_tag t"
    unfolding m by (rule bit_word_eqI) (auto simp: bit_simps dest: b)
  then show "wire_type_from_tag (ucast ((push_bit 3 (ucast f :: u64) OR ucast (wire_type_tag t)) AND 0x7)) = Inr t"
    by (simp only:) (cases t, simp_all add: wire_type_from_tag_def)
qed

lemma read_field_value_written:
  assumes "rd_input r = pre @ write_tag f t @ body @ post" and "field_bytes (f, v) = write_tag f t @ body" and "field_ok (f, v)"
    and "rd_position r = length pre + length (write_tag f t)" and "length (rd_input r) < 2 ^ 64"
    and t: "t = (case v of FieldVarint _ \<Rightarrow> WireVarint | FieldBytes _ \<Rightarrow> WireLengthDelimited | FieldFixed64 _ \<Rightarrow> WireFixed64 | FieldFixed32 _ \<Rightarrow> WireFixed32)"
  shows "read_field_value t r = Inr (v, r\<lparr>rd_position := length pre + length (field_bytes (f, v))\<rparr>)"
proof (cases v)
  case (FieldVarint n)
  then show ?thesis using assms read_varint_written [of r "pre @ write_tag f t" n post] by simp
next
  case (FieldBytes bs)
  let ?pre = "pre @ write_tag f t @ write_varint (of_nat (length bs))"
  have b: "body = write_varint (of_nat (length bs)) @ bs" using assms(2) t FieldBytes by simp
  have l: "unat (of_nat (length bs) :: u64) = length bs" using assms(1,5) b by (simp add: unat_of_nat)
  have "slice (length ?pre) (length ?pre + length bs) (?pre @ bs @ post) = bs" by (simp add: slice_def)
  then show ?thesis using assms b l FieldBytes read_varint_written [of r "pre @ write_tag f t" "of_nat (length bs)" "bs @ post"]
    by (simp add: Let_def add.assoc)
next
  case (FieldFixed64 bs)
  have "slice (length (pre @ write_tag f t)) (length (pre @ write_tag f t) + 8) (pre @ write_tag f t @ bs @ post) = bs"
    using assms(3) FieldFixed64 by (simp add: slice_def)
  then show ?thesis using assms FieldFixed64 by (simp add: read_fixed_def Let_def add.assoc)
next
  case (FieldFixed32 bs)
  have "slice (length (pre @ write_tag f t)) (length (pre @ write_tag f t) + 4) (pre @ write_tag f t @ bs @ post) = bs"
    using assms(3) FieldFixed32 by (simp add: slice_def)
  then show ?thesis using assms FieldFixed32 by (simp add: read_fixed_def Let_def add.assoc)
qed

lemma next_field_written:
  assumes "rd_input r = pre @ field_bytes (f, v) @ post" and "rd_position r = length pre" and "field_ok (f, v)" and "length (rd_input r) < 2 ^ 64"
  shows "next_field r = Inr (Some (f, v), r\<lparr>rd_position := length pre + length (field_bytes (f, v))\<rparr>)"
proof -
  define t where "t = (case v of FieldVarint _ \<Rightarrow> WireVarint | FieldBytes _ \<Rightarrow> WireLengthDelimited | FieldFixed64 _ \<Rightarrow> WireFixed64 | FieldFixed32 _ \<Rightarrow> WireFixed32)"
  obtain body where b: "field_bytes (f, v) = write_tag f t @ body" by (cases v) (simp_all add: t_def)
  let ?r = "r\<lparr>rd_position := length pre + length (write_tag f t)\<rparr>"
  have "read_varint r = Inr (push_bit 3 (ucast f) OR ucast (wire_type_tag t), ?r)"
    using assms(1,2) b read_varint_written [of r pre _ "body @ post"] by (simp add: write_tag_def)
  moreover have "read_field_value t ?r = Inr (v, ?r\<lparr>rd_position := length pre + length (field_bytes (f, v))\<rparr>)"
    by (rule read_field_value_written [where pre = pre and body = body and post = post]) (use assms b t_def in simp_all)
  moreover have "f \<noteq> 0" using assms(3) by (cases v) auto
  moreover have "\<not> length (rd_input r) \<le> rd_position r" using assms(1,2) by simp
  moreover note tag_key [of f t]
  ultimately show ?thesis unfolding next_field_def by (simp only: Let_def if_False rbind.simps prod.case) simp
qed

text \<open>Folding a fallible handler over a list of fields.\<close>

fun try_fold :: "(u32 \<Rightarrow> field_value \<Rightarrow> 's \<Rightarrow> wire_error + 's) \<Rightarrow> (u32 \<times> field_value) list \<Rightarrow> 's \<Rightarrow> wire_error + 's" where
  "try_fold h [] s = Inr s"
| "try_fold h ((f, v) # fs) s = rbind (h f v s) (try_fold h fs)"

lemma try_fold_append: "try_fold h (xs @ ys) s = rbind (try_fold h xs s) (try_fold h ys)"
proof (induction xs arbitrary: s)
  case (Cons x xs)
  then show ?case by (cases x; cases "h (fst x) (snd x) s") auto
qed simp

lemma fold_fields_written:
  "rd_input r = pre @ wire_fields fs \<Longrightarrow> rd_position r = length pre \<Longrightarrow> list_all field_ok fs \<Longrightarrow> length (rd_input r) < 2 ^ 64 \<Longrightarrow>
     fold_fields h r s = try_fold h fs s"
proof (induction fs arbitrary: r pre s)
  case Nil
  then show ?case by (simp add: fold_fields.simps [of h r] next_field_def wire_fields_def)
next
  case (Cons x fs)
  obtain f v where x: "x = (f, v)" by (cases x)
  let ?r = "r\<lparr>rd_position := length pre + length (field_bytes (f, v))\<rparr>"
  have n: "next_field r = Inr (Some (f, v), ?r)"
    by (rule next_field_written [where post = "wire_fields fs"]) (use Cons.prems x in \<open>simp_all add: wire_fields_def\<close>)
  have "fold_fields h ?r s' = try_fold h fs s'" for s'
    by (rule Cons.IH [where pre = "pre @ field_bytes (f, v)"]) (use Cons.prems x in \<open>simp_all add: wire_fields_def\<close>)
  then have "fold_fields h ?r = try_fold h fs" by (rule ext)
  then show ?case by (simp add: fold_fields.simps [of h r] n x)
qed

lemma fold_fields_message:
  "list_all field_ok fs \<Longrightarrow> length (wire_fields fs) < 2 ^ 64 \<Longrightarrow> fold_fields h (reader_new (wire_fields fs)) s = try_fold h fs s"
  by (rule fold_fields_written [where pre = "[]"]) (simp_all add: reader_new_def)

section \<open>Lemmas: what the writers append\<close>

definition varint_field :: "u32 \<Rightarrow> u64 \<Rightarrow> (u32 \<times> field_value) list" where
  "varint_field f v = (if v = 0 then [] else [(f, FieldVarint v)])"

definition bytes_field :: "u32 \<Rightarrow> bytes \<Rightarrow> (u32 \<times> field_value) list" where
  "bytes_field f bs = (if bs = [] then [] else [(f, FieldBytes bs)])"

definition message_field :: "u32 \<Rightarrow> bytes \<Rightarrow> (u32 \<times> field_value) list" where
  "message_field f bs = [(f, FieldBytes bs)]"

lemma wire_fields_Nil [simp]: "wire_fields [] = []"
  by (simp add: wire_fields_def)

lemma wire_fields_append: "wire_fields (xs @ ys) = wire_fields xs @ wire_fields ys"
  by (simp add: wire_fields_def)

lemma wire_fields_concat: "wire_fields (concat xss) = concat (map wire_fields xss)"
  by (induction xss) (simp_all add: wire_fields_append)

lemma scast_eq_0: "(scast (v :: i32) :: u64) = 0 \<longleftrightarrow> v = 0"
proof
  assume "(scast v :: u64) = 0"
  then have "(ucast (scast v :: u64) :: i32) = 0" by simp
  moreover have "(ucast (scast v :: u64) :: i32) = v" by (rule bit_word_eqI) (auto simp: bit_simps)
  ultimately show "v = 0" by simp
qed simp

lemma writers_append [wire_simps]:
  "write_uint64 f v = wire_fields (varint_field f v)"
  "write_uint32 f w = wire_fields (varint_field f (ucast w))"
  "write_bool f b = wire_fields (varint_field f (of_bool b))"
  "write_enum f i = wire_fields (varint_field f (scast i))"
  "write_bytes f bs = wire_fields (bytes_field f bs)"
  "write_string f s = wire_fields (bytes_field f (str_bytes s))"
  "write_message f bs = wire_fields (message_field f bs)"
  by (simp_all add: write_uint64_def write_uint32_def write_bool_def write_enum_def write_bytes_def write_string_def
      write_message_def varint_field_def bytes_field_def message_field_def wire_fields_def scast_eq_0 str_bytes_def)

text \<open>A default that is not written leaves the state as a handler would that had read it.\<close>

lemma try_fold_blocks [wire_simps]:
  "v \<noteq> 0 \<Longrightarrow> try_fold h (varint_field f v) s = h f (FieldVarint v) s"
  "h f (FieldVarint 0) s = Inr s \<Longrightarrow> try_fold h (varint_field f v) s = h f (FieldVarint v) s"
  "bs \<noteq> [] \<Longrightarrow> try_fold h (bytes_field f bs) s = h f (FieldBytes bs) s"
  "h f (FieldBytes []) s = Inr s \<Longrightarrow> try_fold h (bytes_field f bs) s = h f (FieldBytes bs) s"
  "try_fold h (message_field f bs) s = h f (FieldBytes bs) s"
proof -
  have one: "try_fold h [x] s = h (fst x) (snd x) s" for x by (cases x; cases "h (fst x) (snd x) s") auto
  show "v \<noteq> 0 \<Longrightarrow> try_fold h (varint_field f v) s = h f (FieldVarint v) s"
    and "bs \<noteq> [] \<Longrightarrow> try_fold h (bytes_field f bs) s = h f (FieldBytes bs) s"
    and "try_fold h (message_field f bs) s = h f (FieldBytes bs) s"
    by (simp_all add: varint_field_def bytes_field_def message_field_def one del: try_fold.simps(2))
  show "h f (FieldVarint 0) s = Inr s \<Longrightarrow> try_fold h (varint_field f v) s = h f (FieldVarint v) s"
    by (cases "v = 0") (simp_all add: varint_field_def one del: try_fold.simps(2))
  show "h f (FieldBytes []) s = Inr s \<Longrightarrow> try_fold h (bytes_field f bs) s = h f (FieldBytes bs) s"
    by (cases "bs = []") (simp_all add: bytes_field_def one del: try_fold.simps(2))
qed

lemma blocks_ok [simp]:
  "f \<noteq> 0 \<Longrightarrow> list_all field_ok (varint_field f v)"
  "f \<noteq> 0 \<Longrightarrow> list_all field_ok (bytes_field f bs)"
  "f \<noteq> 0 \<Longrightarrow> list_all field_ok (message_field f bs)"
  by (simp_all add: varint_field_def bytes_field_def message_field_def)

lemma list_all_concat: "list_all p (concat xss) \<longleftrightarrow> list_all (list_all p) xss"
  by (induction xss) auto

text \<open>A repeated field appends to a list in the state.\<close>

lemma try_fold_pushes:
  assumes "\<And>x s. x \<in> set xs \<Longrightarrow> try_fold h (g x) s = Inr (upd (\<lambda>l. l @ [x]) s)"
    and "\<And>s. upd (\<lambda>l. l) s = s" and "\<And>a b s. upd a (upd b s) = upd (\<lambda>l. a (b l)) s"
  shows "try_fold h (concat (map g xs)) s = Inr (upd (\<lambda>l. l @ xs) s)"
  using assms(1)
proof (induction xs arbitrary: s)
  case (Cons x xs)
  then have "try_fold h (concat (map g xs)) (upd (\<lambda>l. l @ [x]) s) = Inr (upd (\<lambda>l. l @ xs) (upd (\<lambda>l. l @ [x]) s))" by simp
  then show ?case using Cons.prems by (simp add: try_fold_append assms(3))
qed (simp add: assms(2))

text \<open>A handler that passes over a field number passes over every field with it.\<close>

lemma try_fold_skips:
  assumes "\<And>f v s. f \<notin> known \<Longrightarrow> h f v s = Inr s"
  shows "try_fold h fs s = try_fold h (filter (\<lambda>(f, v). f \<in> known) fs) s"
proof (induction fs arbitrary: s)
  case (Cons x fs)
  have "try_fold h fs = try_fold h (filter (\<lambda>(f, v). f \<in> known) fs)" by (rule ext) (rule Cons.IH)
  then show ?case using assms by (cases x) auto
qed simp

lemma filter_ok: "list_all field_ok fs \<Longrightarrow> list_all field_ok (filter p fs)"
  by (induction fs) auto

lemma filter_shorter: "length (wire_fields (filter p fs)) \<le> length (wire_fields fs)"
  by (induction fs) (auto simp: wire_fields_def)

lemma field_shorter: "(f, FieldBytes bs) \<in> set fs \<Longrightarrow> length bs \<le> length (wire_fields fs)"
  by (induction fs) (auto simp: wire_fields_def)

lemma as_str_written [wire_simps]: "string_wf s \<Longrightarrow> field_as_str (FieldBytes (str_bytes s)) f = Inr s"
  by (simp add: field_as_str_def string_wf_def)

lemma as_str_empty [wire_simps]: "field_as_str (FieldBytes []) f = Inr []"
  by (simp add: field_as_str_def bytes_str_def)

lemma as_bool_written [wire_simps]: "field_as_bool (FieldVarint v) = Inr (v \<noteq> 0)"
  by (simp add: field_as_bool_def)

section \<open>Interface: a message codec\<close>

locale wire_message =
  fixes encode :: "'m \<Rightarrow> bytes" and decode :: "bytes \<Rightarrow> wire_error + 'm" and ok :: "'m \<Rightarrow> bool"
  assumes round_trip: "ok m \<Longrightarrow> length (encode m) < 2 ^ 64 \<Longrightarrow> decode (encode m) = Inr m"
begin

lemma message_inject: "ok m \<Longrightarrow> ok n \<Longrightarrow> length (encode m) < 2 ^ 64 \<Longrightarrow> encode m = encode n \<Longrightarrow> m = n"
proof -
  assume a: "ok m" "ok n" "length (encode m) < 2 ^ 64" "encode m = encode n"
  have "decode (encode m) = Inr m" by (rule round_trip [OF a(1,3)])
  moreover have "decode (encode n) = Inr n" by (rule round_trip [OF a(2) a(3) [unfolded a(4)]])
  ultimately show "m = n" unfolding a(4) by simp
qed

lemma nested: "ok m \<Longrightarrow> length (encode m) < 2 ^ 64 \<Longrightarrow> rbind (field_as_bytes (FieldBytes (encode m))) decode = Inr m"
  by (simp add: round_trip)

end

locale wire_enum =
  fixes wire_value :: "'a \<Rightarrow> i32" and from_wire :: "i32 \<Rightarrow> 'a option"
  assumes exact: "from_wire v = Some a \<longleftrightarrow> v = wire_value a"
    and positive: "0 < sint (wire_value a)"
begin

lemma value_inject: "wire_value a = wire_value b \<Longrightarrow> a = b"
  using exact [of "wire_value a" a] exact [of "wire_value b" b] by simp

lemma written: "decode_enum f (FieldVarint (scast (wire_value a))) from_wire = Inr a"
proof -
  have s: "sint (scast (wire_value a) :: u64) = sint (wire_value a)" by (simp add: sint_up_scast is_up)
  have "ucast (scast (wire_value a) :: u64) = wire_value a" by (rule bit_word_eqI) (auto simp: bit_simps)
  moreover have "from_wire (wire_value a) = Some a" by (simp add: exact)
  moreover have "- (2 ^ 31) \<le> sint (wire_value a)" "sint (wire_value a) < 2 ^ 31"
    using sint_greater_eq [of "wire_value a"] sint_less [of "wire_value a"] by simp_all
  ultimately show ?thesis by (simp add: decode_enum_def s)
qed

lemma nonzero: "wire_value a \<noteq> 0"
  using positive [of a] by auto

lemma decoded: "decode_enum f v from_wire = Inr a \<longleftrightarrow> v = FieldVarint (scast (wire_value a))"
proof
  assume "decode_enum f v from_wire = Inr a"
  then obtain raw where v: "v = FieldVarint raw" "- (2 ^ 31) \<le> sint raw" "sint raw < 2 ^ 31" "from_wire (ucast raw) = Some a"
    by (cases v; cases "from_wire (ucast (case v of FieldVarint raw \<Rightarrow> raw))") (auto simp: decode_enum_def split: if_splits)
  then have u: "(ucast raw :: i32) = wire_value a" by (simp add: exact)
  have "sint (ucast raw :: i32) = signed_take_bit 31 (sint raw)" by (rule bit_eqI) (auto simp: bit_simps min_def)
  then have "sint (ucast raw :: i32) = sint raw" using v(2,3) by (simp add: signed_take_bit_int_eq_self)
  then have "sint (scast (ucast raw :: i32) :: u64) = sint raw" by (simp add: sint_up_scast is_up)
  then show "v = FieldVarint (scast (wire_value a))" using v(1) u by (metis signed_word_eqI)
qed (simp add: written)

end

end
