(* ===== verification/Ipc.thy ===== *)
theory Ipc
  imports Wire
begin

text \<open>
  \<open>crates/arkforge-ipc/src/{lib,framing}.rs\<close> and \<open>messages/parts/{session,plan,permits}.rs\<close>: session kinds and what each may
  call, version negotiation, the length-prefixed frames and the messages of the handshake, of requests and responses,
  of artifact inspection and of permit submission. The bytes that a peer still sends are a list; how many of them one
  \<open>read\<close> returns, or that it fails, is an answer of the operating system.
\<close>

section \<open>Sessions, calls and statuses\<close>

definition PROTOCOL_MAJOR :: u32 where
  "PROTOCOL_MAJOR = 1"

definition PROTOCOL_MINOR :: u32 where
  "PROTOCOL_MINOR = 0"

datatype session_kind = Public | Controller

fun session_wire_value :: "session_kind \<Rightarrow> i32" where
  "session_wire_value Public = 1"
| "session_wire_value Controller = 2"

definition session_from_wire :: "i32 \<Rightarrow> session_kind option" where
  "session_from_wire value = (if value = 1 then Some Public else if value = 2 then Some Controller else None)"

datatype api =
    ImportArtifact
  | InspectArtifact
  | DiscoverDevices
  | ProbeDevice
  | ApiMaterializePlan
  | StartExecution
  | WatchJob
  | CancelJob
  | ReconcileJob
  | PlanSupersedingRecovery
  | GetRecoveryGuide
  | SubmitStepPermit
  | SubmitManagedControlReceipt
  | GetJob
  | ListJobs

definition API_ALL :: "api list" where
  "API_ALL =
     [ImportArtifact, InspectArtifact, DiscoverDevices, ProbeDevice, ApiMaterializePlan, StartExecution, WatchJob, CancelJob,
      ReconcileJob, PlanSupersedingRecovery, GetRecoveryGuide, SubmitStepPermit, SubmitManagedControlReceipt, GetJob, ListJobs]"

fun api_wire_value :: "api \<Rightarrow> i32" where
  "api_wire_value ImportArtifact = 1"
| "api_wire_value InspectArtifact = 2"
| "api_wire_value DiscoverDevices = 3"
| "api_wire_value ProbeDevice = 4"
| "api_wire_value ApiMaterializePlan = 5"
| "api_wire_value StartExecution = 6"
| "api_wire_value WatchJob = 7"
| "api_wire_value CancelJob = 8"
| "api_wire_value ReconcileJob = 9"
| "api_wire_value PlanSupersedingRecovery = 10"
| "api_wire_value GetRecoveryGuide = 11"
| "api_wire_value SubmitStepPermit = 12"
| "api_wire_value SubmitManagedControlReceipt = 13"
| "api_wire_value GetJob = 14"
| "api_wire_value ListJobs = 15"

definition api_from_wire :: "i32 \<Rightarrow> api option" where
  "api_from_wire value = find (\<lambda>a. api_wire_value a = value) API_ALL"

fun api_as_str :: "api \<Rightarrow> string" where
  "api_as_str ImportArtifact = ''importArtifact''"
| "api_as_str InspectArtifact = ''inspectArtifact''"
| "api_as_str DiscoverDevices = ''discoverDevices''"
| "api_as_str ProbeDevice = ''probeDevice''"
| "api_as_str ApiMaterializePlan = ''materializePlan''"
| "api_as_str StartExecution = ''startExecution''"
| "api_as_str WatchJob = ''watchJob''"
| "api_as_str CancelJob = ''cancelJob''"
| "api_as_str ReconcileJob = ''reconcileJob''"
| "api_as_str PlanSupersedingRecovery = ''planSupersedingRecovery''"
| "api_as_str GetRecoveryGuide = ''getRecoveryGuide''"
| "api_as_str SubmitStepPermit = ''submitStepPermit''"
| "api_as_str SubmitManagedControlReceipt = ''submitManagedControlReceipt''"
| "api_as_str GetJob = ''getJob''"
| "api_as_str ListJobs = ''listJobs''"

definition may_call :: "session_kind \<Rightarrow> api \<Rightarrow> bool" where
  "may_call kind a =
     (if a \<in> {InspectArtifact, DiscoverDevices, ProbeDevice} then True
      else if a = ApiMaterializePlan then True
      else if a \<in> {WatchJob, GetRecoveryGuide, GetJob, ListJobs} then True
      else kind = Controller)"

datatype status = StatusOk | StatusRefused | StatusUnavailable | StatusInvalidArgument | StatusNotFound | StatusInternal

fun status_wire_value :: "status \<Rightarrow> i32" where
  "status_wire_value StatusOk = 1"
| "status_wire_value StatusRefused = 2"
| "status_wire_value StatusUnavailable = 3"
| "status_wire_value StatusInvalidArgument = 4"
| "status_wire_value StatusNotFound = 5"
| "status_wire_value StatusInternal = 6"

definition status_from_wire :: "i32 \<Rightarrow> status option" where
  "status_from_wire value =
     (if value = 1 then Some StatusOk
      else if value = 2 then Some StatusRefused
      else if value = 3 then Some StatusUnavailable
      else if value = 4 then Some StatusInvalidArgument
      else if value = 5 then Some StatusNotFound
      else if value = 6 then Some StatusInternal
      else None)"

definition negotiate :: "u32 \<Rightarrow> u32 \<Rightarrow> string + unit" where
  "negotiate peer_major peer_minor =
     (if peer_major \<noteq> PROTOCOL_MAJOR then
        Inl (''protocol major '' @ display_nat (unat peer_major) @ '' is not compatible with '' @ display_nat (unat PROTOCOL_MAJOR))
      else Inr ())"

definition handshake_refusal :: "u32 \<Rightarrow> u32 \<Rightarrow> string option" where
  "handshake_refusal peer_major peer_minor =
     (case negotiate peer_major peer_minor of Inl e \<Rightarrow> Some e | Inr _ \<Rightarrow> None)"

section \<open>Frames\<close>

definition WIRE_MAX_FRAME_BYTES :: nat where
  "WIRE_MAX_FRAME_BYTES = 16 * 1024 * 1024"

datatype frame_error = FrameIo string | FrameTruncated | FrameWire wire_error

text \<open>
  What a peer sends: the bytes to come, and the answers to the next reads. A read that is ready returns at least one byte when
  there is one, and at most what was asked for; after the listed answers every read returns what it can.
\<close>

datatype read_answer = ReadReady nat | ReadFailed string

record byte_source =
  src_bytes :: bytes
  src_answers :: "read_answer list"

definition source_read :: "byte_source \<Rightarrow> nat \<Rightarrow> (string + bytes) \<times> byte_source" where
  "source_read s want =
     (case src_answers s of
        [] \<Rightarrow> (Inr (take want (src_bytes s)), s\<lparr>src_bytes := drop want (src_bytes s)\<rparr>)
      | ReadFailed message # rest \<Rightarrow> (Inl message, s\<lparr>src_answers := rest\<rparr>)
      | ReadReady n # rest \<Rightarrow>
          let k = min want (Suc n) in
          (Inr (take k (src_bytes s)), \<lparr>src_bytes = drop k (src_bytes s), src_answers = rest\<rparr>))"

text \<open>\<open>while filled < buffer.len()\<close>: a result shorter than \<open>want\<close> means that the source ended.\<close>

function read_fill :: "byte_source \<Rightarrow> nat \<Rightarrow> bytes \<Rightarrow> (string + bytes) \<times> byte_source" where
  "read_fill s want filled =
     (if want \<le> length filled then (Inr filled, s)
      else case source_read s (want - length filled) of
        (Inl message, s') \<Rightarrow> (Inl message, s')
      | (Inr bs, s') \<Rightarrow> if bs = [] then (Inr filled, s') else read_fill s' want (filled @ bs))"
  by pat_completeness auto
termination read_fill
  by (relation "measure (\<lambda>(s, want, filled). want - length filled)") (auto simp: length_greater_0_conv [symmetric] simp del: length_greater_0_conv)

declare read_fill.simps [simp del]

definition read_frame :: "byte_source \<Rightarrow> (frame_error + bytes option) \<times> byte_source" where
  "read_frame s =
     (case read_fill s 4 [] of
        (Inl message, s) \<Rightarrow> (Inl (FrameIo message), s)
      | (Inr header, s) \<Rightarrow>
          if length header < 4 then (if header = [] then (Inr None, s) else (Inl FrameTruncated, s))
          else
            let len = unat (from_be_bytes header :: u32) in
            if WIRE_MAX_FRAME_BYTES < len then (Inl (FrameWire (FrameTooLarge len)), s)
            else
              (case read_fill s len [] of
                 (Inl message, s) \<Rightarrow> (Inl (FrameIo message), s)
               | (Inr body, s) \<Rightarrow> if length body < len then (Inl FrameTruncated, s) else (Inr (Some body), s)))"

text \<open>The bytes that a sink receives; \<open>answer\<close> is the text of the first failed write or flush.\<close>

definition write_frame :: "string option \<Rightarrow> bytes \<Rightarrow> frame_error + bytes" where
  "write_frame answer body =
     (if WIRE_MAX_FRAME_BYTES < length body then Inl (FrameWire (FrameTooLarge (length body)))
      else case answer of
        Some message \<Rightarrow> Inl (FrameIo message)
      | None \<Rightarrow> Inr (to_be_bytes (of_nat (length body) :: u32) @ body))"

section \<open>The handshake\<close>

record hello =
  hel_protocol_major :: u32
  hel_protocol_minor :: u32
  hel_session_kind :: session_kind

definition hello_encode :: "hello \<Rightarrow> bytes" where
  "hello_encode m =
     write_uint32 1 (hel_protocol_major m) @
     write_uint32 2 (hel_protocol_minor m) @
     write_enum 3 (session_wire_value (hel_session_kind m))"

definition hello_decode :: "bytes \<Rightarrow> wire_error + hello" where
  "hello_decode input =
     rbind (fold_fields (\<lambda>field v (major, minor, kind).
         if field = 1 then rbind (field_as_u64 v) (\<lambda>n. Inr (ucast n, minor, kind))
         else if field = 2 then rbind (field_as_u64 v) (\<lambda>n. Inr (major, ucast n, kind))
         else if field = 3 then rbind (decode_enum 3 v session_from_wire) (\<lambda>k. Inr (major, minor, Some k))
         else Inr (major, minor, kind)) (reader_new input) (0, 0, None)) (\<lambda>(major, minor, kind).
     rbind (ok_or kind (MissingField ''Hello'' 3)) (\<lambda>k.
       Inr \<lparr>hel_protocol_major = major, hel_protocol_minor = minor, hel_session_kind = k\<rparr>))"

record hello_ack =
  ack_protocol_major :: u32
  ack_protocol_minor :: u32
  ack_session_kind :: session_kind
  ack_daemon_version :: string
  ack_refusal :: "string option"
  ack_execution_ready :: bool
  ack_execution_blockers :: "string list"
  ack_toolchain_id :: string
  ack_toolchain_sha256 :: string

definition hello_ack_encode :: "hello_ack \<Rightarrow> bytes" where
  "hello_ack_encode m =
     write_uint32 1 (ack_protocol_major m) @
     write_uint32 2 (ack_protocol_minor m) @
     write_enum 3 (session_wire_value (ack_session_kind m)) @
     write_string 4 (ack_daemon_version m) @
     (case ack_refusal m of Some refusal \<Rightarrow> write_string 5 refusal | None \<Rightarrow> []) @
     write_bool 6 (ack_execution_ready m) @
     concat (map (write_string 7) (ack_execution_blockers m)) @
     write_string 8 (ack_toolchain_id m) @
     write_string 9 (ack_toolchain_sha256 m)"

definition hello_ack_decode :: "bytes \<Rightarrow> wire_error + hello_ack" where
  "hello_ack_decode input =
     fold_fields (\<lambda>field v m.
         if field = 1 then rbind (field_as_u64 v) (\<lambda>n. Inr (m\<lparr>ack_protocol_major := ucast n\<rparr>))
         else if field = 2 then rbind (field_as_u64 v) (\<lambda>n. Inr (m\<lparr>ack_protocol_minor := ucast n\<rparr>))
         else if field = 3 then rbind (decode_enum 3 v session_from_wire) (\<lambda>k. Inr (m\<lparr>ack_session_kind := k\<rparr>))
         else if field = 4 then rbind (field_as_str v 4) (\<lambda>s. Inr (m\<lparr>ack_daemon_version := s\<rparr>))
         else if field = 5 then rbind (field_as_str v 5) (\<lambda>s. Inr (m\<lparr>ack_refusal := Some s\<rparr>))
         else if field = 6 then rbind (field_as_bool v) (\<lambda>b. Inr (m\<lparr>ack_execution_ready := b\<rparr>))
         else if field = 7 then rbind (field_as_str v 7) (\<lambda>s. Inr (m\<lparr>ack_execution_blockers := ack_execution_blockers m @ [s]\<rparr>))
         else if field = 8 then rbind (field_as_str v 8) (\<lambda>s. Inr (m\<lparr>ack_toolchain_id := s\<rparr>))
         else if field = 9 then rbind (field_as_str v 9) (\<lambda>s. Inr (m\<lparr>ack_toolchain_sha256 := s\<rparr>))
         else Inr m) (reader_new input)
       \<lparr>ack_protocol_major = 0, ack_protocol_minor = 0, ack_session_kind = Public, ack_daemon_version = [],
         ack_refusal = None, ack_execution_ready = False, ack_execution_blockers = [], ack_toolchain_id = [],
         ack_toolchain_sha256 = []\<rparr>"

section \<open>Requests and responses\<close>

record request =
  req_request_id :: string
  req_api :: api
  req_payload :: bytes

definition request_encode :: "request \<Rightarrow> bytes" where
  "request_encode m =
     write_string 1 (req_request_id m) @
     write_enum 2 (api_wire_value (req_api m)) @
     write_bytes 3 (req_payload m)"

definition request_decode :: "bytes \<Rightarrow> wire_error + request" where
  "request_decode input =
     rbind (fold_fields (\<lambda>field v (request_id, a, payload).
         if field = 1 then rbind (field_as_str v 1) (\<lambda>s. Inr (s, a, payload))
         else if field = 2 then rbind (decode_enum 2 v api_from_wire) (\<lambda>x. Inr (request_id, Some x, payload))
         else if field = 3 then rbind (field_as_bytes v) (\<lambda>bs. Inr (request_id, a, bs))
         else Inr (request_id, a, payload)) (reader_new input) ([], None, [])) (\<lambda>(request_id, a, payload).
     rbind (ok_or a (MissingField ''Request'' 2)) (\<lambda>x.
       Inr \<lparr>req_request_id = request_id, req_api = x, req_payload = payload\<rparr>))"

record response =
  resp_request_id :: string
  resp_api :: api
  resp_status :: status
  resp_payload :: bytes
  resp_stream_sequence :: u64
  resp_stream_end :: bool

definition response_encode :: "response \<Rightarrow> bytes" where
  "response_encode m =
     write_string 1 (resp_request_id m) @
     write_enum 2 (api_wire_value (resp_api m)) @
     write_enum 3 (status_wire_value (resp_status m)) @
     write_bytes 4 (resp_payload m) @
     write_uint64 5 (resp_stream_sequence m) @
     write_bool 6 (resp_stream_end m)"

definition response_decode :: "bytes \<Rightarrow> wire_error + response" where
  "response_decode input =
     rbind (fold_fields (\<lambda>field v (request_id, a, st, payload, sequence, stop).
         if field = 1 then rbind (field_as_str v 1) (\<lambda>s. Inr (s, a, st, payload, sequence, stop))
         else if field = 2 then rbind (decode_enum 2 v api_from_wire) (\<lambda>x. Inr (request_id, Some x, st, payload, sequence, stop))
         else if field = 3 then rbind (decode_enum 3 v status_from_wire) (\<lambda>x. Inr (request_id, a, Some x, payload, sequence, stop))
         else if field = 4 then rbind (field_as_bytes v) (\<lambda>bs. Inr (request_id, a, st, bs, sequence, stop))
         else if field = 5 then rbind (field_as_u64 v) (\<lambda>n. Inr (request_id, a, st, payload, n, stop))
         else if field = 6 then rbind (field_as_bool v) (\<lambda>b. Inr (request_id, a, st, payload, sequence, b))
         else Inr (request_id, a, st, payload, sequence, stop)) (reader_new input) ([], None, None, [], 0, False))
       (\<lambda>(request_id, a, st, payload, sequence, stop).
     rbind (ok_or a (MissingField ''Response'' 2)) (\<lambda>x.
     rbind (ok_or st (MissingField ''Response'' 3)) (\<lambda>y.
       Inr \<lparr>resp_request_id = request_id, resp_api = x, resp_status = y, resp_payload = payload,
         resp_stream_sequence = sequence, resp_stream_end = stop\<rparr>)))"

record error_body =
  eb_code :: string
  eb_message :: string

definition error_body_encode :: "error_body \<Rightarrow> bytes" where
  "error_body_encode m = write_string 1 (eb_code m) @ write_string 2 (eb_message m)"

definition error_body_decode :: "bytes \<Rightarrow> wire_error + error_body" where
  "error_body_decode input =
     fold_fields (\<lambda>field v m.
         if field = 1 then rbind (field_as_str v 1) (\<lambda>s. Inr (m\<lparr>eb_code := s\<rparr>))
         else if field = 2 then rbind (field_as_str v 2) (\<lambda>s. Inr (m\<lparr>eb_message := s\<rparr>))
         else Inr m) (reader_new input) \<lparr>eb_code = [], eb_message = []\<rparr>"

record key_value =
  kv_key :: string
  kv_value :: string

definition key_value_encode :: "key_value \<Rightarrow> bytes" where
  "key_value_encode m = write_string 1 (kv_key m) @ write_string 2 (kv_value m)"

definition key_value_decode :: "bytes \<Rightarrow> wire_error + key_value" where
  "key_value_decode input =
     fold_fields (\<lambda>field v m.
         if field = 1 then rbind (field_as_str v 1) (\<lambda>s. Inr (m\<lparr>kv_key := s\<rparr>))
         else if field = 2 then rbind (field_as_str v 2) (\<lambda>s. Inr (m\<lparr>kv_value := s\<rparr>))
         else Inr m) (reader_new input) \<lparr>kv_key = [], kv_value = []\<rparr>"

section \<open>Artifact messages\<close>

record archive_member =
  am_path :: string
  am_size_bytes :: u64
  am_sha256 :: string
  am_role :: string

definition archive_member_encode :: "archive_member \<Rightarrow> bytes" where
  "archive_member_encode m =
     write_string 1 (am_path m) @
     write_uint64 2 (am_size_bytes m) @
     write_string 3 (am_sha256 m) @
     write_string 4 (am_role m)"

definition archive_member_decode :: "bytes \<Rightarrow> wire_error + archive_member" where
  "archive_member_decode input =
     fold_fields (\<lambda>field v m.
         if field = 1 then rbind (field_as_str v 1) (\<lambda>s. Inr (m\<lparr>am_path := s\<rparr>))
         else if field = 2 then rbind (field_as_u64 v) (\<lambda>n. Inr (m\<lparr>am_size_bytes := n\<rparr>))
         else if field = 3 then rbind (field_as_str v 3) (\<lambda>s. Inr (m\<lparr>am_sha256 := s\<rparr>))
         else if field = 4 then rbind (field_as_str v 4) (\<lambda>s. Inr (m\<lparr>am_role := s\<rparr>))
         else Inr m) (reader_new input)
       \<lparr>am_path = [], am_size_bytes = 0, am_sha256 = [], am_role = []\<rparr>"

record partition_entry =
  pe_index :: u32
  pe_name :: string
  pe_offset_sectors :: u64
  pe_size_sectors :: "u64 option"
  pe_attribute :: string
  pe_grammar_branch :: string

definition partition_entry_encode :: "partition_entry \<Rightarrow> bytes" where
  "partition_entry_encode m =
     write_uint32 1 (pe_index m) @
     write_string 2 (pe_name m) @
     write_uint64 3 (pe_offset_sectors m) @
     (case pe_size_sectors m of Some sectors \<Rightarrow> write_uint64 4 sectors @ write_bool 5 True | None \<Rightarrow> []) @
     write_string 6 (pe_attribute m) @
     write_string 7 (pe_grammar_branch m)"

definition partition_entry_decode :: "bytes \<Rightarrow> wire_error + partition_entry" where
  "partition_entry_decode input =
     rbind (fold_fields (\<lambda>field v (m, sectors, has_size).
         if field = 1 then rbind (field_as_u64 v) (\<lambda>n. Inr (m\<lparr>pe_index := ucast n\<rparr>, sectors, has_size))
         else if field = 2 then rbind (field_as_str v 2) (\<lambda>s. Inr (m\<lparr>pe_name := s\<rparr>, sectors, has_size))
         else if field = 3 then rbind (field_as_u64 v) (\<lambda>n. Inr (m\<lparr>pe_offset_sectors := n\<rparr>, sectors, has_size))
         else if field = 4 then rbind (field_as_u64 v) (\<lambda>n. Inr (m, n, has_size))
         else if field = 5 then rbind (field_as_bool v) (\<lambda>b. Inr (m, sectors, b))
         else if field = 6 then rbind (field_as_str v 6) (\<lambda>s. Inr (m\<lparr>pe_attribute := s\<rparr>, sectors, has_size))
         else if field = 7 then rbind (field_as_str v 7) (\<lambda>s. Inr (m\<lparr>pe_grammar_branch := s\<rparr>, sectors, has_size))
         else Inr (m, sectors, has_size)) (reader_new input)
       (\<lparr>pe_index = 0, pe_name = [], pe_offset_sectors = 0, pe_size_sectors = None, pe_attribute = [], pe_grammar_branch = []\<rparr>, 0, False))
     (\<lambda>(m, sectors, has_size). Inr (m\<lparr>pe_size_sectors := (if has_size then Some sectors else None)\<rparr>))"

record inspect_artifact_response =
  ins_format_id :: string
  ins_content_sha256 :: string
  ins_size_bytes :: u64
  ins_members :: "archive_member list"
  ins_partitions :: "partition_entry list"
  ins_build_facts :: "key_value list"
  ins_unclassified_members :: "string list"
  ins_execution_relevant_unknowns :: "key_value list"
  ins_confidence :: string
  ins_manifest_sha256 :: string

definition inspect_artifact_response_encode :: "inspect_artifact_response \<Rightarrow> bytes" where
  "inspect_artifact_response_encode m =
     write_string 1 (ins_format_id m) @
     write_string 2 (ins_content_sha256 m) @
     write_uint64 3 (ins_size_bytes m) @
     concat (map (\<lambda>x. write_message 4 (archive_member_encode x)) (ins_members m)) @
     concat (map (\<lambda>x. write_message 5 (partition_entry_encode x)) (ins_partitions m)) @
     concat (map (\<lambda>x. write_message 6 (key_value_encode x)) (ins_build_facts m)) @
     concat (map (write_string 7) (ins_unclassified_members m)) @
     concat (map (\<lambda>x. write_message 8 (key_value_encode x)) (ins_execution_relevant_unknowns m)) @
     write_string 9 (ins_confidence m) @
     write_string 10 (ins_manifest_sha256 m)"

definition inspect_artifact_response_decode :: "bytes \<Rightarrow> wire_error + inspect_artifact_response" where
  "inspect_artifact_response_decode input =
     fold_fields (\<lambda>field v m.
         if field = 1 then rbind (field_as_str v 1) (\<lambda>s. Inr (m\<lparr>ins_format_id := s\<rparr>))
         else if field = 2 then rbind (field_as_str v 2) (\<lambda>s. Inr (m\<lparr>ins_content_sha256 := s\<rparr>))
         else if field = 3 then rbind (field_as_u64 v) (\<lambda>n. Inr (m\<lparr>ins_size_bytes := n\<rparr>))
         else if field = 4 then rbind (rbind (field_as_bytes v) archive_member_decode) (\<lambda>x. Inr (m\<lparr>ins_members := ins_members m @ [x]\<rparr>))
         else if field = 5 then rbind (rbind (field_as_bytes v) partition_entry_decode) (\<lambda>x. Inr (m\<lparr>ins_partitions := ins_partitions m @ [x]\<rparr>))
         else if field = 6 then rbind (rbind (field_as_bytes v) key_value_decode) (\<lambda>x. Inr (m\<lparr>ins_build_facts := ins_build_facts m @ [x]\<rparr>))
         else if field = 7 then rbind (field_as_str v 7) (\<lambda>s. Inr (m\<lparr>ins_unclassified_members := ins_unclassified_members m @ [s]\<rparr>))
         else if field = 8 then rbind (rbind (field_as_bytes v) key_value_decode)
           (\<lambda>x. Inr (m\<lparr>ins_execution_relevant_unknowns := ins_execution_relevant_unknowns m @ [x]\<rparr>))
         else if field = 9 then rbind (field_as_str v 9) (\<lambda>s. Inr (m\<lparr>ins_confidence := s\<rparr>))
         else if field = 10 then rbind (field_as_str v 10) (\<lambda>s. Inr (m\<lparr>ins_manifest_sha256 := s\<rparr>))
         else Inr m) (reader_new input)
       \<lparr>ins_format_id = [], ins_content_sha256 = [], ins_size_bytes = 0, ins_members = [], ins_partitions = [],
         ins_build_facts = [], ins_unclassified_members = [], ins_execution_relevant_unknowns = [], ins_confidence = [],
         ins_manifest_sha256 = []\<rparr>"

section \<open>Permit submission\<close>

record submit_step_permit_request =
  ssp_job_id :: string
  ssp_request_id :: string
  ssp_permit_cbor :: bytes
  ssp_integrity_tag :: bytes
  ssp_pairing_epoch :: u64
  ssp_refusal :: string

definition submit_step_permit_request_encode :: "submit_step_permit_request \<Rightarrow> bytes" where
  "submit_step_permit_request_encode m =
     write_string 1 (ssp_job_id m) @
     write_string 2 (ssp_request_id m) @
     write_bytes 3 (ssp_permit_cbor m) @
     write_bytes 4 (ssp_integrity_tag m) @
     write_uint64 5 (ssp_pairing_epoch m) @
     write_string 6 (ssp_refusal m)"

definition submit_step_permit_request_decode :: "bytes \<Rightarrow> wire_error + submit_step_permit_request" where
  "submit_step_permit_request_decode input =
     fold_fields (\<lambda>field v m.
         if field = 1 then rbind (field_as_str v 1) (\<lambda>s. Inr (m\<lparr>ssp_job_id := s\<rparr>))
         else if field = 2 then rbind (field_as_str v 2) (\<lambda>s. Inr (m\<lparr>ssp_request_id := s\<rparr>))
         else if field = 3 then rbind (field_as_bytes v) (\<lambda>bs. Inr (m\<lparr>ssp_permit_cbor := bs\<rparr>))
         else if field = 4 then rbind (field_as_bytes v) (\<lambda>bs. Inr (m\<lparr>ssp_integrity_tag := bs\<rparr>))
         else if field = 5 then rbind (field_as_u64 v) (\<lambda>n. Inr (m\<lparr>ssp_pairing_epoch := n\<rparr>))
         else if field = 6 then rbind (field_as_str v 6) (\<lambda>s. Inr (m\<lparr>ssp_refusal := s\<rparr>))
         else Inr m) (reader_new input)
       \<lparr>ssp_job_id = [], ssp_request_id = [], ssp_permit_cbor = [], ssp_integrity_tag = [], ssp_pairing_epoch = 0, ssp_refusal = []\<rparr>"

definition submission_is_well_formed :: "submit_step_permit_request \<Rightarrow> bool" where
  "submission_is_well_formed m \<longleftrightarrow> (ssp_permit_cbor m = []) \<noteq> (ssp_refusal m = [])"

section \<open>Lemmas: enumerations on the wire\<close>

interpretation session: wire_enum session_wire_value session_from_wire
proof
  show "session_from_wire v = Some a \<longleftrightarrow> v = session_wire_value a" for v a
    by (cases a) (auto simp: session_from_wire_def)
  show "0 < sint (session_wire_value a)" for a by (cases a) simp_all
qed

interpretation status: wire_enum status_wire_value status_from_wire
proof
  show "status_from_wire v = Some a \<longleftrightarrow> v = status_wire_value a" for v a
    by (cases a) (auto simp: status_from_wire_def)
  show "0 < sint (status_wire_value a)" for a by (cases a) simp_all
qed

interpretation api: wire_enum api_wire_value api_from_wire
proof
  show "api_from_wire v = Some a \<longleftrightarrow> v = api_wire_value a" for v a
    by (cases a) (auto simp: api_from_wire_def API_ALL_def split: if_splits)
  show "0 < sint (api_wire_value a)" for a by (cases a) simp_all
qed

lemmas enum_simps [wire_simps] =
  session.written session.nonzero status.written status.nonzero api.written api.nonzero scast_eq_0

section \<open>Lemmas: messages\<close>

lemma narrow_wide [wire_simps]: "(ucast (ucast (w :: u32) :: u64) :: u32) = w" "(ucast (w :: u32) :: u64) = 0 \<longleftrightarrow> w = 0"
proof -
  show n: "(ucast (ucast w :: u64) :: u32) = w" by (rule bit_word_eqI) (auto simp: bit_simps)
  show "(ucast w :: u64) = 0 \<longleftrightarrow> w = 0" using n by (metis unsigned_0)
qed

lemma str_bytes_Nil [wire_simps]: "str_bytes s = [] \<longleftrightarrow> s = []"
  by (simp add: str_bytes_def)

definition opt_string_ok :: "string option \<Rightarrow> bool" where
  "opt_string_ok s \<longleftrightarrow> (case s of None \<Rightarrow> True | Some x \<Rightarrow> x \<noteq> [] \<and> string_wf x)"

definition strings_ok :: "string list \<Rightarrow> bool" where
  "strings_ok xs \<longleftrightarrow> (\<forall>x \<in> set xs. x \<noteq> [] \<and> string_wf x)"

definition hello_ack_ok :: "hello_ack \<Rightarrow> bool" where
  "hello_ack_ok m \<longleftrightarrow> string_wf (ack_daemon_version m) \<and> opt_string_ok (ack_refusal m) \<and> strings_ok (ack_execution_blockers m) \<and>
     string_wf (ack_toolchain_id m) \<and> string_wf (ack_toolchain_sha256 m)"

definition request_ok :: "request \<Rightarrow> bool" where
  "request_ok m \<longleftrightarrow> string_wf (req_request_id m)"

definition response_ok :: "response \<Rightarrow> bool" where
  "response_ok m \<longleftrightarrow> string_wf (resp_request_id m)"

definition error_body_ok :: "error_body \<Rightarrow> bool" where
  "error_body_ok m \<longleftrightarrow> string_wf (eb_code m) \<and> string_wf (eb_message m)"

definition key_value_ok :: "key_value \<Rightarrow> bool" where
  "key_value_ok m \<longleftrightarrow> string_wf (kv_key m) \<and> string_wf (kv_value m)"

definition archive_member_ok :: "archive_member \<Rightarrow> bool" where
  "archive_member_ok m \<longleftrightarrow> string_wf (am_path m) \<and> string_wf (am_sha256 m) \<and> string_wf (am_role m)"

definition partition_entry_ok :: "partition_entry \<Rightarrow> bool" where
  "partition_entry_ok m \<longleftrightarrow> string_wf (pe_name m) \<and> string_wf (pe_attribute m) \<and> string_wf (pe_grammar_branch m)"

definition inspect_artifact_response_ok :: "inspect_artifact_response \<Rightarrow> bool" where
  "inspect_artifact_response_ok m \<longleftrightarrow> string_wf (ins_format_id m) \<and> string_wf (ins_content_sha256 m) \<and>
     (\<forall>x \<in> set (ins_members m). archive_member_ok x) \<and> (\<forall>x \<in> set (ins_partitions m). partition_entry_ok x) \<and>
     (\<forall>x \<in> set (ins_build_facts m). key_value_ok x) \<and> strings_ok (ins_unclassified_members m) \<and>
     (\<forall>x \<in> set (ins_execution_relevant_unknowns m). key_value_ok x) \<and> string_wf (ins_confidence m) \<and> string_wf (ins_manifest_sha256 m)"

definition submit_step_permit_request_ok :: "submit_step_permit_request \<Rightarrow> bool" where
  "submit_step_permit_request_ok m \<longleftrightarrow> string_wf (ssp_job_id m) \<and> string_wf (ssp_request_id m) \<and> string_wf (ssp_refusal m)"

text \<open>An encoding is the bytes of a list of fields, and decoding folds over that list.\<close>

lemma concat_writers:
  "concat (map (write_string f) xs) = wire_fields (concat (map (\<lambda>s. bytes_field f (str_bytes s)) xs))"
  "concat (map (\<lambda>x. wire_fields (g x)) ys) = wire_fields (concat (map g ys))"
proof -
  have "write_string f = (\<lambda>s. wire_fields (bytes_field f (str_bytes s)))" by (rule ext) (rule writers_append)
  then show "concat (map (write_string f) xs) = wire_fields (concat (map (\<lambda>s. bytes_field f (str_bytes s)) xs))"
    by (simp add: wire_fields_concat comp_def)
  show "concat (map (\<lambda>x. wire_fields (g x)) ys) = wire_fields (concat (map g ys))"
    by (simp add: wire_fields_concat comp_def)
qed

lemmas as_fields = writers_append concat_writers wire_fields_append [symmetric]

lemmas message_simps = fold_fields_message try_fold_append wire_simps

lemma hello_round_trip: "length (hello_encode m) < 2 ^ 64 \<Longrightarrow> hello_decode (hello_encode m) = Inr m"
  unfolding hello_encode_def hello_decode_def as_fields by (simp add: message_simps)

lemma request_round_trip: "request_ok m \<Longrightarrow> length (request_encode m) < 2 ^ 64 \<Longrightarrow> request_decode (request_encode m) = Inr m"
  unfolding request_encode_def request_decode_def request_ok_def as_fields by (simp add: message_simps)

lemma response_round_trip: "response_ok m \<Longrightarrow> length (response_encode m) < 2 ^ 64 \<Longrightarrow> response_decode (response_encode m) = Inr m"
  unfolding response_encode_def response_decode_def response_ok_def as_fields by (simp add: message_simps)

lemma error_body_round_trip:
  "error_body_ok m \<Longrightarrow> length (error_body_encode m) < 2 ^ 64 \<Longrightarrow> error_body_decode (error_body_encode m) = Inr m"
  unfolding error_body_encode_def error_body_decode_def error_body_ok_def as_fields by (simp add: message_simps)

lemma key_value_round_trip:
  "key_value_ok m \<Longrightarrow> length (key_value_encode m) < 2 ^ 64 \<Longrightarrow> key_value_decode (key_value_encode m) = Inr m"
  unfolding key_value_encode_def key_value_decode_def key_value_ok_def as_fields by (simp add: message_simps)

lemma archive_member_round_trip:
  "archive_member_ok m \<Longrightarrow> length (archive_member_encode m) < 2 ^ 64 \<Longrightarrow> archive_member_decode (archive_member_encode m) = Inr m"
  unfolding archive_member_encode_def archive_member_decode_def archive_member_ok_def as_fields by (simp add: message_simps)

lemma partition_entry_round_trip:
  "partition_entry_ok m \<Longrightarrow> length (partition_entry_encode m) < 2 ^ 64 \<Longrightarrow> partition_entry_decode (partition_entry_encode m) = Inr m"
  by (cases "pe_size_sectors m")
    (simp_all add: partition_entry_encode_def partition_entry_decode_def partition_entry_ok_def as_fields message_simps
      del: rbind_Inr_iff)

lemma submit_step_permit_request_round_trip:
  "submit_step_permit_request_ok m \<Longrightarrow> length (submit_step_permit_request_encode m) < 2 ^ 64 \<Longrightarrow>
     submit_step_permit_request_decode (submit_step_permit_request_encode m) = Inr m"
  unfolding submit_step_permit_request_encode_def submit_step_permit_request_decode_def submit_step_permit_request_ok_def as_fields
  by (simp add: message_simps)

text \<open>Repeated fields.\<close>

lemma strings_pushed:
  assumes "strings_ok xs"
    and "\<And>x s. x \<noteq> [] \<Longrightarrow> string_wf x \<Longrightarrow> h f (FieldBytes (str_bytes x)) s = Inr (upd (\<lambda>l. l @ [x]) s)"
    and "\<And>s. upd (\<lambda>l. l) s = s" and "\<And>a b s. upd a (upd b s) = upd (\<lambda>l. a (b l)) s"
  shows "try_fold h (concat (map (\<lambda>s. bytes_field f (str_bytes s)) xs)) s = Inr (upd (\<lambda>l. l @ xs) s)"
  by (rule try_fold_pushes) (use assms in \<open>simp_all add: strings_ok_def wire_simps\<close>)

lemma list_all_strings: "f \<noteq> 0 \<Longrightarrow> list_all field_ok (concat (map (\<lambda>s. bytes_field f (str_bytes s)) xs))"
  "f \<noteq> 0 \<Longrightarrow> list_all field_ok (concat (map (\<lambda>x. message_field f (g x)) ys))"
  by (induction xs, simp_all) (induction ys, simp_all)

lemma hello_ack_push: "ack_execution_blockers_update (\<lambda>l. l @ xs) m = m\<lparr>ack_execution_blockers := ack_execution_blockers m @ xs\<rparr>"
  by (cases m) simp

lemma hello_ack_round_trip:
  "hello_ack_ok m \<Longrightarrow> length (hello_ack_encode m) < 2 ^ 64 \<Longrightarrow> hello_ack_decode (hello_ack_encode m) = Inr m"
  by (cases "ack_refusal m")
    (simp_all add: hello_ack_encode_def hello_ack_decode_def hello_ack_ok_def opt_string_ok_def as_fields message_simps list_all_strings
      strings_pushed [where upd = ack_execution_blockers_update] hello_ack_push)

interpretation key_value: wire_message key_value_encode key_value_decode key_value_ok
  by unfold_locales (rule key_value_round_trip)

interpretation archive_member: wire_message archive_member_encode archive_member_decode archive_member_ok
  by unfold_locales (rule archive_member_round_trip)

interpretation partition_entry: wire_message partition_entry_encode partition_entry_decode partition_entry_ok
  by unfold_locales (rule partition_entry_round_trip)

lemma nested_shorter: "x \<in> set xs \<Longrightarrow> length (g x) \<le> length (concat (map (\<lambda>x. write_message f (g x)) xs))"
  by (induction xs) (auto simp: write_message_def)

lemma messages_pushed:
  assumes "\<And>x. x \<in> set xs \<Longrightarrow> rbind (field_as_bytes (FieldBytes (g x))) d = Inr x"
    and "\<And>x s. rbind (field_as_bytes (FieldBytes (g x))) d = Inr x \<Longrightarrow> h f (FieldBytes (g x)) s = Inr (upd (\<lambda>l. l @ [x]) s)"
    and "\<And>s. upd (\<lambda>l. l) s = s" and "\<And>a b s. upd a (upd b s) = upd (\<lambda>l. a (b l)) s"
  shows "try_fold h (concat (map (\<lambda>x. message_field f (g x)) xs)) s = Inr (upd (\<lambda>l. l @ xs) s)"
  by (rule try_fold_pushes) (use assms in \<open>simp_all add: wire_simps\<close>)

lemma inspect_pushes:
  "ins_members_update (\<lambda>l. l @ a) m = m\<lparr>ins_members := ins_members m @ a\<rparr>"
  "ins_partitions_update (\<lambda>l. l @ b) m = m\<lparr>ins_partitions := ins_partitions m @ b\<rparr>"
  "ins_build_facts_update (\<lambda>l. l @ c) m = m\<lparr>ins_build_facts := ins_build_facts m @ c\<rparr>"
  "ins_unclassified_members_update (\<lambda>l. l @ d) m = m\<lparr>ins_unclassified_members := ins_unclassified_members m @ d\<rparr>"
  "ins_execution_relevant_unknowns_update (\<lambda>l. l @ c) m =
     m\<lparr>ins_execution_relevant_unknowns := ins_execution_relevant_unknowns m @ c\<rparr>"
  by (cases m, simp)+

lemma inspect_artifact_response_round_trip:
  assumes "inspect_artifact_response_ok m" and "length (inspect_artifact_response_encode m) < 2 ^ 64"
  shows "inspect_artifact_response_decode (inspect_artifact_response_encode m) = Inr m"
proof -
  have "length (concat (map (\<lambda>x. write_message 4 (archive_member_encode x)) (ins_members m))) < 2 ^ 64"
    "length (concat (map (\<lambda>x. write_message 5 (partition_entry_encode x)) (ins_partitions m))) < 2 ^ 64"
    "length (concat (map (\<lambda>x. write_message 6 (key_value_encode x)) (ins_build_facts m))) < 2 ^ 64"
    "length (concat (map (\<lambda>x. write_message 8 (key_value_encode x)) (ins_execution_relevant_unknowns m))) < 2 ^ 64"
    using assms(2) unfolding inspect_artifact_response_encode_def length_append by linarith+
  then have n: "\<And>x. x \<in> set (ins_members m) \<Longrightarrow> rbind (field_as_bytes (FieldBytes (archive_member_encode x))) archive_member_decode = Inr x"
    "\<And>x. x \<in> set (ins_partitions m) \<Longrightarrow> rbind (field_as_bytes (FieldBytes (partition_entry_encode x))) partition_entry_decode = Inr x"
    "\<And>x. x \<in> set (ins_build_facts m) \<Longrightarrow> rbind (field_as_bytes (FieldBytes (key_value_encode x))) key_value_decode = Inr x"
    "\<And>x. x \<in> set (ins_execution_relevant_unknowns m) \<Longrightarrow> rbind (field_as_bytes (FieldBytes (key_value_encode x))) key_value_decode = Inr x"
    using assms(1) unfolding inspect_artifact_response_ok_def
    by (blast intro: archive_member.nested partition_entry.nested key_value.nested le_less_trans [OF nested_shorter])+
  show ?thesis
    using assms unfolding inspect_artifact_response_encode_def inspect_artifact_response_decode_def inspect_artifact_response_ok_def as_fields
    by (simp add: message_simps list_all_strings inspect_pushes n
        messages_pushed [where d = archive_member_decode and upd = ins_members_update]
        messages_pushed [where d = partition_entry_decode and upd = ins_partitions_update]
        messages_pushed [where d = key_value_decode and upd = ins_build_facts_update]
        messages_pushed [where d = key_value_decode and upd = ins_execution_relevant_unknowns_update]
        strings_pushed [where upd = ins_unclassified_members_update] del: field_as_bytes.simps)
qed

interpretation hello: wire_message hello_encode hello_decode "\<lambda>_. True"
  by unfold_locales (rule hello_round_trip)

interpretation hello_ack: wire_message hello_ack_encode hello_ack_decode hello_ack_ok
  by unfold_locales (rule hello_ack_round_trip)

interpretation request: wire_message request_encode request_decode request_ok
  by unfold_locales (rule request_round_trip)

interpretation response: wire_message response_encode response_decode response_ok
  by unfold_locales (rule response_round_trip)

interpretation error_body: wire_message error_body_encode error_body_decode error_body_ok
  by unfold_locales (rule error_body_round_trip)

interpretation inspect: wire_message inspect_artifact_response_encode inspect_artifact_response_decode inspect_artifact_response_ok
  by unfold_locales (rule inspect_artifact_response_round_trip)

interpretation submission: wire_message submit_step_permit_request_encode submit_step_permit_request_decode submit_step_permit_request_ok
  by unfold_locales (rule submit_step_permit_request_round_trip)

section \<open>Lemmas: frames\<close>

text \<open>A source none of whose reads fails.\<close>

definition steady :: "byte_source \<Rightarrow> bool" where
  "steady s \<longleftrightarrow> (\<forall>a \<in> set (src_answers s). \<exists>n. a = ReadReady n)"

definition frame_bytes_of :: "bytes \<Rightarrow> bytes" where
  "frame_bytes_of body = to_be_bytes (of_nat (length body) :: u32) @ body"

lemma source_read_steady:
  assumes "steady s" and "0 < want"
  shows "\<exists>k ans. source_read s want = (Inr (take k (src_bytes s)), \<lparr>src_bytes = drop k (src_bytes s), src_answers = ans\<rparr>) \<and>
    0 < k \<and> k \<le> want \<and> steady \<lparr>src_bytes = drop k (src_bytes s), src_answers = ans\<rparr>"
proof (cases "src_answers s")
  case Nil
  then show ?thesis using assms by (intro exI [of _ want] exI [of _ "[]"]) (cases s, simp add: source_read_def steady_def)
next
  case (Cons a rest)
  then obtain n where "a = ReadReady n" using assms(1) by (auto simp: steady_def)
  with Cons assms show ?thesis
    by (intro exI [of _ "min want (Suc n)"] exI [of _ rest]) (simp add: source_read_def steady_def Let_def)
qed

lemma read_fill_steady:
  assumes "steady s"
  shows "\<exists>s'. read_fill s want filled = (Inr (filled @ take (want - length filled) (src_bytes s)), s') \<and>
    src_bytes s' = drop (want - length filled) (src_bytes s) \<and> steady s'"
  using assms
proof (induction s want filled rule: read_fill.induct)
  case (1 s want filled)
  show ?case
  proof (cases "want \<le> length filled")
    case True
    then show ?thesis using 1(2) by (simp add: read_fill.simps [of s])
  next
    case False
    then obtain k ans where k: "source_read s (want - length filled) =
        (Inr (take k (src_bytes s)), \<lparr>src_bytes = drop k (src_bytes s), src_answers = ans\<rparr>)" "0 < k" "k \<le> want - length filled"
        "steady \<lparr>src_bytes = drop k (src_bytes s), src_answers = ans\<rparr>"
      using source_read_steady [OF 1(2), of "want - length filled"] by auto
    show ?thesis
    proof (cases "take k (src_bytes s) = []")
      case True
      then have "src_bytes s = []" using k(2) by simp
      then show ?thesis using False k by (simp add: read_fill.simps [of s])
    next
      case ne: False
      let ?s = "\<lparr>src_bytes = drop k (src_bytes s), src_answers = ans\<rparr>" and ?f = "filled @ take k (src_bytes s)"
      obtain s' where s': "read_fill ?s want ?f = (Inr (?f @ take (want - length ?f) (src_bytes ?s)), s')"
        "src_bytes s' = drop (want - length ?f) (src_bytes ?s)" "steady s'"
        using 1(1) [OF False k(1) [symmetric] refl ne k(4)] by auto
      have r: "read_fill s want filled = read_fill ?s want ?f" using False k(1) ne by (simp add: read_fill.simps [of s])
      show ?thesis
      proof (cases "k \<le> length (src_bytes s)")
        case True
        then have "take k (src_bytes s) @ take (want - length ?f) (drop k (src_bytes s)) = take (want - length filled) (src_bytes s)"
          using k(3) False take_add [of k "want - length filled - k" "src_bytes s"] by (simp add: min_absorb2)
        moreover have "k + (want - (k + length filled)) = want - length filled" using k(3) by simp
        ultimately show ?thesis using s' r True by (auto simp: add.commute)
      next
        case False
        then show ?thesis using s' r k(3) by simp
      qed
    qed
  qed
qed

lemma frame_header: "length body \<le> WIRE_MAX_FRAME_BYTES \<Longrightarrow>
    length (to_be_bytes (of_nat (length body) :: u32)) = 4 \<and> unat (from_be_bytes (to_be_bytes (of_nat (length body) :: u32)) :: u32) = length body"
  by (simp add: WIRE_MAX_FRAME_BYTES_def from_to_be_bytes unat_of_nat)

text \<open>One frame is read whole, whatever the sizes of the reads; a source that ends early is told from a short frame.\<close>

lemma read_frame_steady:
  assumes "steady s" and "src_bytes s = frame_bytes_of body @ rest" and "length body \<le> WIRE_MAX_FRAME_BYTES"
  shows "\<exists>s'. read_frame s = (Inr (Some body), s') \<and> src_bytes s' = rest \<and> steady s'"
proof -
  note h = frame_header [OF assms(3)]
  obtain s1 where s1: "read_fill s 4 [] = (Inr (to_be_bytes (of_nat (length body) :: u32)), s1)" "src_bytes s1 = body @ rest" "steady s1"
    using read_fill_steady [OF assms(1), of 4 "[]"] assms(2) h by (auto simp: frame_bytes_of_def)
  obtain s2 where s2: "read_fill s1 (length body) [] = (Inr body, s2)" "src_bytes s2 = rest" "steady s2"
    using read_fill_steady [OF s1(3), of "length body" "[]"] s1(2) by auto
  show ?thesis using s1 s2 h assms(3) by (simp add: read_frame_def Let_def)
qed

lemma read_frame_cut:
  assumes "steady s" and "src_bytes s = take n (frame_bytes_of body)" and "n < length (frame_bytes_of body)"
    and "length body \<le> WIRE_MAX_FRAME_BYTES"
  shows "fst (read_frame s) = (if n = 0 then Inr None else Inl FrameTruncated)"
proof -
  note h = frame_header [OF assms(4)]
  let ?h = "to_be_bytes (of_nat (length body) :: u32)"
  obtain s1 where s1: "read_fill s 4 [] = (Inr (take 4 (take n (frame_bytes_of body))), s1)" "src_bytes s1 = drop 4 (take n (frame_bytes_of body))" "steady s1"
    using read_fill_steady [OF assms(1), of 4 "[]"] assms(2) by auto
  show ?thesis
  proof (cases "n < 4")
    case True
    define header where "header = take 4 (take n (frame_bytes_of body))"
    have "length header = n" using True assms(3) by (simp add: header_def)
    then show ?thesis using s1(1) [folded header_def] True by (auto simp: read_frame_def)
  next
    case False
    then have b: "take 4 (take n (frame_bytes_of body)) = ?h" "src_bytes s1 = take (n - 4) body"
      using s1(2) h by (simp_all add: frame_bytes_of_def drop_take)
    have "n - 4 < length body" using assms(3) False h by (simp add: frame_bytes_of_def)
    then obtain s2 where s2: "read_fill s1 (length body) [] = (Inr (take (n - 4) body), s2)" "length (take (n - 4) body) < length body"
      using read_fill_steady [OF s1(3), of "length body" "[]"] b(2) by (auto simp: min_absorb2)
    then show ?thesis using s1(1) b(1) s2 h assms(4) False by (simp add: read_frame_def Let_def)
  qed
qed

section \<open>Properties\<close>

text \<open>
  C38. The enumerations on the wire are exact. A session kind, a call or a status is read from a field if and only if
  the field is a varint holding the number of that constant at 64 bits; every other field, whatever its type and
  value, is an error and never a default.
\<close>

theorem wire_enums_exact:
  "(decode_enum f v session_from_wire = Inr k \<longleftrightarrow> v = FieldVarint (scast (session_wire_value k))) \<and>
   (decode_enum f v api_from_wire = Inr a \<longleftrightarrow> v = FieldVarint (scast (api_wire_value a))) \<and>
   (decode_enum f v status_from_wire = Inr st \<longleftrightarrow> v = FieldVarint (scast (status_wire_value st)))"
  by (simp add: session.decoded api.decoded status.decoded)

text \<open>
  C14. Messages cross the wire unchanged. Every handshake, acknowledgement, request, response, inspection result and
  permit submission whose texts are UTF-8 and whose optional and repeated texts are not empty is decoded from its
  encoding as it was, and the peer reads that encoding from its frame, whatever the sizes in which the bytes arrive. When the
  frame is cut off anywhere, the peer sees a clean end if nothing of it arrived and an error otherwise.
\<close>

theorem messages_cross_the_wire:
  assumes "steady s" and "src_bytes s = frame_bytes_of body @ rest" and "length body \<le> WIRE_MAX_FRAME_BYTES"
  shows "\<exists>s'. read_frame s = (Inr (Some body), s') \<and> src_bytes s' = rest \<and> steady s' \<and>
    (body = hello_encode h \<longrightarrow> hello_decode body = Inr h) \<and>
    (hello_ack_ok ack \<longrightarrow> body = hello_ack_encode ack \<longrightarrow> hello_ack_decode body = Inr ack) \<and>
    (request_ok q \<longrightarrow> body = request_encode q \<longrightarrow> request_decode body = Inr q) \<and>
    (response_ok r \<longrightarrow> body = response_encode r \<longrightarrow> response_decode body = Inr r) \<and>
    (inspect_artifact_response_ok i \<longrightarrow> body = inspect_artifact_response_encode i \<longrightarrow> inspect_artifact_response_decode body = Inr i) \<and>
    (submit_step_permit_request_ok p \<longrightarrow> body = submit_step_permit_request_encode p \<longrightarrow> submit_step_permit_request_decode body = Inr p) \<and>
    (\<forall>n < length (frame_bytes_of body). fst (read_frame (s\<lparr>src_bytes := take n (frame_bytes_of body)\<rparr>)) =
      (if n = 0 then Inr None else Inl FrameTruncated))"
proof -
  have "fst (read_frame (s\<lparr>src_bytes := take n (frame_bytes_of body)\<rparr>)) = (if n = 0 then Inr None else Inl FrameTruncated)"
    if "n < length (frame_bytes_of body)" for n
    by (rule read_frame_cut [where body = body]) (use assms that in \<open>simp_all add: steady_def\<close>)
  moreover have "length body < 2 ^ 64" using assms(3) by (simp add: WIRE_MAX_FRAME_BYTES_def)
  ultimately show ?thesis using read_frame_steady [OF assms]
    by (auto simp: hello_round_trip hello_ack_round_trip request_round_trip response_round_trip
        inspect_artifact_response_round_trip submit_step_permit_request_round_trip)
qed

definition ex_request :: request where
  "ex_request = \<lparr>req_request_id = ''r'', req_api = StartExecution, req_payload = [1, 2]\<rparr>"

theorem messages_cross_the_wire_witness:
  "\<exists>s'. read_frame \<lparr>src_bytes = frame_bytes_of (request_encode ex_request), src_answers = [ReadReady 0, ReadReady 1, ReadReady 2]\<rparr> =
     (Inr (Some (request_encode ex_request)), s') \<and> src_bytes s' = [] \<and> request_decode (request_encode ex_request) = Inr ex_request"
proof -
  let ?s = "\<lparr>src_bytes = frame_bytes_of (request_encode ex_request), src_answers = [ReadReady 0, ReadReady 1, ReadReady 2]\<rparr>"
  have "steady ?s" by (simp add: steady_def)
  moreover have "src_bytes ?s = frame_bytes_of (request_encode ex_request) @ []" by simp
  moreover have "length (request_encode ex_request) \<le> WIRE_MAX_FRAME_BYTES"
    by (simp add: request_encode_def ex_request_def write_string_def write_enum_def write_bytes_def write_tag_def write_varint.simps
        str_bytes_def WIRE_MAX_FRAME_BYTES_def)
  moreover have "request_ok ex_request" by code_simp
  ultimately show ?thesis using messages_cross_the_wire [of ?s "request_encode ex_request" "[]" undefined undefined ex_request] by blast
qed

end
