(* ===== verification/Cas.thy ===== *)
theory Cas
  imports Sha256
begin

text \<open>
  \<open>crates/arkforge-artifact/src/cas.rs\<close>: the content-addressed store. The object files, the lease files and the staging
  files are lists in the order in which a directory lists them. What the operating system answers is an argument: a text
  means that the call failed. The reader that an import drains is the trait \<open>Read\<close>: a function from its state and the
  size of the buffer to the bytes of one \<open>read\<close>, and none of them at the end.
\<close>

section \<open>The store\<close>

record cas_quota =
  cq_max_total_bytes :: u64
  cq_min_free_bytes :: u64
  cq_max_artifact_bytes :: u64

record preflight_report =
  pr_requested_bytes :: u64
  pr_store_bytes_in_use :: u64
  pr_volume_available_bytes :: u64
  pr_accepted :: bool
  pr_blocker :: "string option"

record imported_object =
  im_digest :: sha256_digest
  im_size_bytes :: u64
  im_deduplicated :: bool

record gc_report =
  gr_objects_removed :: "sha256_digest list"
  gr_bytes_reclaimed :: nat
  gr_staging_files_removed :: nat

datatype cas_error =
    CasIo string
  | QuotaExceeded preflight_report
  | DigestMismatch sha256_digest sha256_digest
  | ArtifactTooLarge u64 u64
  | CasNotFound sha256_digest
  | LeaseHeld sha256_digest nat
  | InvalidHolder string

record cas_object =
  ob_bytes :: bytes
  ob_sealed :: bool

record content_store =
  cs_quota :: cas_quota
  cs_objects :: "(sha256_digest \<times> cas_object) list"
  cs_leases :: "(sha256_digest \<times> string list) list"
  cs_staging :: "string list"

abbreviation object_at :: "content_store \<Rightarrow> sha256_digest \<Rightarrow> cas_object option" where
  "object_at s \<equiv> map_of (cs_objects s)"

definition cas_contains :: "content_store \<Rightarrow> sha256_digest \<Rightarrow> bool" where
  "cas_contains s digest \<longleftrightarrow> object_at s digest \<noteq> None"

definition list_objects :: "content_store \<Rightarrow> sha256_digest list" where
  "list_objects s = sort (map fst (cs_objects s))"

text \<open>The sum aborts on overflow; a file that cannot be inspected counts as empty.\<close>

definition total_bytes :: "content_store \<Rightarrow> u64 option" where
  "total_bytes s =
     foldl (\<lambda>total digest. Option.bind total (\<lambda>n.
       checked_add n (case object_at s digest of Some ob \<Rightarrow> of_nat (length (ob_bytes ob)) | None \<Rightarrow> 0))) (Some 0) (list_objects s)"

definition saturating_add :: "u64 \<Rightarrow> u64 \<Rightarrow> u64" where
  "saturating_add a b = (case checked_add a b of Some c \<Rightarrow> c | None \<Rightarrow> - 1)"

definition preflight_blocker :: "cas_quota \<Rightarrow> u64 \<Rightarrow> u64 \<Rightarrow> u64 \<Rightarrow> string option" where
  "preflight_blocker q requested in_use available =
     (if cq_max_artifact_bytes q < requested then
        Some (''artifact of '' @ display_nat (unat requested) @ '' bytes exceeds the per-artifact limit of '' @
          display_nat (unat (cq_max_artifact_bytes q)))
      else if cq_max_total_bytes q < saturating_add in_use requested then
        Some (''store holds '' @ display_nat (unat in_use) @ '' bytes; adding '' @ display_nat (unat requested) @
          '' would exceed the '' @ display_nat (unat (cq_max_total_bytes q)) @ ''-byte ceiling'')
      else if available < saturating_add requested (cq_min_free_bytes q) then
        Some (''volume has '' @ display_nat (unat available) @ '' bytes free; '' @ display_nat (unat requested) @ '' plus the '' @
          display_nat (unat (cq_min_free_bytes q)) @ ''-byte reserve does not fit'')
      else None)"

definition cas_preflight :: "string option \<Rightarrow> string + u64 \<Rightarrow> content_store \<Rightarrow> u64 \<Rightarrow> (cas_error + preflight_report) option" where
  "cas_preflight listed space s requested =
     (case listed of
        Some message \<Rightarrow> Some (Inl (CasIo message))
      | None \<Rightarrow>
          (case total_bytes s of
             None \<Rightarrow> None
           | Some in_use \<Rightarrow>
               Some (rbind (map_err CasIo space) (\<lambda>available.
                 let blocker = preflight_blocker (cs_quota s) requested in_use available in
                 Inr \<lparr>pr_requested_bytes = requested, pr_store_bytes_in_use = in_use,
                   pr_volume_available_bytes = available, pr_accepted = (blocker = None), pr_blocker = blocker\<rparr>))))"

section \<open>Import\<close>

definition IMPORT_BUFFER :: nat where
  "IMPORT_BUFFER = 1024 * 1024"

text \<open>The loop of \<open>import\<close>: it counts, hashes and stages what it reads. \<open>wr k\<close> is the answer to the \<open>k\<close>-th write.\<close>

function import_loop ::
  "('r \<Rightarrow> nat \<Rightarrow> (string + bytes) \<times> 'r) \<Rightarrow> (nat \<Rightarrow> string option) \<Rightarrow> u64 \<Rightarrow> nat \<Rightarrow> 'r \<Rightarrow> sha256_state \<Rightarrow> u64 \<Rightarrow> bytes \<Rightarrow>
     ((cas_error + sha256_state \<times> u64 \<times> bytes) \<times> 'r) option" where
  "import_loop rd wr limit k source hasher written staged =
     (case rd source IMPORT_BUFFER of
        (Inl message, source') \<Rightarrow> Some (Inl (CasIo message), source')
      | (Inr bs, source') \<Rightarrow>
          if bs = [] then Some (Inr (hasher, written, staged), source')
          else if 2 ^ 64 \<le> unat written + length bs then None
          else
            let written' = written + of_nat (length bs) in
            if limit < written' then Some (Inl (ArtifactTooLarge written' limit), source')
            else
              (case wr k of
                 Some message \<Rightarrow> Some (Inl (CasIo message), source')
               | None \<Rightarrow> import_loop rd wr limit (Suc k) source' (sha256_update hasher bs) written' (staged @ bs)))"
  by pat_completeness auto
termination import_loop
proof (relation "measure (\<lambda>(rd, wr, limit, k, source, hasher, written, staged). Suc (unat limit) - unat written)")
  fix rd :: "'r \<Rightarrow> nat \<Rightarrow> (string + bytes) \<times> 'r" and wr :: "nat \<Rightarrow> string option" and limit written written' :: u64
    and bs staged :: bytes and k :: nat and source source' :: 'r and hasher :: sha256_state
  assume b: "bs \<noteq> []" "\<not> 2 ^ 64 \<le> unat written + length bs" "written' = written + of_nat (length bs)" "\<not> limit < written'"
  then have "unat written' = unat written + length bs" by (simp add: unat_word_ariths unat_of_nat)
  moreover have "unat written' \<le> unat limit" using b(4) by (simp add: word_le_nat_alt not_less)
  moreover have "0 < length bs" using b(1) by simp
  ultimately show "((rd, wr, limit, Suc k, source', sha256_update hasher bs, written', staged @ bs), rd, wr, limit, k, source, hasher, written, staged)
      \<in> measure (\<lambda>(rd, wr, limit, k, source, hasher, written, staged). Suc (unat limit) - unat written)"
    unfolding in_measure prod.case by linarith
qed simp

declare import_loop.simps [simp del]

text \<open>
  The answers to the calls of one import. \<open>ii_stage\<close> fails before or after the staging file exists; \<open>ii_race\<close> is an object
  that another process publishes under the same address before the rename; \<open>ii_unlink\<close> tells whether removing the
  staging file works.
\<close>

record import_io =
  ii_listed :: "string option"
  ii_space :: "string + u64"
  ii_name :: string
  ii_stage :: "(bool \<times> string) option"
  ii_write :: "nat \<Rightarrow> string option"
  ii_sync :: "string option"
  ii_unlink :: bool
  ii_dir :: "string option"
  ii_seal :: "string option"
  ii_race :: "cas_object option"
  ii_rename :: "string option"

definition leave_staging :: "import_io \<Rightarrow> content_store \<Rightarrow> content_store" where
  "leave_staging io s = s\<lparr>cs_staging := ii_name io # cs_staging s\<rparr>"

definition drop_staging :: "import_io \<Rightarrow> content_store \<Rightarrow> content_store" where
  "drop_staging io s = (if ii_unlink io then s else leave_staging io s)"

definition put_object :: "sha256_digest \<Rightarrow> cas_object \<Rightarrow> content_store \<Rightarrow> content_store" where
  "put_object digest ob s = s\<lparr>cs_objects :=
     (if digest \<in> set (map fst (cs_objects s)) then map (\<lambda>(d, x). (d, if d = digest then ob else x)) (cs_objects s)
      else cs_objects s @ [(digest, ob)])\<rparr>"

text \<open>From the digest to the published object.\<close>

definition publish_object :: "import_io \<Rightarrow> content_store \<Rightarrow> sha256_digest \<Rightarrow> u64 \<Rightarrow> bytes \<Rightarrow> (cas_error + imported_object) \<times> content_store" where
  "publish_object io s digest written staged =
     (if cas_contains s digest then
        (Inr \<lparr>im_digest = digest, im_size_bytes = written, im_deduplicated = True\<rparr>, drop_staging io s)
      else case ii_dir io of
        Some message \<Rightarrow> (Inl (CasIo message), leave_staging io s)
      | None \<Rightarrow>
          (case ii_seal io of
             Some message \<Rightarrow> (Inl (CasIo message), leave_staging io s)
           | None \<Rightarrow>
               let s = (case ii_race io of Some ob \<Rightarrow> put_object digest ob s | None \<Rightarrow> s) in
               (case ii_rename io of
                  None \<Rightarrow>
                    (Inr \<lparr>im_digest = digest, im_size_bytes = written, im_deduplicated = False\<rparr>,
                     put_object digest \<lparr>ob_bytes = staged, ob_sealed = True\<rparr> s)
                | Some message \<Rightarrow>
                    if cas_contains s digest then
                      (Inr \<lparr>im_digest = digest, im_size_bytes = written, im_deduplicated = True\<rparr>, drop_staging io s)
                    else (Inl (CasIo message), leave_staging io s))))"

definition cas_import ::
  "('r \<Rightarrow> nat \<Rightarrow> (string + bytes) \<times> 'r) \<Rightarrow> import_io \<Rightarrow> content_store \<Rightarrow> 'r \<Rightarrow> u64 \<Rightarrow> sha256_digest option \<Rightarrow>
     ((cas_error + imported_object) \<times> 'r \<times> content_store) option" where
  "cas_import rd io s source expected_size expected_digest =
     (case cas_preflight (ii_listed io) (ii_space io) s expected_size of
        None \<Rightarrow> None
      | Some (Inl e) \<Rightarrow> Some (Inl e, source, s)
      | Some (Inr report) \<Rightarrow>
          if \<not> pr_accepted report then Some (Inl (QuotaExceeded report), source, s)
          else case ii_stage io of
            Some (created, message) \<Rightarrow> Some (Inl (CasIo message), source, if created then leave_staging io s else s)
          | None \<Rightarrow>
              (case import_loop rd (ii_write io) (cq_max_artifact_bytes (cs_quota s)) 0 source sha256_new 0 [] of
                 None \<Rightarrow> None
               | Some (Inl e, source) \<Rightarrow> Some (Inl e, source, drop_staging io s)
               | Some (Inr (hasher, written, staged), source) \<Rightarrow>
                   (case ii_sync io of
                      Some message \<Rightarrow> Some (Inl (CasIo message), source, drop_staging io s)
                    | None \<Rightarrow>
                        let digest = sha256_finalize hasher in
                        if expected_digest \<noteq> None \<and> expected_digest \<noteq> Some digest then
                          Some (Inl (DigestMismatch (the expected_digest) digest), source, drop_staging io s)
                        else
                          let (result, s) = publish_object io s digest written staged in
                          Some (result, source, s))))"

section \<open>Objects and leases\<close>

definition seal_object :: "string option \<Rightarrow> content_store \<Rightarrow> sha256_digest \<Rightarrow> (cas_error + unit) \<times> content_store" where
  "seal_object answer s digest =
     (case object_at s digest of
        None \<Rightarrow> (Inl (CasNotFound digest), s)
      | Some ob \<Rightarrow>
          (case answer of
             Some message \<Rightarrow> (Inl (CasIo message), s)
           | None \<Rightarrow> (Inr (), put_object digest (ob\<lparr>ob_sealed := True\<rparr>) s)))"

text \<open>\<open>verify_object\<close> re-hashes the file in the pieces that the reads return: each has at least one byte.\<close>

fun cut_up :: "nat list \<Rightarrow> bytes \<Rightarrow> bytes list" where
  "cut_up sizes [] = []"
| "cut_up [] bs = [bs]"
| "cut_up (n # sizes) bs = take (Suc n) bs # cut_up sizes (drop (Suc n) bs)"

definition verify_object :: "string option \<Rightarrow> nat list \<Rightarrow> content_store \<Rightarrow> sha256_digest \<Rightarrow> cas_error + bool" where
  "verify_object answer sizes s digest =
     rbind (ok_or (object_at s digest) (CasNotFound digest)) (\<lambda>ob.
       case answer of
         Some message \<Rightarrow> Inl (CasIo message)
       | None \<Rightarrow> Inr (sha256_finalize (foldl sha256_update sha256_new (cut_up sizes (ob_bytes ob))) = digest))"

definition ascii_alphanumeric :: "char \<Rightarrow> bool" where
  "ascii_alphanumeric c \<longleftrightarrow>
     (CHR ''0'' \<le> c \<and> c \<le> CHR ''9'') \<or> (CHR ''A'' \<le> c \<and> c \<le> CHR ''Z'') \<or> (CHR ''a'' \<le> c \<and> c \<le> CHR ''z'')"

definition sanitize_holder :: "string \<Rightarrow> cas_error + string" where
  "sanitize_holder holder =
     (if holder \<noteq> [] \<and> length holder \<le> 128 \<and> list_all (\<lambda>c. ascii_alphanumeric c \<or> c \<in> set ''._:-'') holder then Inr holder
      else Inl (InvalidHolder holder))"

definition lease_names :: "content_store \<Rightarrow> sha256_digest \<Rightarrow> string list" where
  "lease_names s digest = (case map_of (cs_leases s) digest of Some names \<Rightarrow> names | None \<Rightarrow> [])"

definition set_leases :: "sha256_digest \<Rightarrow> string list \<Rightarrow> content_store \<Rightarrow> content_store" where
  "set_leases digest names s = s\<lparr>cs_leases := (digest, names) # filter (\<lambda>(d, _). d \<noteq> digest) (cs_leases s)\<rparr>"

text \<open>\<open>la_create\<close> fails before or after the lease file exists; \<open>la_write\<close> is the answer to writing and syncing it.\<close>

record lease_answers =
  la_dir :: "string option"
  la_create :: "(bool \<times> string) option"
  la_write :: "string option"

definition acquire_lease :: "lease_answers \<Rightarrow> content_store \<Rightarrow> sha256_digest \<Rightarrow> string \<Rightarrow> (cas_error + unit) \<times> content_store" where
  "acquire_lease os s digest holder =
     (if \<not> cas_contains s digest then (Inl (CasNotFound digest), s)
      else case sanitize_holder holder of
        Inl e \<Rightarrow> (Inl e, s)
      | Inr holder \<Rightarrow>
          (case la_dir os of
             Some message \<Rightarrow> (Inl (CasIo message), s)
           | None \<Rightarrow>
               let leased = set_leases digest (remdups (holder # lease_names s digest)) s in
               (case la_create os of
                  Some (created, message) \<Rightarrow> (Inl (CasIo message), if created then leased else s)
                | None \<Rightarrow> (case la_write os of Some message \<Rightarrow> (Inl (CasIo message), leased) | None \<Rightarrow> (Inr (), leased)))))"

definition release_lease :: "string option \<Rightarrow> content_store \<Rightarrow> sha256_digest \<Rightarrow> string \<Rightarrow> (cas_error + unit) \<times> content_store" where
  "release_lease answer s digest holder =
     (case sanitize_holder holder of
        Inl e \<Rightarrow> (Inl e, s)
      | Inr holder \<Rightarrow>
          if holder \<notin> set (lease_names s digest) then (Inr (), s)
          else case answer of
            Some message \<Rightarrow> (Inl (CasIo message), s)
          | None \<Rightarrow> (Inr (), set_leases digest (removeAll holder (lease_names s digest)) s))"

definition lease_holders :: "string option \<Rightarrow> content_store \<Rightarrow> sha256_digest \<Rightarrow> cas_error + string list" where
  "lease_holders answer s digest =
     (if map_of (cs_leases s) digest = None then Inr []
      else case answer of Some message \<Rightarrow> Inl (CasIo message) | None \<Rightarrow> Inr (sort (lease_names s digest)))"

section \<open>Garbage collection\<close>

record gc_answers =
  ga_listed :: "string option"
  ga_leases :: "sha256_digest \<Rightarrow> string option"
  ga_remove :: "sha256_digest \<Rightarrow> string option"
  ga_age :: "string \<Rightarrow> nat"
  ga_staging :: "string \<Rightarrow> string option"

definition STAGING_GRACE :: nat where
  "STAGING_GRACE = 6 * 60 * 60"

fun gc_objects :: "gc_answers \<Rightarrow> sha256_digest list \<Rightarrow> content_store \<Rightarrow> gc_report \<Rightarrow> (cas_error + gc_report) \<times> content_store" where
  "gc_objects os [] s report = (Inr report, s)"
| "gc_objects os (digest # rest) s report =
     (case lease_holders (ga_leases os digest) s digest of
        Inl e \<Rightarrow> (Inl e, s)
      | Inr holders \<Rightarrow>
          if holders \<noteq> [] then gc_objects os rest s report
          else case ga_remove os digest of
            Some message \<Rightarrow> (Inl (CasIo message), s)
          | None \<Rightarrow>
              let size' = (case object_at s digest of Some ob \<Rightarrow> length (ob_bytes ob) | None \<Rightarrow> 0) in
              gc_objects os rest
                (s\<lparr>cs_objects := filter (\<lambda>(d, _). d \<noteq> digest) (cs_objects s), cs_leases := filter (\<lambda>(d, _). d \<noteq> digest) (cs_leases s)\<rparr>)
                (report\<lparr>gr_bytes_reclaimed := gr_bytes_reclaimed report + size',
                  gr_objects_removed := gr_objects_removed report @ [digest]\<rparr>))"

fun gc_staging :: "gc_answers \<Rightarrow> string list \<Rightarrow> content_store \<Rightarrow> gc_report \<Rightarrow> (cas_error + gc_report) \<times> content_store" where
  "gc_staging os [] s report = (Inr report, s)"
| "gc_staging os (name # rest) s report =
     (if ga_age os name < STAGING_GRACE then gc_staging os rest s report
      else case ga_staging os name of
        Some message \<Rightarrow> (Inl (CasIo message), s)
      | None \<Rightarrow> gc_staging os rest (s\<lparr>cs_staging := removeAll name (cs_staging s)\<rparr>)
          (report\<lparr>gr_staging_files_removed := gr_staging_files_removed report + 1\<rparr>))"

definition collect_garbage :: "gc_answers \<Rightarrow> content_store \<Rightarrow> (cas_error + gc_report) \<times> content_store" where
  "collect_garbage os s =
     (case ga_listed os of
        Some message \<Rightarrow> (Inl (CasIo message), s)
      | None \<Rightarrow>
          (case gc_objects os (list_objects s) s
             \<lparr>gr_objects_removed = [], gr_bytes_reclaimed = 0, gr_staging_files_removed = 0\<rparr> of
             (Inl e, s) \<Rightarrow> (Inl e, s)
           | (Inr report, s) \<Rightarrow> gc_staging os (cs_staging s) s report))"

section \<open>What an import reads\<close>

inductive delivered :: "('r \<Rightarrow> nat \<Rightarrow> (string + bytes) \<times> 'r) \<Rightarrow> 'r \<Rightarrow> bytes list \<Rightarrow> 'r \<Rightarrow> bool" for rd where
  delivered_end: "rd source IMPORT_BUFFER = (Inr [], source') \<Longrightarrow> delivered rd source [] source'"
| delivered_more: "rd source IMPORT_BUFFER = (Inr c, source1) \<Longrightarrow> c \<noteq> [] \<Longrightarrow> delivered rd source1 cs source' \<Longrightarrow>
    delivered rd source (c # cs) source'"

lemma import_loop_reads:
  "import_loop rd wr limit k source hasher written staged = Some (Inr (hasher', written', staged'), source') \<Longrightarrow>
     \<exists>cs. delivered rd source cs source' \<and> hasher' = foldl sha256_update hasher cs \<and> staged' = staged @ concat cs \<and>
       unat written' = unat written + length (concat cs) \<and> (written \<le> limit \<longrightarrow> written' \<le> limit)"
proof (induction rd wr limit k source hasher written staged rule: import_loop.induct)
  case (1 rd wr limit k source hasher written staged)
  obtain r source1 where r: "rd source IMPORT_BUFFER = (r, source1)" by (cases "rd source IMPORT_BUFFER")
  show ?case
  proof (cases r)
    case (Inl e)
    then show ?thesis using 1(2) r by (simp add: import_loop.simps [of rd wr limit k source])
  next
    case (Inr bs)
    show ?thesis
    proof (cases "bs = []")
      case True
      then show ?thesis using 1(2) r Inr by (auto simp: import_loop.simps [of rd wr limit k source] intro!: exI [of _ "[]"] delivered_end)
    next
      case False
      let ?w = "written + of_nat (length bs)"
      have f: "\<not> 2 ^ 64 \<le> unat written + length bs" "\<not> limit < ?w" "wr k = None"
        and n: "import_loop rd wr limit (Suc k) source1 (sha256_update hasher bs) ?w (staged @ bs) = Some (Inr (hasher', written', staged'), source')"
        using 1(2) r Inr False by (auto simp: import_loop.simps [of rd wr limit k source] Let_def split: if_splits option.splits)
      have w: "unat ?w = unat written + length bs" using f(1) by (simp add: unat_word_ariths unat_of_nat)
      obtain cs where cs: "delivered rd source1 cs source'" "hasher' = foldl sha256_update (sha256_update hasher bs) cs"
        "staged' = (staged @ bs) @ concat cs" "unat written' = unat ?w + length (concat cs)" "written' \<le> limit"
        using 1(1) [OF r [symmetric] Inr False f(1) refl f(2,3) n] f(2) by auto
      have "delivered rd source (bs # cs) source'" by (rule delivered_more) (use r Inr False cs(1) in auto)
      then show ?thesis using cs w by (intro exI [of _ "bs # cs"]) auto
    qed
  qed
qed

lemma map_of_replace:
  "map_of (map (\<lambda>(d, x). (d, if d = k then v else x)) xs) d = (if d = k \<and> k \<in> fst ` set xs then Some v else map_of xs d)"
proof (induction xs)
  case (Cons x xs)
  then show ?case by (cases x; cases "fst x = k"; cases "d = k") simp_all
qed simp

lemma object_at_put: "object_at (put_object digest ob s) d = (if d = digest then Some ob else object_at s d)"
proof (cases "digest \<in> fst ` set (cs_objects s)")
  case False
  then have "object_at s digest = None" by (simp add: map_of_eq_None_iff)
  with False show ?thesis by (auto simp: put_object_def map_add_def split: option.splits)
qed (simp add: put_object_def map_of_replace)

lemma put_object_simps [simp]:
  "cs_leases (put_object d ob s) = cs_leases s" "cs_quota (put_object d ob s) = cs_quota s"
  "cs_objects (drop_staging io s) = cs_objects s" "cs_leases (drop_staging io s) = cs_leases s" "cs_quota (drop_staging io s) = cs_quota s"
  "cs_objects (leave_staging io s) = cs_objects s" "cs_leases (leave_staging io s) = cs_leases s" "cs_quota (leave_staging io s) = cs_quota s"
  by (simp_all add: put_object_def drop_staging_def leave_staging_def)

section \<open>The invariant\<close>

definition objects_ok :: "content_store \<Rightarrow> bool" where
  "objects_ok s \<longleftrightarrow> (\<forall>d ob. object_at s d = Some ob \<longrightarrow> sha256_spec (ob_bytes ob) = d)"

definition leases_ok :: "content_store \<Rightarrow> bool" where
  "leases_ok s \<longleftrightarrow> (\<forall>d. lease_names s d \<noteq> [] \<longrightarrow> cas_contains s d)"

text \<open>Another process publishes only what has the address under which it publishes.\<close>

definition race_ok :: "import_io \<Rightarrow> sha256_digest \<Rightarrow> bool" where
  "race_ok io d \<longleftrightarrow> (\<forall>ob. ii_race io = Some ob \<longrightarrow> sha256_spec (ob_bytes ob) = d)"

lemma lease_names_cong: "cs_leases s = cs_leases t \<Longrightarrow> lease_names s = lease_names t"
  by (simp add: lease_names_def fun_eq_iff)

lemma objects_ok_cong: "cs_objects s = cs_objects t \<Longrightarrow> objects_ok s \<longleftrightarrow> objects_ok t"
  by (simp add: objects_ok_def)

lemma objects_ok_staging [simp]: "objects_ok (drop_staging io s) \<longleftrightarrow> objects_ok s" "objects_ok (leave_staging io s) \<longleftrightarrow> objects_ok s"
  by (simp_all add: objects_ok_def)

lemma cas_contains_staging [simp]: "cas_contains (drop_staging io s) d \<longleftrightarrow> cas_contains s d" "cas_contains (leave_staging io s) d \<longleftrightarrow> cas_contains s d"
  by (simp_all add: cas_contains_def)

lemma objects_ok_put: "objects_ok s \<Longrightarrow> sha256_spec (ob_bytes ob) = d \<Longrightarrow> objects_ok (put_object d ob s)"
  by (auto simp: objects_ok_def object_at_put split: if_splits)

lemma cas_contains_put: "cas_contains (put_object d ob s) e \<longleftrightarrow> e = d \<or> cas_contains s e"
  by (simp add: cas_contains_def object_at_put)

definition keeps_objects :: "content_store \<Rightarrow> content_store \<Rightarrow> bool" where
  "keeps_objects s s' \<longleftrightarrow> objects_ok s' \<and> cs_leases s' = cs_leases s \<and> (\<forall>d. cas_contains s d \<longrightarrow> object_at s' d = object_at s d)"

lemma keeps_put:
  assumes "objects_ok s" and "\<not> cas_contains s d" and "sha256_spec (ob_bytes ob) = d"
  shows "keeps_objects s (put_object d ob s)"
  unfolding keeps_objects_def using assms(1,2) objects_ok_put [OF assms(1,3)] by (auto simp: object_at_put)

lemma keeps_put_again:
  assumes "keeps_objects s s'" and "\<not> cas_contains s d" and "sha256_spec (ob_bytes ob) = d"
  shows "keeps_objects s (put_object d ob s')"
proof -
  have "objects_ok (put_object d ob s')" using assms(1,3) objects_ok_put by (simp add: keeps_objects_def)
  then show ?thesis using assms(1,2) unfolding keeps_objects_def by (auto simp: object_at_put)
qed

lemma keeps_same: "objects_ok s \<Longrightarrow> keeps_objects s s" "objects_ok s \<Longrightarrow> keeps_objects s (drop_staging io s)" "objects_ok s \<Longrightarrow> keeps_objects s (leave_staging io s)"
  by (simp_all add: keeps_objects_def)

lemma keeps_drop: "keeps_objects s s' \<Longrightarrow> keeps_objects s (drop_staging io s')" "keeps_objects s s' \<Longrightarrow> keeps_objects s (leave_staging io s')"
  by (simp_all add: keeps_objects_def)

lemma publish_object_ok:
  assumes "publish_object io s digest written staged = (result, s')" and "objects_ok s" and "race_ok io digest" and "sha256_spec staged = digest"
  shows "keeps_objects s s' \<and>
    (\<forall>ob. result = Inr ob \<longrightarrow> im_digest ob = digest \<and> im_size_bytes ob = written \<and> cas_contains s' digest)"
proof (cases "cas_contains s digest \<or> ii_dir io \<noteq> None \<or> ii_seal io \<noteq> None")
  case True
  then show ?thesis using assms(1) keeps_same [OF assms(2)]
    by (cases "cas_contains s digest"; cases "ii_dir io"; cases "ii_seal io") (auto simp: publish_object_def)
next
  case False
  define s1 where "s1 = (case ii_race io of Some ob \<Rightarrow> put_object digest ob s | None \<Rightarrow> s)"
  have k: "keeps_objects s s1"
    using False assms(3) keeps_same [OF assms(2)] keeps_put [OF assms(2)] by (cases "ii_race io") (auto simp: s1_def race_ok_def)
  have "keeps_objects s (put_object digest \<lparr>ob_bytes = staged, ob_sealed = True\<rparr> s1)"
    by (rule keeps_put_again [OF k]) (use False assms(4) in simp_all)
  then show ?thesis using assms(1) False keeps_drop [OF k]
    unfolding publish_object_def s1_def [symmetric] Let_def by (cases "ii_rename io") (auto simp: cas_contains_put split: if_splits)
qed

text \<open>Every way through an import.\<close>

lemma cas_import_ok:
  assumes "cas_import rd io s source requested expected = Some (result, source', s')" and "objects_ok s"
    and "\<And>cs src. delivered rd source cs src \<Longrightarrow> race_ok io (sha256_spec (concat cs))"
  shows "keeps_objects s s' \<and>
    (\<forall>ob. result = Inr ob \<longrightarrow> (\<exists>cs. delivered rd source cs source' \<and> im_digest ob = sha256_spec (concat cs) \<and>
      unat (im_size_bytes ob) = length (concat cs) \<and> im_size_bytes ob \<le> cq_max_artifact_bytes (cs_quota s) \<and>
      (expected \<noteq> None \<longrightarrow> expected = Some (im_digest ob)) \<and> cas_contains s' (im_digest ob)))"
proof (cases "\<exists>h w st. import_loop rd (ii_write io) (cq_max_artifact_bytes (cs_quota s)) 0 source sha256_new 0 [] = Some (Inr (h, w, st), source') \<and>
    publish_object io s (sha256_finalize h) w st = (result, s') \<and> (expected \<noteq> None \<longrightarrow> expected = Some (sha256_finalize h))")
  case True
  then obtain h w st where t: "import_loop rd (ii_write io) (cq_max_artifact_bytes (cs_quota s)) 0 source sha256_new 0 [] = Some (Inr (h, w, st), source')"
    "publish_object io s (sha256_finalize h) w st = (result, s')" "expected \<noteq> None \<longrightarrow> expected = Some (sha256_finalize h)" by blast
  from import_loop_reads [OF t(1)] obtain cs where cs: "delivered rd source cs source'" "h = foldl sha256_update sha256_new cs" "st = concat cs"
    "unat w = length (concat cs)" "w \<le> cq_max_artifact_bytes (cs_quota s)" by auto
  have d: "sha256_finalize h = sha256_spec (concat cs)" using cs(2) by (simp add: sha.finish_feeds)
  from publish_object_ok [OF t(2) [unfolded d] assms(2) assms(3) [OF cs(1)]] cs d t(3) show ?thesis by auto
next
  case False
  then have "s' \<in> {s, drop_staging io s, leave_staging io s} \<and> (\<exists>e. result = Inl e)"
    using assms(1) by (auto simp: cas_import_def Let_def split: option.splits sum.splits prod.splits if_splits)
  then show ?thesis using keeps_same [OF assms(2)] by auto
qed

lemma lease_names_set: "lease_names (set_leases digest names s) d = (if d = digest then names else lease_names s d)"
proof -
  have "map_of (filter (\<lambda>(d, _). d \<noteq> digest) xs) d = (if d = digest then None else map_of xs d)" for xs :: "(sha256_digest \<times> string list) list"
    by (induction xs) auto
  then show ?thesis by (simp add: lease_names_def set_leases_def)
qed

lemma set_leases_objects [simp]: "cs_objects (set_leases d ns s) = cs_objects s" "cas_contains (set_leases d ns s) e \<longleftrightarrow> cas_contains s e"
  "objects_ok (set_leases d ns s) \<longleftrightarrow> objects_ok s"
  by (simp_all add: set_leases_def cas_contains_def objects_ok_def)

text \<open>Collecting removes only objects without a lease.\<close>

lemma map_of_remove: "map_of (filter (\<lambda>(d, _). d \<noteq> digest) xs) d = (if d = digest then None else map_of xs d)"
  by (induction xs) auto

definition collects :: "content_store \<Rightarrow> content_store \<Rightarrow> bool" where
  "collects s s' \<longleftrightarrow> lease_names s' = lease_names s \<and>
     (\<forall>d. object_at s' d = object_at s d \<or> lease_names s d = [] \<and> object_at s' d = None)"

lemma collects_refl: "collects s s"
  by (simp add: collects_def)

lemma collects_trans: "collects s t \<Longrightarrow> collects t u \<Longrightarrow> collects s u"
  unfolding collects_def by metis

lemma collects_one:
  assumes "lease_names s digest = []"
  shows "collects s (s\<lparr>cs_objects := filter (\<lambda>(d, _). d \<noteq> digest) (cs_objects s), cs_leases := filter (\<lambda>(d, _). d \<noteq> digest) (cs_leases s)\<rparr>)"
proof -
  have "lease_names (s\<lparr>cs_objects := filter (\<lambda>(d, _). d \<noteq> digest) (cs_objects s), cs_leases := filter (\<lambda>(d, _). d \<noteq> digest) (cs_leases s)\<rparr>) d =
      lease_names s d" for d
    using assms by (simp add: lease_names_def map_of_remove)
  then show ?thesis using assms by (simp add: collects_def map_of_remove fun_eq_iff)
qed

lemma no_holders: "lease_holders answer s d = Inr [] \<Longrightarrow> lease_names s d = []"
  by (auto simp: lease_holders_def lease_names_def split: if_splits option.splits dest!: arg_cong [of "sort _" _ length])

lemma gc_objects_collects: "collects s (snd (gc_objects os ds s report))"
proof (induction os ds s report rule: gc_objects.induct)
  case (2 os digest rest s report)
  show ?case
  proof (cases "lease_holders (ga_leases os digest) s digest")
    case (Inr holders)
    show ?thesis
    proof (cases "holders = [] \<and> ga_remove os digest = None")
      case True
      then have "lease_names s digest = []" using Inr no_holders by blast
      then show ?thesis using 2(2) [OF Inr] True Inr collects_one collects_trans by (simp add: Let_def) blast
    next
      case False
      then show ?thesis using 2(1) [OF Inr] Inr by (cases "ga_remove os digest") (auto simp: collects_refl)
    qed
  qed (simp add: collects_refl)
qed (simp add: collects_refl)

lemma gc_staging_collects: "collects s (snd (gc_staging os ns s report))"
proof (induction os ns s report rule: gc_staging.induct)
  case (2 os name rest s report)
  have "collects s (s\<lparr>cs_staging := removeAll name (cs_staging s)\<rparr>)" by (simp add: collects_def lease_names_def fun_eq_iff)
  with 2 show ?case using collects_trans by (auto simp: collects_refl split: option.splits)
qed (simp add: collects_refl)

lemma collect_garbage_collects: "collects s (snd (collect_garbage os s))"
proof -
  have "collects s (snd (gc_staging os (cs_staging t) t report))" if "gc_objects os (list_objects s) s r0 = (x, t)" for x t report r0
    using gc_objects_collects [of s os "list_objects s" r0] gc_staging_collects [of t os "cs_staging t" report] that collects_trans by auto
  moreover have "collects s t" if "gc_objects os (list_objects s) s r0 = (x, t)" for x t r0
    using gc_objects_collects [of s os "list_objects s" r0] that by simp
  ultimately show ?thesis by (auto simp: collect_garbage_def collects_refl split: option.splits sum.splits prod.splits)
qed

section \<open>Lives of a store\<close>

text \<open>
  A store starts empty. It imports from readers, which are numbered sequences of answers, takes and releases leases, seals
  and collects, with any answers of the operating system; \<open>imports\<close>, \<open>leases\<close> and collections come in any order.
\<close>

inductive cas_start :: "content_store \<Rightarrow> bool" where
  empty_store: "cas_start \<lparr>cs_quota = q, cs_objects = [], cs_leases = [], cs_staging = []\<rparr>"

inductive cas_event :: "content_store \<Rightarrow> content_store \<Rightarrow> bool" where
  event_import: "cas_import (\<lambda>k _. (answers k, Suc k)) io s 0 requested expected = Some (result, k, s') \<Longrightarrow>
    (\<And>cs n. delivered (\<lambda>k _. (answers k, Suc k)) 0 cs n \<Longrightarrow> race_ok io (sha256_spec (concat cs))) \<Longrightarrow> cas_event s s'"
| event_seal: "cas_event s (snd (seal_object answer s digest))"
| event_lease: "cas_event s (snd (acquire_lease os s digest holder))"
| event_release: "cas_event s (snd (release_lease answer s digest holder))"
| event_collect: "cas_event s (snd (collect_garbage os s))"

inductive_simps cas_start_iff: "cas_start s"

interpretation cas_lives: transition_system cas_start cas_event .

lemma collects_ok: "collects s s' \<Longrightarrow> objects_ok s \<Longrightarrow> leases_ok s \<Longrightarrow> objects_ok s' \<and> leases_ok s'"
  unfolding collects_def objects_ok_def leases_ok_def cas_contains_def by (metis option.distinct(1))

lemma keeps_ok: "keeps_objects s s' \<Longrightarrow> leases_ok s \<Longrightarrow> objects_ok s' \<and> leases_ok s'"
  using lease_names_cong [of s' s] by (simp add: keeps_objects_def leases_ok_def cas_contains_def)

lemma lease_ok:
  assumes "objects_ok s" and "leases_ok s"
  shows "objects_ok (snd (acquire_lease os s d h)) \<and> leases_ok (snd (acquire_lease os s d h))"
proof -
  have "leases_ok (set_leases d ns s)" if "cas_contains s d" for ns using that assms(2) by (simp add: leases_ok_def lease_names_set)
  then show ?thesis using assms by (auto simp: acquire_lease_def Let_def split: sum.splits option.splits)
qed

lemma release_ok:
  assumes "objects_ok s" and "leases_ok s"
  shows "objects_ok (snd (release_lease a s d h)) \<and> leases_ok (snd (release_lease a s d h))"
proof -
  have "leases_ok (set_leases d (removeAll x (lease_names s d)) s)" for x
    using assms(2) by (cases "lease_names s d") (auto simp: leases_ok_def lease_names_set)
  then show ?thesis using assms by (auto simp: release_lease_def split: sum.splits option.splits)
qed

lemma seal_ok:
  assumes "objects_ok s" and "leases_ok s"
  shows "objects_ok (snd (seal_object a s d)) \<and> leases_ok (snd (seal_object a s d))"
proof (cases "object_at s d")
  case (Some ob)
  then have "objects_ok (put_object d (ob\<lparr>ob_sealed := True\<rparr>) s)" using assms(1) by (intro objects_ok_put) (auto simp: objects_ok_def)
  moreover have "leases_ok (put_object d (ob\<lparr>ob_sealed := True\<rparr>) s)"
    using assms(2) lease_names_cong [of "put_object d (ob\<lparr>ob_sealed := True\<rparr>) s" s] by (simp add: leases_ok_def cas_contains_put)
  ultimately show ?thesis using Some assms by (simp add: seal_object_def split: option.split)
qed (use assms in \<open>simp add: seal_object_def\<close>)

lemma cas_reach_ok: "cas_lives.reach s \<Longrightarrow> objects_ok s \<and> leases_ok s"
proof (erule cas_lives.reach_invariant)
  show "cas_start s \<Longrightarrow> objects_ok s \<and> leases_ok s" for s by (auto simp: cas_start_iff objects_ok_def leases_ok_def lease_names_def)
  fix s s'
  assume inv: "objects_ok s \<and> leases_ok s" and "cas_event s s'"
  from this(2) show "objects_ok s' \<and> leases_ok s'"
  proof cases
    case (event_import answers io requested expected result k)
    then show ?thesis using cas_import_ok [OF event_import(1) conjunct1 [OF inv]] keeps_ok inv by blast
  qed (use inv seal_ok lease_ok release_ok collects_ok collect_garbage_collects in blast)+
qed

lemma concat_cut_up: "concat (cut_up sizes bs) = bs"
  by (induction sizes bs rule: cut_up.induct) simp_all

lemma verify_object_iff: "object_at s d = Some ob \<Longrightarrow> verify_object None sizes s d = Inr (sha256_spec (ob_bytes ob) = d)"
  by (simp add: verify_object_def sha.finish_feeds concat_cut_up)

section \<open>An example import\<close>

definition ex_store :: content_store where
  "ex_store = \<lparr>cs_quota = \<lparr>cq_max_total_bytes = 1, cq_min_free_bytes = 0, cq_max_artifact_bytes = 1024\<rparr>,
     cs_objects = [], cs_leases = [], cs_staging = []\<rparr>"

definition ex_answers :: "nat \<Rightarrow> string + bytes" where
  "ex_answers k = Inr (if k = 0 then [1, 2] else [])"

definition ex_import_io :: import_io where
  "ex_import_io = \<lparr>ii_listed = None, ii_space = Inr 0, ii_name = ''import'', ii_stage = None, ii_write = (\<lambda>_. None), ii_sync = None,
     ii_unlink = True, ii_dir = None, ii_seal = None, ii_race = None, ii_rename = None\<rparr>"

definition ex_imported :: content_store where
  "ex_imported = ex_store\<lparr>cs_objects := [(sha256_spec [1, 2], \<lparr>ob_bytes = [1, 2], ob_sealed = True\<rparr>)]\<rparr>"

lemma ex_import:
  "cas_import (\<lambda>k _. (ex_answers k, Suc k)) ex_import_io ex_store 0 0 None =
     Some (Inr \<lparr>im_digest = sha256_spec [1, 2], im_size_bytes = 2, im_deduplicated = False\<rparr>, 2, ex_imported)"
proof -
  have "cas_preflight None (Inr 0) ex_store 0 = Some (Inr \<lparr>pr_requested_bytes = 0, pr_store_bytes_in_use = 0,
      pr_volume_available_bytes = 0, pr_accepted = True, pr_blocker = None\<rparr>)"
    by (simp add: cas_preflight_def total_bytes_def list_objects_def ex_store_def preflight_blocker_def saturating_add_def checked_add_def)
  moreover have "import_loop (\<lambda>k _. (ex_answers k, Suc k)) (\<lambda>_. None) 1024 0 0 sha256_new 0 [] =
      Some (Inr (sha256_update sha256_new [1, 2], 2, [1, 2]), 2)"
    by (simp add: import_loop.simps ex_answers_def)
  moreover have "publish_object ex_import_io ex_store (sha256_spec [1, 2]) 2 [1, 2] =
      (Inr \<lparr>im_digest = sha256_spec [1, 2], im_size_bytes = 2, im_deduplicated = False\<rparr>, ex_imported)"
    by (simp add: publish_object_def cas_contains_def ex_store_def ex_imported_def ex_import_io_def put_object_def)
  ultimately show ?thesis by (simp add: cas_import_def ex_import_io_def ex_store_def sha.finish_one)
qed

lemma ex_store_reach: "cas_lives.reach ex_store" "cas_lives.reach ex_imported"
proof -
  show s: "cas_lives.reach ex_store" unfolding ex_store_def by (intro cas_lives.reach_init empty_store)
  have "cas_event ex_store ex_imported"
    by (rule event_import [OF ex_import]) (simp add: race_ok_def ex_import_io_def)
  with s show "cas_lives.reach ex_imported" by (rule cas_lives.reach_step)
qed

section \<open>Properties\<close>

text \<open>
  C12. Leased content stays and is what its address says. In every state of every life of the store, through imports that
  fail at any call, races, releases and collections, each object passes its verification, each lease names an object
  that is there, and no collection, however it ends, changes or removes an object that has a lease.
\<close>

theorem leased_content_stays:
  assumes "cas_lives.reach s"
  shows "(object_at s d = Some ob \<longrightarrow> sha256_spec (ob_bytes ob) = d \<and> verify_object None sizes s d = Inr True) \<and>
    (lease_names s e \<noteq> [] \<longrightarrow> (\<exists>ob. object_at s e = Some ob \<and> object_at (snd (collect_garbage os s)) e = Some ob))"
proof -
  from cas_reach_ok [OF assms] have o: "objects_ok s" and l: "leases_ok s" by simp_all
  have "\<exists>ob. object_at s e = Some ob \<and> object_at (snd (collect_garbage os s)) e = Some ob" if n: "lease_names s e \<noteq> []"
  proof -
    obtain ob where "object_at s e = Some ob" using l n by (auto simp: leases_ok_def cas_contains_def)
    moreover have "object_at (snd (collect_garbage os s)) e = object_at s e"
      using collect_garbage_collects [of s os] n unfolding collects_def by metis
    ultimately show ?thesis by simp
  qed
  then show ?thesis using o verify_object_iff [of s d ob sizes] by (simp add: objects_ok_def)
qed

theorem leased_content_stays_witness:
  "let s = snd (acquire_lease \<lparr>la_dir = None, la_create = None, la_write = None\<rparr> ex_imported (sha256_spec [1, 2]) ''job'');
       g = \<lparr>ga_listed = None, ga_leases = (\<lambda>_. None), ga_remove = (\<lambda>_. None), ga_age = (\<lambda>_. 0), ga_staging = (\<lambda>_. None)\<rparr> in
   lease_names s (sha256_spec [1, 2]) = [''job''] \<and>
   (\<exists>ob. object_at s (sha256_spec [1, 2]) = Some ob \<and> object_at (snd (collect_garbage g s)) (sha256_spec [1, 2]) = Some ob)"
proof -
  let ?s = "snd (acquire_lease \<lparr>la_dir = None, la_create = None, la_write = None\<rparr> ex_imported (sha256_spec [1, 2]) ''job'')"
  have "sanitize_holder ''job'' = Inr ''job''" by code_simp
  then have l: "lease_names ?s (sha256_spec [1, 2]) = [''job'']"
    by (simp add: acquire_lease_def cas_contains_def ex_imported_def ex_store_def lease_names_set) (simp add: lease_names_def)
  have "cas_lives.reach ?s" by (rule cas_lives.reach_step [OF ex_store_reach(2) event_lease])
  from leased_content_stays [OF this, of _ _ _ "sha256_spec [1, 2]"] l show ?thesis by (simp add: Let_def)
qed

text \<open>
  C13. A successful import stores what was sent. It read the sender's content to its end, reports the digest and the length of
  exactly that content, within the limit for one artifact and equal to the expected digest where one was given; the
  object under that digest is there and hashes to it, and no object that was there before has changed.
\<close>

theorem import_stores_what_was_sent:
  assumes "cas_lives.reach s" and "ii_race io = None"
    and "cas_import (\<lambda>k _. (answers k, Suc k)) io s 0 requested expected = Some (Inr im, n, s')"
  shows "(\<exists>cs ob. delivered (\<lambda>k _. (answers k, Suc k)) 0 cs n \<and> im_digest im = sha256_spec (concat cs) \<and>
      unat (im_size_bytes im) = length (concat cs) \<and> im_size_bytes im \<le> cq_max_artifact_bytes (cs_quota s) \<and>
      (expected = None \<or> expected = Some (im_digest im)) \<and>
      object_at s' (im_digest im) = Some ob \<and> sha256_spec (ob_bytes ob) = im_digest im) \<and>
    (\<forall>d ob. object_at s d = Some ob \<longrightarrow> object_at s' d = Some ob)"
proof -
  have "race_ok io d" for d using assms(2) by (simp add: race_ok_def)
  from cas_import_ok [OF assms(3) conjunct1 [OF cas_reach_ok [OF assms(1)]] this]
  have k: "keeps_objects s s'" and i: "\<exists>cs. delivered (\<lambda>k _. (answers k, Suc k)) 0 cs n \<and> im_digest im = sha256_spec (concat cs) \<and>
      unat (im_size_bytes im) = length (concat cs) \<and> im_size_bytes im \<le> cq_max_artifact_bytes (cs_quota s) \<and>
      (expected \<noteq> None \<longrightarrow> expected = Some (im_digest im)) \<and> cas_contains s' (im_digest im)" by simp_all
  have "\<forall>d ob. object_at s d = Some ob \<longrightarrow> object_at s' d = Some ob" using k by (simp add: keeps_objects_def cas_contains_def)
  moreover have "object_at s' d = Some ob \<longrightarrow> sha256_spec (ob_bytes ob) = d" for d ob using k by (simp add: keeps_objects_def objects_ok_def)
  moreover obtain cs ob where "delivered (\<lambda>k _. (answers k, Suc k)) 0 cs n" "im_digest im = sha256_spec (concat cs)"
    "unat (im_size_bytes im) = length (concat cs)" "im_size_bytes im \<le> cq_max_artifact_bytes (cs_quota s)"
    "expected = None \<or> expected = Some (im_digest im)" "object_at s' (im_digest im) = Some ob"
    using i unfolding cas_contains_def by (elim exE conjE) (cases "object_at s' (im_digest im)", auto)
  ultimately show ?thesis by blast
qed

theorem import_stores_what_was_sent_witness:
  "\<exists>cs ob. delivered (\<lambda>k _. (ex_answers k, Suc k)) 0 cs 2 \<and> sha256_spec [1, 2] = sha256_spec (concat cs) \<and>
     object_at ex_imported (sha256_spec [1, 2]) = Some ob \<and> sha256_spec (ob_bytes ob) = sha256_spec [1, 2]"
proof -
  have "ii_race ex_import_io = None" by (simp add: ex_import_io_def)
  from import_stores_what_was_sent [OF ex_store_reach(1) this ex_import] show ?thesis by auto
qed

text \<open>
  C39. The ceiling on the bytes of the store does not hold when a sender understates its artifact. Quota and free space are
  checked for the declared size only, and the bytes that arrive are checked against the limit for one artifact only: an import that
  declares no bytes and sends two succeeds in a store that may hold one.
\<close>

theorem understated_import_exceeds_ceiling:
  "\<exists>s answers io im n s' total. cas_lives.reach s \<and>
     cas_import (\<lambda>k _. (answers k, Suc k)) io s 0 0 None = Some (Inr im, n, s') \<and>
     total_bytes s' = Some total \<and> cq_max_total_bytes (cs_quota s') < total"
proof -
  have "total_bytes ex_imported = Some 2"
    by (simp add: total_bytes_def list_objects_def ex_imported_def ex_store_def checked_add_def)
  moreover have "cq_max_total_bytes (cs_quota ex_imported) < 2" by (simp add: ex_imported_def ex_store_def)
  ultimately show ?thesis using ex_store_reach(1) ex_import by blast
qed

end
