(* ===== verification/Connection.thy ===== *)
theory Connection
  imports Ipc Cas Plan_Store
begin

text \<open>
  \<open>arkforged/src/main.rs\<close> (\<open>handle_connection\<close>, \<open>ContentStream\<close>) and \<open>service/parts/requests.rs\<close> (\<open>handle\<close>, \<open>import_artifact\<close>):
  one connection to the daemon, from the handshake to its end. The handlers of the calls other than \<open>importArtifact\<close> are an
  argument, and so are the texts of errors and what other connections do to the service before this one takes its
  lock. A panic under the lock is \<open>None\<close>.
\<close>

section \<open>The content stream\<close>

record content_stream =
  ct_source :: byte_source
  ct_buffer :: bytes
  ct_position :: nat
  ct_finished :: bool

definition content_stream_new :: "byte_source \<Rightarrow> content_stream" where
  "content_stream_new s = \<lparr>ct_source = s, ct_buffer = [], ct_position = 0, ct_finished = False\<rparr>"

text \<open>The end of \<open>read\<close>: the bytes that the buffer still has, as many as fit.\<close>

definition take_buffered :: "content_stream \<Rightarrow> nat \<Rightarrow> (string + bytes) \<times> content_stream" where
  "take_buffered c want =
     (let count = min (length (ct_buffer c) - ct_position c) want in
      (Inr (take count (drop (ct_position c) (ct_buffer c))), c\<lparr>ct_position := ct_position c + count\<rparr>))"

text \<open>The loop of \<open>read\<close> runs at most once: a frame that is not empty ends it.\<close>

definition content_read :: "(frame_error \<Rightarrow> string) \<Rightarrow> content_stream \<Rightarrow> nat \<Rightarrow> (string + bytes) \<times> content_stream" where
  "content_read text c want =
     (if ct_position c = length (ct_buffer c) then
        if ct_finished c then (Inr [], c)
        else case read_frame (ct_source c) of
          (Inr (Some frame), s) \<Rightarrow>
            if frame = [] then (Inr [], c\<lparr>ct_source := s, ct_finished := True\<rparr>)
            else take_buffered (c\<lparr>ct_source := s, ct_buffer := frame, ct_position := 0\<rparr>) want
        | (Inr None, s) \<Rightarrow> (Inr [], c\<lparr>ct_source := s, ct_finished := True\<rparr>)
        | (Inl e, s) \<Rightarrow> (Inl (text e), c\<lparr>ct_source := s\<rparr>)
      else take_buffered c want)"

section \<open>The service\<close>

record 'v service =
  sv_store :: content_store
  sv_readiness :: execution_readiness
  sv_rest :: 'v

record 'v daemon =
  dm_version :: string
  dm_frame_text :: "frame_error \<Rightarrow> string"
  dm_wire_text :: "wire_error \<Rightarrow> string"
  dm_digest_text :: "digest_parse_error \<Rightarrow> string"
  dm_cas_text :: "cas_error \<Rightarrow> string"
  dm_handlers :: "session_kind \<Rightarrow> request \<Rightarrow> 'v service \<Rightarrow> (response \<times> 'v service) option"

fun session_debug :: "session_kind \<Rightarrow> string" where
  "session_debug Public = ''Public''"
| "session_debug Controller = ''Controller''"

definition refuse_request :: "request \<Rightarrow> status \<Rightarrow> string \<Rightarrow> string \<Rightarrow> response" where
  "refuse_request req st code message =
     \<lparr>resp_request_id = req_request_id req, resp_api = req_api req, resp_status = st,
       resp_payload = error_body_encode \<lparr>eb_code = code, eb_message = message\<rparr>,
       resp_stream_sequence = 0, resp_stream_end = True\<rparr>"

definition ok_response :: "request \<Rightarrow> bytes \<Rightarrow> response" where
  "ok_response req payload =
     \<lparr>resp_request_id = req_request_id req, resp_api = req_api req, resp_status = StatusOk,
       resp_payload = payload, resp_stream_sequence = 0, resp_stream_end = True\<rparr>"

definition decode_import_request :: "bytes \<Rightarrow> wire_error + u64 \<times> string option" where
  "decode_import_request payload =
     fold_fields (\<lambda>field v (expected_size, expected_sha256).
         if field = 1 then rbind (field_as_u64 v) (\<lambda>n. Inr (n, expected_sha256))
         else if field = 2 then rbind (field_as_str v 2) (\<lambda>s. Inr (expected_size, Some s))
         else Inr (expected_size, expected_sha256)) (reader_new payload) (0, None)"

definition import_artifact ::
  "'v daemon \<Rightarrow> import_io \<Rightarrow> 'v service \<Rightarrow> request \<Rightarrow> content_stream option \<Rightarrow> (response \<times> 'v service \<times> content_stream option) option" where
  "import_artifact d io sv req content =
     (case content of
        None \<Rightarrow> Some (refuse_request req StatusInvalidArgument ''NO_CONTENT_STREAM''
          ''importArtifact carries its content on the controller stream'', sv, content)
      | Some stream \<Rightarrow>
          (case decode_import_request (req_payload req) of
             Inl e \<Rightarrow> Some (refuse_request req StatusInvalidArgument ''MALFORMED_REQUEST'' (dm_wire_text d e), sv, content)
           | Inr (expected_size, expected_sha256) \<Rightarrow>
               (case (case expected_sha256 of None \<Rightarrow> Inr None | Some hex \<Rightarrow> rbind (parse_hex hex) (\<lambda>x. Inr (Some x))) of
                  Inl e \<Rightarrow> Some (refuse_request req StatusInvalidArgument ''MALFORMED_DIGEST'' (dm_digest_text d e), sv, content)
                | Inr expected_digest \<Rightarrow>
                    (case cas_import (content_read (dm_frame_text d)) io (sv_store sv) stream expected_size expected_digest of
                       None \<Rightarrow> None
                     | Some (Inr imported, stream, store) \<Rightarrow>
                         Some (ok_response req
                           (write_string 1 (to_hex (im_digest imported)) @
                            write_string 2 (to_hex (im_digest imported)) @
                            write_uint64 3 (im_size_bytes imported) @
                            write_bool 4 (im_deduplicated imported)), sv\<lparr>sv_store := store\<rparr>, Some stream)
                     | Some (Inl e, stream, store) \<Rightarrow>
                         Some (refuse_request req StatusRefused ''IMPORT_REFUSED'' (dm_cas_text d e), sv\<lparr>sv_store := store\<rparr>, Some stream)))))"

definition service_handle ::
  "'v daemon \<Rightarrow> import_io \<Rightarrow> session_kind \<Rightarrow> request \<Rightarrow> content_stream option \<Rightarrow> 'v service \<Rightarrow>
     (response \<times> 'v service \<times> content_stream option) option" where
  "service_handle d io session req content sv =
     (if \<not> may_call session (req_api req) then
        Some (refuse_request req StatusRefused ''SESSION_NOT_PERMITTED''
          (api_as_str (req_api req) @ '' is not available on the '' @ session_debug session @ '' socket''), sv, content)
      else if req_api req = ImportArtifact then import_artifact d io sv req content
      else case dm_handlers d session req sv of
        None \<Rightarrow> None
      | Some (resp, sv) \<Rightarrow> Some (resp, sv, content))"

section \<open>Reading never lengthens what is to come\<close>

lemma source_read_shrinks: "source_read s want = (r, s') \<Longrightarrow>
    length (src_bytes s) = length (src_bytes s') + (case r of Inr bs \<Rightarrow> length bs | Inl _ \<Rightarrow> 0)"
  by (auto simp: source_read_def Let_def split: list.splits read_answer.splits)

lemma read_fill_shrinks: "read_fill s want filled = (r, s') \<Longrightarrow>
    length (src_bytes s') \<le> length (src_bytes s) \<and>
    (\<forall>bs. r = Inr bs \<longrightarrow> length bs + length (src_bytes s') = length filled + length (src_bytes s))"
proof (induction s want filled rule: read_fill.induct)
  case (1 s want filled)
  show ?case
  proof (cases "want \<le> length filled")
    case True
    then show ?thesis using 1(2) by (auto simp: read_fill.simps [of s])
  next
    case False
    obtain a s1 where a: "source_read s (want - length filled) = (a, s1)" by (cases "source_read s (want - length filled)")
    note l = source_read_shrinks [OF a]
    show ?thesis
    proof (cases "\<exists>bs. a = Inr bs \<and> bs \<noteq> []")
      case True
      then obtain bs where b: "a = Inr bs" "bs \<noteq> []" by blast
      have "read_fill s1 want (filled @ bs) = (r, s')" using 1(2) False a b by (simp add: read_fill.simps [of s])
      from 1(1) [OF False a [symmetric] b this] show ?thesis using l b by auto
    next
      case stop: False
      then show ?thesis using 1(2) False a l by (cases a) (auto simp: read_fill.simps [of s])
    qed
  qed
qed

lemma read_frame_shrinks:
  assumes "read_frame s = (r, s')"
  shows "length (src_bytes s') \<le> length (src_bytes s) \<and> (\<forall>b. r = Inr (Some b) \<longrightarrow> length (src_bytes s') < length (src_bytes s))"
proof -
  obtain a s1 where a: "read_fill s 4 [] = (a, s1)" by (cases "read_fill s 4 []")
  note l = read_fill_shrinks [OF a]
  show ?thesis
  proof (cases "\<exists>h. a = Inr h \<and> 4 \<le> length h \<and> unat (from_be_bytes h :: u32) \<le> WIRE_MAX_FRAME_BYTES")
    case True
    then obtain h where h: "a = Inr h" "4 \<le> length h" "unat (from_be_bytes h :: u32) \<le> WIRE_MAX_FRAME_BYTES" by blast
    obtain b s2 where b: "read_fill s1 (unat (from_be_bytes h :: u32)) [] = (b, s2)"
      by (cases "read_fill s1 (unat (from_be_bytes h :: u32)) []")
    have "s' = s2" using assms a h b by (auto simp: read_frame_def Let_def split: sum.splits if_splits)
    then show ?thesis using l h read_fill_shrinks [OF b] by auto
  next
    case False
    then show ?thesis using assms a l
      by (cases a) (auto simp: read_frame_def Let_def split: if_splits)
  qed
qed

lemma import_loop_shrinks:
  fixes left :: "'r \<Rightarrow> nat"
  assumes "import_loop rd wr limit k source hasher written staged = Some (r, source')"
    and "\<And>c n r c'. rd c n = (r, c') \<Longrightarrow> left c' \<le> left c"
  shows "left source' \<le> left source"
  using assms
proof (induction rd wr limit k source hasher written staged rule: import_loop.induct)
  case (1 rd wr limit k source hasher written staged)
  obtain a s1 where a: "rd source IMPORT_BUFFER = (a, s1)" by (cases "rd source IMPORT_BUFFER")
  then have l: "left s1 \<le> left source" by (rule 1(3))
  show ?case
  proof (cases "\<exists>bs. a = Inr bs \<and> bs \<noteq> [] \<and> \<not> 2 ^ 64 \<le> unat written + length bs \<and> \<not> limit < written + of_nat (length bs) \<and> wr k = None")
    case True
    then obtain bs where b: "a = Inr bs" "bs \<noteq> []" "\<not> 2 ^ 64 \<le> unat written + length bs" "\<not> limit < written + of_nat (length bs)"
      "wr k = None" by blast
    have "import_loop rd wr limit (Suc k) s1 (sha256_update hasher bs) (written + of_nat (length bs)) (staged @ bs) = Some (r, source')"
      using 1(2) a b by (simp add: import_loop.simps [of _ _ _ _ source] Let_def)
    then have "left source' \<le> left s1" by (rule 1(1) [OF a [symmetric] b(1-3) refl b(4,5)]) (rule 1(3))
    with l show ?thesis by simp
  next
    case False
    then show ?thesis using 1(2) a l
      by (cases a) (auto simp: import_loop.simps [of _ _ _ _ source] Let_def split: if_splits option.splits)
  qed
qed

text \<open>The contract between an import and the stream it reads: what is left does not grow.\<close>

locale shrinking_reader =
  fixes rd :: "'r \<Rightarrow> nat \<Rightarrow> (string + bytes) \<times> 'r"
    and left :: "'r \<Rightarrow> nat"
  assumes shrinks: "rd c n = (r, c') \<Longrightarrow> left c' \<le> left c"
begin

lemma import_left: "cas_import rd io s source n expected = Some (r, source', s') \<Longrightarrow> left source' \<le> left source"
  unfolding cas_import_def
  by (auto simp: Let_def split: option.splits sum.splits if_splits prod.splits dest!: import_loop_shrinks [where left = left, OF _ shrinks])

end

definition content_left :: "content_stream \<Rightarrow> nat" where
  "content_left c = length (src_bytes (ct_source c))"

interpretation content: shrinking_reader "content_read text" content_left
proof
  fix c c' :: content_stream and n r
  obtain a s where a: "read_frame (ct_source c) = (a, s)" by (cases "read_frame (ct_source c)")
  assume "content_read text c n = (r, c')"
  then show "content_left c' \<le> content_left c"
    using read_frame_shrinks [OF a] a
    by (auto simp: content_read_def take_buffered_def content_left_def Let_def split: if_splits sum.splits option.splits)
qed

lemma handle_left:
  assumes "service_handle d io session req content sv = Some (resp, sv', content')"
  shows "rel_option (\<lambda>c c'. content_left c' \<le> content_left c) content content'"
proof -
  have "content_left c \<le> content_left c" for c by simp
  then have same: "rel_option (\<lambda>c c'. content_left c' \<le> content_left c) x x" for x by (cases x) simp_all
  show ?thesis
    using assms
    by (auto simp: service_handle_def import_artifact_def same content.import_left split: if_splits option.splits sum.splits prod.splits)
qed

section \<open>The connection\<close>

record 'v connection_answers =
  ca_clone :: "string option"
  ca_write :: "nat \<Rightarrow> string option"
  ca_import :: "nat \<Rightarrow> import_io"
  ca_others :: "nat \<Rightarrow> 'v service \<Rightarrow> 'v service"

definition malformed_response :: "string \<Rightarrow> response" where
  "malformed_response message =
     \<lparr>resp_request_id = [], resp_api = InspectArtifact, resp_status = StatusInvalidArgument,
       resp_payload = error_body_encode \<lparr>eb_code = ''MALFORMED_REQUEST'', eb_message = message\<rparr>,
       resp_stream_sequence = 0, resp_stream_end = True\<rparr>"

text \<open>
  The loop over the requests. \<open>n\<close> counts the frames written. A content stream is opened over the connection for an import on
  the controller socket; what it has not read stays in the connection, what it has buffered is dropped with it.
\<close>

function serve_requests ::
  "'v daemon \<Rightarrow> 'v connection_answers \<Rightarrow> session_kind \<Rightarrow> nat \<Rightarrow> byte_source \<Rightarrow> 'v service \<Rightarrow> bytes list \<Rightarrow>
     ((string + unit) \<times> bytes list \<times> 'v service) option" where
  "serve_requests d os kind n s sv out =
     (case read_frame s of
        (Inl e, s) \<Rightarrow> Some (Inl (dm_frame_text d e), out, sv)
      | (Inr None, s) \<Rightarrow> Some (Inr (), out, sv)
      | (Inr (Some frame), s) \<Rightarrow>
          (case request_decode frame of
             Inl e \<Rightarrow>
               (case write_frame (ca_write os n) (response_encode (malformed_response (dm_wire_text d e))) of
                  Inl e \<Rightarrow> Some (Inl (dm_frame_text d e), out, sv)
                | Inr bs \<Rightarrow> Some (Inr (), out @ [bs], sv))
           | Inr req \<Rightarrow>
               let content = (if req_api req = ImportArtifact \<and> kind = Controller then Some (content_stream_new s) else None) in
               (case service_handle d (ca_import os n) kind req content (ca_others os n sv) of
                  None \<Rightarrow> None
                | Some (resp, sv, content) \<Rightarrow>
                    (case write_frame (ca_write os n) (response_encode resp) of
                       Inl e \<Rightarrow> Some (Inl (dm_frame_text d e), out, sv)
                     | Inr bs \<Rightarrow>
                         serve_requests d os kind (Suc n) (case content of Some c \<Rightarrow> ct_source c | None \<Rightarrow> s) sv (out @ [bs])))))"
  by pat_completeness auto
termination serve_requests
proof (relation "measure (\<lambda>(d, os, kind, n, s, sv, out). length (src_bytes s))", goal_cases)
  case 1
  show ?case by simp
next
  case (2 d os kind n s sv out a s1 f frame req content h resp rest sv' content' bs)
  have "length (src_bytes s1) < length (src_bytes s)" using read_frame_shrinks [of s "Inr (Some frame)" s1] 2 by simp
  moreover have "length (src_bytes (case content' of Some c \<Rightarrow> ct_source c | None \<Rightarrow> s1)) \<le> length (src_bytes s1)"
    using handle_left [of d "ca_import os n" kind req content "ca_others os n sv" resp sv' content'] 2
    by (auto simp: content_left_def content_stream_new_def split: option.splits if_splits)
  ultimately show ?case by simp
qed

declare serve_requests.simps [simp del]

definition connection_refusal :: "session_kind \<Rightarrow> hello \<Rightarrow> string option" where
  "connection_refusal kind h =
     (case handshake_refusal (hel_protocol_major h) (hel_protocol_minor h) of
        None \<Rightarrow>
          if hel_session_kind h = kind then None
          else Some (''this socket serves '' @ session_debug kind @ '' sessions, peer announced '' @ session_debug (hel_session_kind h))
      | Some message \<Rightarrow> Some message)"

definition connection_ack :: "string \<Rightarrow> session_kind \<Rightarrow> string option \<Rightarrow> execution_readiness \<Rightarrow> hello_ack" where
  "connection_ack version kind refusal readiness =
     \<lparr>ack_protocol_major = PROTOCOL_MAJOR, ack_protocol_minor = PROTOCOL_MINOR, ack_session_kind = kind,
       ack_daemon_version = version, ack_refusal = refusal, ack_execution_ready = is_ready readiness,
       ack_execution_blockers = map blocker_code (standing_blockers readiness),
       ack_toolchain_id = (case xr_dispatcher readiness of Some tool \<Rightarrow> as_str (bt_id tool) | None \<Rightarrow> []),
       ack_toolchain_sha256 = (case xr_dispatcher readiness of Some tool \<Rightarrow> to_hex (bt_backend_digest tool) | None \<Rightarrow> [])\<rparr>"

definition handle_connection ::
  "'v daemon \<Rightarrow> 'v connection_answers \<Rightarrow> session_kind \<Rightarrow> byte_source \<Rightarrow> 'v service \<Rightarrow>
     ((string + unit) \<times> bytes list \<times> 'v service) option" where
  "handle_connection d os kind s sv =
     (case ca_clone os of
        Some message \<Rightarrow> Some (Inl message, [], sv)
      | None \<Rightarrow>
          (case read_frame s of
             (Inl e, s) \<Rightarrow> Some (Inl (dm_frame_text d e), [], sv)
           | (Inr None, s) \<Rightarrow> Some (Inr (), [], sv)
           | (Inr (Some frame), s) \<Rightarrow>
               (case hello_decode frame of
                  Inl e \<Rightarrow> Some (Inl (dm_wire_text d e), [], sv)
                | Inr h \<Rightarrow>
                    let refusal = connection_refusal kind h;
                        sv = ca_others os 0 sv;
                        ack = connection_ack (dm_version d) kind refusal (sv_readiness sv) in
                    (case write_frame (ca_write os 0) (hello_ack_encode ack) of
                       Inl e \<Rightarrow> Some (Inl (dm_frame_text d e), [], sv)
                     | Inr bs \<Rightarrow>
                         if refusal \<noteq> None then Some (Inr (), [bs], sv)
                         else serve_requests d os kind 1 s sv [bs]))))"

section \<open>Lemmas: what a connection changes\<close>

lemma public_may_not_import: "may_call Public a \<Longrightarrow> a \<noteq> ImportArtifact"
  by (auto simp: may_call_def)

lemma public_handle_keeps:
  assumes "service_handle d io Public req content sv = Some (resp, sv', content')" and "Q sv"
    and "\<And>req sv resp sv'. may_call Public (req_api req) \<Longrightarrow> Q sv \<Longrightarrow> dm_handlers d Public req sv = Some (resp, sv') \<Longrightarrow> Q sv'"
  shows "Q sv'"
proof (cases "may_call Public (req_api req)")
  case True
  then have "dm_handlers d Public req sv = Some (resp, sv')"
    using assms(1) public_may_not_import [OF True] by (auto simp: service_handle_def split: option.splits)
  then show ?thesis by (rule assms(3) [OF True assms(2)])
next
  case False
  then show ?thesis using assms(1,2) by (simp add: service_handle_def)
qed

text \<open>One turn of the loop: it ends without a call, ends with one, or goes on after one with fewer bytes to come.\<close>

lemma serve_requests_turn:
  assumes "serve_requests d os kind n s sv out = Some (r, out', sv')"
  obtains (idle) "sv' = sv"
  | (last) req content resp content' where
      "service_handle d (ca_import os n) kind req content (ca_others os n sv) = Some (resp, sv', content')"
  | (more) req content resp sv1 content' s1 out1 where
      "service_handle d (ca_import os n) kind req content (ca_others os n sv) = Some (resp, sv1, content')"
      "serve_requests d os kind (Suc n) s1 sv1 out1 = Some (r, out', sv')" "length (src_bytes s1) < length (src_bytes s)"
proof -
  obtain a s1 where a: "read_frame s = (a, s1)" by (cases "read_frame s")
  show thesis
  proof (cases "\<exists>frame req. a = Inr (Some frame) \<and> request_decode frame = Inr req")
    case False
    then have "sv' = sv" using assms a
      by (cases a) (auto simp: serve_requests.simps [of _ _ _ _ s] split: option.splits sum.splits)
    then show thesis by (rule idle)
  next
    case True
    then obtain frame req where f: "a = Inr (Some frame)" "request_decode frame = Inr req" by blast
    define content where "content = (if req_api req = ImportArtifact \<and> kind = Controller then Some (content_stream_new s1) else None)"
    obtain resp sv1 content' where h: "service_handle d (ca_import os n) kind req content (ca_others os n sv) = Some (resp, sv1, content')"
      using assms a f by (auto simp: serve_requests.simps [of _ _ _ _ s] content_def Let_def split: option.splits)
    show thesis
    proof (cases "write_frame (ca_write os n) (response_encode resp)")
      case (Inl e)
      then have "sv' = sv1" using assms a f h by (simp add: serve_requests.simps [of _ _ _ _ s] content_def)
      then show thesis using h by (intro last) simp
    next
      case (Inr bs)
      let ?s = "case content' of Some c \<Rightarrow> ct_source c | None \<Rightarrow> s1"
      have "serve_requests d os kind (Suc n) ?s sv1 (out @ [bs]) = Some (r, out', sv')"
        using assms a f h Inr by (simp add: serve_requests.simps [of _ _ _ _ s] content_def)
      moreover have "length (src_bytes ?s) \<le> length (src_bytes s1)"
        using handle_left [OF h] by (auto simp: content_def content_left_def content_stream_new_def split: option.splits if_splits)
      ultimately show thesis using more [OF h] read_frame_shrinks [OF a] f(1) by force
    qed
  qed
qed

lemma public_requests_keep:
  assumes "serve_requests d os Public n s sv out = Some (r, out', sv')" and "Q sv"
    and others: "\<And>n sv. Q sv \<Longrightarrow> Q (ca_others os n sv)"
    and calls: "\<And>req sv resp sv'. may_call Public (req_api req) \<Longrightarrow> Q sv \<Longrightarrow> dm_handlers d Public req sv = Some (resp, sv') \<Longrightarrow> Q sv'"
  shows "Q sv'"
  using assms(1,2)
proof (induction "length (src_bytes s)" arbitrary: n s sv out rule: less_induct)
  case less
  note q = others [OF less(3), of n]
  from less(2) show ?case
  proof (cases rule: serve_requests_turn)
    case idle
    with less(3) show ?thesis by simp
  next
    case last
    then show ?thesis by (rule public_handle_keeps) (use q calls in blast)+
  next
    case (more req content resp sv1 content' s1 out1)
    have "Q sv1" by (rule public_handle_keeps [OF more(1)]) (use q calls in blast)+
    with more(2,3) show ?thesis by (intro less(1))
  qed
qed

section \<open>Lemmas: a peer that sends without delay\<close>

lemma read_fill_plain:
  "want \<le> length bs \<Longrightarrow> read_fill \<lparr>src_bytes = bs, src_answers = []\<rparr> want [] = (Inr (take want bs), \<lparr>src_bytes = drop want bs, src_answers = []\<rparr>)"
  by (cases "want = 0") (simp_all add: read_fill.simps [of _ 0] read_fill.simps [of _ want] source_read_def)

lemma read_frame_plain:
  assumes "length body \<le> WIRE_MAX_FRAME_BYTES"
  shows "read_frame \<lparr>src_bytes = frame_bytes_of body @ rest, src_answers = []\<rparr> = (Inr (Some body), \<lparr>src_bytes = rest, src_answers = []\<rparr>)"
  using frame_header [OF assms] assms by (simp add: read_frame_def read_fill_plain frame_bytes_of_def Let_def)

lemma serve_plain_call:
  assumes "request_ok q" "length (request_encode q) \<le> WIRE_MAX_FRAME_BYTES"
    and "content = (if req_api q = ImportArtifact \<and> kind = Controller then Some (content_stream_new \<lparr>src_bytes = rest, src_answers = []\<rparr>) else None)"
    and "service_handle d (ca_import os n) kind q content (ca_others os n sv) = Some (resp, sv', content)"
    and "write_frame (ca_write os n) (response_encode resp) = Inr bs"
  shows "serve_requests d os kind n \<lparr>src_bytes = frame_bytes_of (request_encode q) @ rest, src_answers = []\<rparr> sv out =
    serve_requests d os kind (Suc n) \<lparr>src_bytes = rest, src_answers = []\<rparr> sv' (out @ [bs])"
proof -
  have "request_decode (request_encode q) = Inr q"
    using assms(1,2) by (simp add: request_round_trip WIRE_MAX_FRAME_BYTES_def)
  then show ?thesis using assms(3-5)
    by (simp add: serve_requests.simps [of _ _ _ n] read_frame_plain [OF assms(2)] content_stream_new_def split: if_splits)
qed

definition ex_daemon :: "api list daemon" where
  "ex_daemon = \<lparr>dm_version = ''1'', dm_frame_text = (\<lambda>_. ''f''), dm_wire_text = (\<lambda>_. ''w''), dm_digest_text = (\<lambda>_. ''d''),
     dm_cas_text = (\<lambda>_. ''c''), dm_handlers = (\<lambda>kind req sv. Some (ok_response req [], sv\<lparr>sv_rest := sv_rest sv @ [req_api req]\<rparr>))\<rparr>"

definition ex_quiet :: "api list connection_answers" where
  "ex_quiet = \<lparr>ca_clone = None, ca_write = (\<lambda>_. None), ca_import = (\<lambda>_. ex_import_io), ca_others = (\<lambda>_ sv. sv)\<rparr>"

definition ex_service :: "api list service" where
  "ex_service = \<lparr>sv_store = ex_store, sv_readiness = \<lparr>xr_authority_paired = True, xr_dispatcher = None\<rparr>, sv_rest = []\<rparr>"

definition ex_hello :: "session_kind \<Rightarrow> hello" where
  "ex_hello kind = \<lparr>hel_protocol_major = 1, hel_protocol_minor = 0, hel_session_kind = kind\<rparr>"

definition ex_import_request :: request where
  "ex_import_request = \<lparr>req_request_id = ''i'', req_api = ImportArtifact, req_payload = write_uint64 1 2000\<rparr>"

definition ex_peer :: "bytes list \<Rightarrow> byte_source" where
  "ex_peer bodies = \<lparr>src_bytes = concat (map frame_bytes_of bodies), src_answers = []\<rparr>"

lemmas ex_sizes = write_string_def write_enum_def write_bytes_def write_bool_def write_uint32_def write_uint64_def write_tag_def write_varint.simps
  str_bytes_def WIRE_MAX_FRAME_BYTES_def request_encode_def response_encode_def error_body_encode_def hello_encode_def hello_ack_encode_def
  refuse_request_def ok_response_def malformed_response_def

lemma ex_selectors:
  "dm_version ex_daemon = ''1''" "dm_cas_text ex_daemon e = ''c''" "dm_wire_text ex_daemon w = ''w''"
  "dm_handlers ex_daemon kind req sv = Some (ok_response req [], sv\<lparr>sv_rest := sv_rest sv @ [req_api req]\<rparr>)"
  "ca_clone ex_quiet = None" "ca_write ex_quiet n = None" "ca_import ex_quiet n = ex_import_io" "ca_others ex_quiet n sv = sv"
  by (simp_all add: ex_daemon_def ex_quiet_def)

lemma ex_request_small: "length (request_encode ex_request) \<le> WIRE_MAX_FRAME_BYTES" "request_ok ex_request"
  by (simp add: ex_sizes ex_request_def) code_simp

lemma ex_import_small: "length (request_encode ex_import_request) \<le> WIRE_MAX_FRAME_BYTES" "request_ok ex_import_request"
  by (simp add: ex_sizes ex_import_request_def) code_simp

lemma ex_accepted:
  "\<exists>bs. handle_connection ex_daemon ex_quiet kind (ex_peer (hello_encode (ex_hello kind) # bodies)) ex_service =
     serve_requests ex_daemon ex_quiet kind 1 (ex_peer bodies) ex_service [bs]"
proof -
  have l: "length (hello_encode (ex_hello kind)) \<le> WIRE_MAX_FRAME_BYTES"
    by (cases kind) (simp_all add: ex_sizes ex_hello_def)
  then have "hello_decode (hello_encode (ex_hello kind)) = Inr (ex_hello kind)"
    by (simp add: hello_round_trip WIRE_MAX_FRAME_BYTES_def)
  moreover have "length (hello_ack_encode (connection_ack ''1'' kind None (sv_readiness ex_service))) \<le> WIRE_MAX_FRAME_BYTES"
    by (cases kind) (simp_all add: ex_sizes connection_ack_def ex_service_def PROTOCOL_MAJOR_def PROTOCOL_MINOR_def is_ready_def standing_blockers_def)
  moreover have "connection_refusal kind (ex_hello kind) = None"
    by (simp add: connection_refusal_def handshake_refusal_def negotiate_def ex_hello_def PROTOCOL_MAJOR_def)
  ultimately show ?thesis
    by (auto simp: handle_connection_def ex_peer_def read_frame_plain [OF l] ex_selectors write_frame_def Let_def)
qed

lemma ex_public_refused:
  "\<exists>out. serve_requests ex_daemon ex_quiet Public 1 (ex_peer [request_encode ex_request]) ex_service acc = Some (Inr (), out, ex_service)"
proof -
  let ?r = "refuse_request ex_request StatusRefused ''SESSION_NOT_PERMITTED'' ''startExecution is not available on the Public socket''"
  have "service_handle ex_daemon (ca_import ex_quiet 1) Public ex_request None (ca_others ex_quiet 1 ex_service) = Some (?r, ex_service, None)"
    by (simp add: service_handle_def may_call_def ex_request_def ex_selectors)
  moreover have "length (response_encode ?r) \<le> WIRE_MAX_FRAME_BYTES" by (simp add: ex_sizes ex_request_def)
  ultimately show ?thesis
    using serve_plain_call [OF ex_request_small(2,1), of None Public "[]" ex_daemon ex_quiet 1 ex_service ?r ex_service _ acc]
    by (simp add: ex_peer_def ex_selectors write_frame_def ex_request_def serve_requests.simps [of _ _ _ "Suc (Suc 0)"] read_frame_def
        read_fill.simps source_read_def)
qed

lemma ex_import_refused:
  "\<exists>resp. service_handle ex_daemon ex_import_io Controller ex_import_request (Some c) ex_service = Some (resp, ex_service, Some c) \<and>
     length (response_encode resp) \<le> WIRE_MAX_FRAME_BYTES"
proof -
  have "decode_import_request (write_uint64 1 2000) = Inr (2000, None)"
    by code_simp
  moreover obtain e where "cas_import (content_read (dm_frame_text ex_daemon)) ex_import_io ex_store c 2000 None = Some (Inl e, c, ex_store)"
    by (simp add: cas_import_def cas_preflight_def ex_import_io_def ex_store_def total_bytes_def list_objects_def preflight_blocker_def Let_def)
  moreover have "length (response_encode (refuse_request ex_import_request StatusRefused ''IMPORT_REFUSED'' ''c'')) \<le> WIRE_MAX_FRAME_BYTES"
    by (simp add: ex_sizes ex_import_request_def)
  ultimately show ?thesis
    by (simp add: service_handle_def may_call_def import_artifact_def ex_selectors ex_import_request_def ex_service_def)
qed

lemma ex_content_obeyed:
  "\<exists>out sv'. serve_requests ex_daemon ex_quiet Controller 1 (ex_peer [request_encode ex_import_request, request_encode ex_request, []]) ex_service acc =
     Some (Inr (), out, sv') \<and> sv_store sv' = sv_store ex_service \<and> sv_rest sv' = [StartExecution]"
proof -
  let ?sv = "ex_service\<lparr>sv_rest := [StartExecution]\<rparr>" and ?z = "frame_bytes_of []"
  let ?c = "content_stream_new \<lparr>src_bytes = frame_bytes_of (request_encode ex_request) @ ?z, src_answers = []\<rparr>"
  obtain resp where i: "service_handle ex_daemon (ca_import ex_quiet 1) Controller ex_import_request (Some ?c) (ca_others ex_quiet 1 ex_service) =
      Some (resp, ex_service, Some ?c)" "length (response_encode resp) \<le> WIRE_MAX_FRAME_BYTES"
    using ex_import_refused [of ?c] by (auto simp: ex_selectors)
  have r: "service_handle ex_daemon (ca_import ex_quiet 2) Controller ex_request None (ca_others ex_quiet 2 ex_service) = Some (ok_response ex_request [], ?sv, None)"
    by (simp add: service_handle_def may_call_def ex_request_def ex_selectors ex_service_def)
  have "length (response_encode (ok_response ex_request [])) \<le> WIRE_MAX_FRAME_BYTES" by (simp add: ex_sizes ex_request_def)
  with r have second: "\<exists>bs. serve_requests ex_daemon ex_quiet Controller 2 \<lparr>src_bytes = frame_bytes_of (request_encode ex_request) @ ?z, src_answers = []\<rparr>
      ex_service acc = serve_requests ex_daemon ex_quiet Controller 3 \<lparr>src_bytes = ?z, src_answers = []\<rparr> ?sv (acc @ [bs])" for acc
    using serve_plain_call [OF ex_request_small(2,1), of None Controller ?z ex_daemon ex_quiet 2 ex_service "ok_response ex_request []" ?sv _ acc]
    by (auto simp: ex_selectors write_frame_def ex_request_def)
  have first: "\<exists>bs. serve_requests ex_daemon ex_quiet Controller 1 (ex_peer [request_encode ex_import_request, request_encode ex_request, []]) ex_service acc =
      serve_requests ex_daemon ex_quiet Controller 2 \<lparr>src_bytes = frame_bytes_of (request_encode ex_request) @ ?z, src_answers = []\<rparr> ex_service (acc @ [bs])"
    using serve_plain_call [OF ex_import_small(2,1) _ i(1), of _ _ acc] i(2)
    by (auto simp: ex_selectors write_frame_def ex_import_request_def ex_peer_def numeral_2_eq_2)
  have "read_frame \<lparr>src_bytes = ?z, src_answers = []\<rparr> = (Inr (Some []), \<lparr>src_bytes = [], src_answers = []\<rparr>)"
    using read_frame_plain [of "[]" "[]"] by (simp add: WIRE_MAX_FRAME_BYTES_def)
  moreover have "request_decode [] = Inl (MissingField ''Request'' 2)" by code_simp
  moreover have "length (response_encode (malformed_response ''w'')) \<le> WIRE_MAX_FRAME_BYTES" by (simp add: ex_sizes)
  ultimately have "\<exists>out. serve_requests ex_daemon ex_quiet Controller 3 \<lparr>src_bytes = ?z, src_answers = []\<rparr> ?sv acc = Some (Inr (), out, ?sv)" for acc
    by (simp add: serve_requests.simps [of _ _ _ 3] ex_selectors write_frame_def)
  then obtain out where "serve_requests ex_daemon ex_quiet Controller 1 (ex_peer [request_encode ex_import_request, request_encode ex_request, []]) ex_service acc =
      Some (Inr (), out, ?sv)" using first second by metis
  then show ?thesis by (intro exI [of _ out] exI [of _ ?sv]) simp
qed

section \<open>Properties\<close>



text \<open>
  C40. Content of a refused import is obeyed as requests. When an import is refused before its content is read, as when
  the declared size exceeds the quota, the frames of the content stay in the connection and are taken for requests: a
  peer that sends an import request, one frame of content and the empty frame that ends it has the daemon start an
  execution, if the content reads as that request.
\<close>

theorem refused_content_is_obeyed:
  "\<exists>(d :: api list daemon) os sv h q content out sv'.
     (\<forall>kind req sv. dm_handlers d kind req sv = Some (ok_response req [], sv\<lparr>sv_rest := sv_rest sv @ [req_api req]\<rparr>)) \<and>
     (\<forall>n sv. ca_others os n sv = sv) \<and> sv_rest sv = [] \<and> req_api q = ImportArtifact \<and>
     handle_connection d os Controller
       \<lparr>src_bytes = concat (map frame_bytes_of [hello_encode h, request_encode q, content, []]), src_answers = []\<rparr> sv = Some (Inr (), out, sv') \<and>
     sv_store sv' = sv_store sv \<and> sv_rest sv' = [StartExecution]"
proof -
  obtain out sv' where "handle_connection ex_daemon ex_quiet Controller
      (ex_peer [hello_encode (ex_hello Controller), request_encode ex_import_request, request_encode ex_request, []]) ex_service =
      Some (Inr (), out, sv')" "sv_store sv' = sv_store ex_service" "sv_rest sv' = [StartExecution]"
    using ex_accepted [of Controller "[request_encode ex_import_request, request_encode ex_request, []]"] ex_content_obeyed by metis
  then show ?thesis using ex_selectors(4,8) unfolding ex_peer_def
    by (intro exI [of _ ex_daemon] exI [of _ ex_quiet] exI [of _ ex_service] exI [of _ "ex_hello Controller"]
        exI [of _ ex_import_request] exI [of _ "request_encode ex_request"] exI [of _ out] exI [of _ sv'])
      (simp add: ex_service_def ex_import_request_def)
qed

end
