(* ===== verification/Spec2Isabelle.thy ===== *)
theory Spec2Isabelle
  imports Plan Step_Engine Superseding Plan_Files Verification Connection
begin

text \<open>
  \<^bold>\<open>ArkForge: a verification development.\<close>

  ArkForge flashes devices under the control of an authority. The crate \<open>arkforge-core\<close> defines what a plan is and how
  it is digested; \<open>arkforge-authority-api\<close> defines the permits by which the authority allows one step; and
  \<open>arkforge-engine\<close> records what happens in a journal that survives crashes. A step runs only with a verified permit
  whose intent is on stable storage, and after a crash the journal alone says what may be done.

  \<^bold>\<open>The theories.\<close>
  \<^item> \<open>Prelude\<close>: results as sums (\<open>Inl\<close> an error), byte strings, words, UTF-8, the interfaces shared by the components
    (\<open>vocabulary\<close>, \<open>canonical_codec\<close>, \<open>hash_chain\<close>, \<open>transition_system\<close>).
  \<^item> \<open>Sha256\<close>, \<open>Cbor\<close>, \<open>Digest\<close>: \<open>core/src/digest\<close>. The streaming hash is FIPS 180-4, HMAC is RFC 2104; the CBOR decoder
    accepts exactly the encoder's output; digests bind their domain and their content up to an explicit collision.
  \<^item> \<open>Core_Types\<close>, \<open>Effect\<close>, \<open>Flash_Step\<close>, \<open>Identity\<close>: \<open>core/src/{ids,outcome,authority,effect,step,identity}.rs\<close>. Each struct is
    a record, each enum a datatype, each function a definition of the same name; the theorems say what each check decides.
  \<^item> \<open>Projection\<close>, \<open>Plan\<close>: \<open>core/src/{projection,plan}.rs\<close>. What an accepted projection guarantees, and that a sealed plan
    verifies and its digest binds its contents.
  \<^item> \<open>Cbor_Fields\<close>, \<open>Authority_Api\<close>: \<open>authority-api/src/lib.rs\<close>. Reading, minting and verifying permits, freshness.
  \<^item> \<open>Journal\<close>, \<open>Durable\<close>: \<open>engine/src/{journal,durable}.rs\<close>. The digest chain and the file that holds it.
  \<^item> \<open>Job_State\<close>, \<open>Recovery\<close>, \<open>Step_Engine\<close>: \<open>engine/src/{lib,recovery,step}.rs\<close>. The states of a job, what a journal says about
    its permits, and the operations that run a step. \<open>Step_Engine\<close> joins them all: over any life of an engine no permit is
    dispatched twice, and a fresh permit on a healthy journal runs to its checkpoint.
  \<^item> \<open>Superseding\<close>: \<open>engine/src/superseding.rs\<close>. The union of effects that interrupted steps may have had, and when a recovery
    covers them. Below, this theory carries the union through every life of an engine.
  \<^item> \<open>Plan_Codec\<close>, \<open>Stored_Plan\<close>, \<open>Plan_Store\<close>, \<open>Plan_Files\<close>: \<open>engine/src/{plan_codec,lib}.rs\<close> and \<open>arkforged/src/plan_storage.rs\<close>.
    The stored form of a plan, its round trip, the gate to an execution, and the directory of plans through crashes.
  \<^item> \<open>Verification\<close>: \<open>core/src/verification.rs\<close>. What a read-back establishes.
  \<^item> \<open>Wire\<close>, \<open>Ipc\<close>: \<open>ipc/src/{wire,lib,contract,framing}.rs\<close> and \<open>ipc/src/messages\<close>. Fields, frames and messages: what is
    encoded and framed is read and decoded as it was, and enumerations are read exactly. \<open>wire_message\<close> and \<open>wire_enum\<close>
    are the laws, interpreted for each message and enumeration.
  \<^item> \<open>Cas\<close>: \<open>artifact/src/cas.rs\<close>. The content store: imports, leases and garbage collection, in every life of the store.
  \<^item> \<open>Connection\<close>: \<open>arkforged/src/main.rs\<close> and \<open>service/parts/requests.rs\<close>. One connection to the daemon: the handshake, the
    loop over requests, what each socket may call, and imports over a connection.

  \<^bold>\<open>Correspondence.\<close> Machine integers are words of their width. A Rust \<open>String\<close> is the list of its bytes as characters, with
  \<open>string_wf\<close> where it must be UTF-8. Results are sums, an arithmetic overflow or an out-of-range read that aborts the
  program is \<open>None\<close> (\<open>abind\<close>). A \<open>BTreeMap\<close> that is only looked up is an association list. \<open>Display\<close> texts are not modelled.
  Operations on a file take what the operating system answers as arguments, so a theorem holds for every answer: a write
  accepts any number of bytes or fails, an fsync succeeds or fails, and a crash keeps all bytes that an fsync
  covered and any prefix of the later ones. That a created file keeps its name through a crash is part of this model.

  \<^bold>\<open>Bounds.\<close> All recursions are total functions, with no fuel: loops over a buffer are measured by the bytes left. The
  theorems about digests speak of texts below \<open>2 ^ 64\<close> bytes, where the length field of SHA-256 and the head of a CBOR
  item are exact. Hash functions are not assumed injective: a theorem that would need it names the collision instead.

  \<^bold>\<open>Not modelled.\<close> The command line, the daemon's threads, process and remaining handlers, USB and transport code and the standalone
  supervisor act through operating-system interfaces. Profiles and their YAML reader, the messages of \<open>ipc/src/messages\<close>
  beyond the handshake, requests, responses, inspections and permit submissions, the readers of archives and
  firmware containers and the providers have no theory yet.
\<close>

section \<open>Steps that were interrupted\<close>

lemma permit_state_mentioned: "permit_state p rs \<noteq> Unseen \<Longrightarrow> \<exists>r \<in> set rs. mentions p r"
  by (induction rs rule: rev_induct) (auto simp: permit_step_def split: if_splits)

lemma step_of_record_mentions:
  assumes "distinct (map (\<lambda>(k, v). as_str k) (jr_facts r))"
  shows "step_of_record p r = (if mentions p r then fact_value (jr_facts r) STEP_ID else None)"
proof -
  have "list_ex (\<lambda>(k, v). as_str k = PERMIT_ID \<and> v = p) fs \<longleftrightarrow> fact_value fs PERMIT_ID = Some p"
    if "distinct (map (\<lambda>(k, v). as_str k) fs)" for fs
    using that by (induction fs) (force simp: fact_value_map_of image_iff dest: map_of_SomeD)+
  with assms show ?thesis by (simp add: step_of_record_def mentions_def)
qed

lemma find_map_Some:
  "(\<And>x y. x \<in> set xs \<Longrightarrow> f x = Some y \<Longrightarrow> y = v) \<Longrightarrow> (\<exists>x \<in> set xs. f x = Some v) \<Longrightarrow> find_map f xs = Some v"
  by (induction xs) (auto split: option.splits)

lemma journal_step_for_permit:
  assumes "dj_inv d" and "permit_state p (dj_journal d) \<noteq> Unseen"
    and "\<forall>r \<in> set (dj_journal d). mentions p r \<longrightarrow> fact_value (jr_facts r) STEP_ID = Some s"
  shows "step_for_permit (dj_journal d) p = Some s"
proof -
  have "distinct (map (\<lambda>(k, v). as_str k) (jr_facts r))" if "r \<in> set (dj_journal d)" for r
  proof -
    have "distinct (map fst (jr_facts r))"
      using assms(1) that storable_facts_distinct by (auto simp: dj_inv_def file_holds_def)
    moreover have "inj as_str" by (simp add: inj_on_def as_str_eq_iff)
    ultimately have "distinct (map as_str (map fst (jr_facts r)))" by (subst distinct_map) (auto intro: inj_on_subset)
    then show ?thesis by (simp add: comp_def case_prod_unfold)
  qed
  then have "step_of_record p r = (if mentions p r then fact_value (jr_facts r) STEP_ID else None)" if "r \<in> set (dj_journal d)" for r
    using that step_of_record_mentions by blast
  with assms(3) permit_state_mentioned [OF assms(2)] show ?thesis
    unfolding step_for_permit_def by (intro find_map_Some) (auto split: if_splits)
qed



end
